(* ===== verification/Prelude.thy ===== *)
theory Prelude
  imports Main "HOL-Library.Word" "HOL-Library.Monad_Syntax"
begin

unbundle bit_operations_syntax

text \<open>
  The vocabulary every component shares: the machine integers of the sources, byte buffers
  with checked accesses, little-endian fields, and the generic lemmas about them.

  A C buffer is the list of its bytes. A read or a write that leaves the buffer is undefined
  behaviour in C; here it is the value \<open>None\<close>, so a theorem that an operation returns
  \<open>Some\<close> is also the theorem that it stays inside its buffers.
\<close>

section \<open>Machine integers and status codes\<close>

type_synonym u8 = "8 word"
type_synonym u16 = "16 word"
type_synonym u32 = "32 word"
type_synonym u64 = "64 word"
type_synonym buf = "u8 list"

lemma unat_drop_bit_div: "unat (drop_bit n (b :: 'a :: len word)) = unat b div 2 ^ n"
  by (rule trans [OF unat_drop_bit_eq drop_bit_eq_div])

lemma unat_shift_less: "b \<noteq> 0 \<Longrightarrow> unat (drop_bit 1 b) < unat (b :: 'a :: len word)"
  unfolding unat_drop_bit_div by (simp add: unat_gt_0)

named_theorems buf_simps \<open>accesses to buffers\<close>
named_theorems len_simps \<open>lengths of computed byte lists\<close>

lemma bind_SomeE: "m \<bind> f = Some r \<Longrightarrow> (\<And>x. m = Some x \<Longrightarrow> f x = Some r \<Longrightarrow> P) \<Longrightarrow> P"
  by (cases m) auto

section \<open>Checked accesses to a buffer\<close>

definition rd :: "'a list \<Rightarrow> nat \<Rightarrow> nat \<Rightarrow> 'a list option" where
  "rd b off n = (if off + n \<le> length b then Some (take n (drop off b)) else None)"

definition wr :: "'a list \<Rightarrow> nat \<Rightarrow> 'a list \<Rightarrow> 'a list option" where
  "wr b off xs =
     (if off + length xs \<le> length b
      then Some (take off b @ xs @ drop (off + length xs) b) else None)"

lemma rd_Some [buf_simps]: "off + n \<le> length b \<Longrightarrow> rd b off n = Some (take n (drop off b))"
  by (simp add: rd_def)

lemma rd_eq_Some_iff: "rd b off n = Some x \<longleftrightarrow> off + n \<le> length b \<and> x = take n (drop off b)"
  by (auto simp: rd_def)

lemma rd_eq_None_iff [simp]: "rd b off n = None \<longleftrightarrow> length b < off + n"
  by (auto simp: rd_def)

lemma wr_eq_None_iff [simp]: "wr b off xs = None \<longleftrightarrow> length b < off + length xs"
  by (auto simp: wr_def)

lemma wr_Some [buf_simps]:
  "off + length xs \<le> length b \<Longrightarrow> wr b off xs = Some (take off b @ xs @ drop (off + length xs) b)"
  by (simp add: wr_def)

lemma length_rd: "rd b off n = Some x \<Longrightarrow> length x = n"
  by (auto simp: rd_eq_Some_iff)

lemma length_wr: "wr b off xs = Some b' \<Longrightarrow> length b' = length b"
  by (auto simp: wr_def split: if_splits)

lemma wr_defined: "off + length xs \<le> length b \<Longrightarrow> \<exists>b'. wr b off xs = Some b' \<and> length b' = length b"
  by (simp add: wr_def)

text \<open>Reading back what was written, and reading beside it.\<close>

lemma rd_wr_same: "wr b off xs = Some b' \<Longrightarrow> length xs = n \<Longrightarrow> rd b' off n = Some xs"
  by (auto simp: wr_def rd_def split: if_splits)

lemma take_drop_wr_below:
  "wr b off xs = Some b' \<Longrightarrow> i + n \<le> off \<Longrightarrow> take n (drop i b') = take n (drop i b)"
  by (rule nth_equalityI) (auto simp: wr_def nth_append split: if_splits)

lemma take_drop_wr_above:
  "wr b off xs = Some b' \<Longrightarrow> off + length xs \<le> i \<Longrightarrow> take n (drop i b') = take n (drop i b)"
  by (auto simp: wr_def split: if_splits)

lemma rd_wr_other:
  "wr b off xs = Some b' \<Longrightarrow> i + n \<le> off \<or> off + length xs \<le> i \<Longrightarrow> rd b' i n = rd b i n"
  using length_wr [of b off xs b'] take_drop_wr_below [of b off xs b' i n]
    take_drop_wr_above [of b off xs b' i n]
  by (auto simp: rd_def)

lemma wr_nth:
  "wr b off xs = Some b' \<Longrightarrow> i < length b \<Longrightarrow>
     b' ! i = (if off \<le> i \<and> i < off + length xs then xs ! (i - off) else b ! i)"
  by (auto simp: wr_def nth_append split: if_splits)

lemma wr_same_bytes: "wr b off (take n (drop off b)) = Some b'
    \<Longrightarrow> off + n \<le> length b \<Longrightarrow> b' = b"
  using length_wr [of b off "take n (drop off b)" b'] wr_nth [of b off "take n (drop off b)" b']
  by (intro nth_equalityI) auto

section \<open>Little-endian integers in a buffer\<close>

fun le_val :: "u8 list \<Rightarrow> nat" where
  "le_val [] = 0"
| "le_val (b # bs) = unat b + 256 * le_val bs"

fun le_bytes :: "nat \<Rightarrow> nat \<Rightarrow> u8 list" where
  "le_bytes 0 v = []"
| "le_bytes (Suc n) v = of_nat v # le_bytes n (v div 256)"

lemma length_le_bytes [simp, len_simps]: "length (le_bytes n v) = n"
  by (induction n arbitrary: v) auto

lemma unat_u8_less: "unat (b :: u8) < 256"
proof -
  have "unat b < 2 ^ LENGTH(8)" by (rule unsigned_less)
  then show ?thesis by simp
qed

lemma le_val_bound: "le_val bs < 256 ^ length bs"
proof (induction bs)
  case Nil
  then show ?case by simp
next
  case (Cons b bs)
  have "unat b < 256" by (rule unat_u8_less)
  with Cons show ?case by simp
qed

lemma le_val_le_bytes: "v < 256 ^ n \<Longrightarrow> le_val (le_bytes n v) = v"
  by (induction n arbitrary: v) (auto simp: unat_of_nat less_mult_imp_div_less mult.commute)

lemma le_bytes_add: "le_bytes (m + n) v = le_bytes m v @ le_bytes n (v div 256 ^ m)"
  by (induction m arbitrary: v) (auto simp: div_mult2_eq)

lemma le_bytes_le_val: "length bs = n \<Longrightarrow> le_bytes n (le_val bs) = bs"
proof (induction bs arbitrary: n)
  case Nil
  then show ?case by simp
next
  case (Cons b bs)
  have b: "unat b < 256" by (rule unat_u8_less)
  then have "(unat b + 256 * le_val bs) div 256 = le_val bs" by simp
  moreover have "of_nat (unat b + 256 * le_val bs) = b"
  proof -
    have "unat (of_nat (unat b + 256 * le_val bs) :: u8) = unat b"
      using b by (simp only: unat_of_nat) simp
    then show ?thesis by (simp only: word_unat_eq_iff)
  qed
  ultimately show ?case using Cons by (cases n) auto
qed

lemma le_bytes_mod: "le_bytes n (v mod 256 ^ n) = le_bytes n v"
proof (induction n arbitrary: v)
  case (Suc n)
  have "v mod (256 * 256 ^ n) div 256 = v div 256 mod 256 ^ n"
    by (simp add: mod_mult2_eq)
  moreover have "(of_nat (v mod (256 * 256 ^ n)) :: u8) = of_nat v"
    by (simp add: word_unat_eq_iff unat_of_nat mod_mod_cancel)
  ultimately show ?case using Suc by simp
qed simp

definition rd_u8 :: "buf \<Rightarrow> nat \<Rightarrow> u8 option" where
  "rd_u8 b off = (if off < length b then Some (b ! off) else None)"

definition rd_u16 :: "buf \<Rightarrow> nat \<Rightarrow> u16 option" where
  "rd_u16 b off = map_option (\<lambda>x. of_nat (le_val x)) (rd b off 2)"

definition rd_u32 :: "buf \<Rightarrow> nat \<Rightarrow> u32 option" where
  "rd_u32 b off = map_option (\<lambda>x. of_nat (le_val x)) (rd b off 4)"

definition rd_u64 :: "buf \<Rightarrow> nat \<Rightarrow> u64 option" where
  "rd_u64 b off = map_option (\<lambda>x. of_nat (le_val x)) (rd b off 8)"

definition wr_u32 :: "buf \<Rightarrow> nat \<Rightarrow> u32 \<Rightarrow> buf option" where
  "wr_u32 b off v = wr b off (le_bytes 4 (unat v))"

section \<open>Byte-wise exclusive or\<close>

definition xor_bytes :: "u8 list \<Rightarrow> u8 list \<Rightarrow> u8 list" where
  "xor_bytes xs ys = map2 (XOR) xs ys"

lemma length_xor_bytes [simp, len_simps]: "length (xor_bytes xs ys) = min (length xs) (length ys)"
  by (simp add: xor_bytes_def)

lemma xor_bytes_nth:
  "i < length xs \<Longrightarrow> i < length ys \<Longrightarrow> xor_bytes xs ys ! i = xs ! i XOR ys ! i"
  by (simp add: xor_bytes_def)

lemma xor_bytes_commute: "xor_bytes xs ys = xor_bytes ys xs"
  by (auto simp: xor_bytes_def zip_commute [of xs ys] xor.commute o_def)

lemma xor_bytes_assoc: "xor_bytes (xor_bytes xs ys) zs = xor_bytes xs (xor_bytes ys zs)"
  by (rule nth_equalityI) (auto simp: xor_bytes_nth xor.assoc)

lemma xor_bytes_cancel [simp]: "length ys = length xs \<Longrightarrow> xor_bytes (xor_bytes xs ys) ys = xs"
  by (rule nth_equalityI) (auto simp: xor_bytes_nth xor.assoc)

lemma xor_bytes_cancel_left [simp]: "length ys = length xs \<Longrightarrow> xor_bytes ys (xor_bytes ys xs) = xs"
  by (rule nth_equalityI) (auto simp: xor_bytes_nth simp flip: xor.assoc)

lemma xor_bytes_append:
  "length xs = length xs' \<Longrightarrow> xor_bytes (xs @ ys) (xs' @ ys') = xor_bytes xs xs' @ xor_bytes ys ys'"
  by (simp add: xor_bytes_def)

lemma le_bytes_xor: "le_bytes n (a XOR b) = xor_bytes (le_bytes n a) (le_bytes n b)"
proof (induction n arbitrary: a b)
  case (Suc n)
  have "(a XOR b) div 256 = (a div 256) XOR (b div 256)"
    using drop_bit_xor [of 8 a b] by (simp add: drop_bit_eq_div)
  with Suc show ?case by (simp add: xor_bytes_def of_nat_xor_eq)
qed (simp add: xor_bytes_def)

section \<open>Blocks of a byte list\<close>

function blocks :: "nat \<Rightarrow> 'a list \<Rightarrow> 'a list list" where
  "blocks n xs = (if xs = [] \<or> n = 0 then [] else take n xs # blocks n (drop n xs))"
  by pat_completeness auto
termination
  by (relation "measure (\<lambda>(n, xs). length xs)") auto

declare blocks.simps [simp del]

lemma blocks_Nil [simp]: "blocks n [] = []"
  by (simp add: blocks.simps)

lemma blocks_append: "0 < n \<Longrightarrow> length xs = n \<Longrightarrow> blocks n (xs @ ys) = xs # blocks n ys"
  by (subst blocks.simps) auto

lemma blocks_append_mult:
  "0 < n \<Longrightarrow> n dvd length xs \<Longrightarrow> blocks n (xs @ ys) = blocks n xs @ blocks n ys"
proof (induction n xs rule: blocks.induct)
  case (1 n xs)
  show ?case
  proof (cases "xs = []")
    case False
    then have le: "n \<le> length xs" using 1 by (simp add: dvd_imp_le)
    then have "n dvd length (drop n xs)" using 1 by (simp add: dvd_minus_self)
    with 1 False have "blocks n (drop n xs @ ys) = blocks n (drop n xs) @ blocks n ys" by simp
    with False le 1 show ?thesis
      by (subst blocks.simps, subst blocks.simps [of n xs]) simp
  qed simp
qed

end
