(* ===== verification/Crc32.thy ===== *)
theory Crc32
  imports Prelude
begin

unbundle bit_operations_syntax

text \<open>
  \<^verbatim>\<open>ImBox/dc/crypto_lib/crc32.c\<close>: the table-driven CRC-32 and
  \<^verbatim>\<open>crc32_combine\<close>, which multiplies in GF(2)[x]/p(x). The header and the key slots
  are checked with both. \<^verbatim>\<open>unsigned long\<close> is 32 bits on every target of the build.
\<close>

section \<open>The code\<close>

definition crc32_tab :: "u32 list" where
  "crc32_tab = [
    0x00000000, 0x77073096, 0xEE0E612C, 0x990951BA, 0x076DC419, 0x706AF48F,
    0xE963A535, 0x9E6495A3, 0x0EDB8832, 0x79DCB8A4, 0xE0D5E91E, 0x97D2D988,
    0x09B64C2B, 0x7EB17CBD, 0xE7B82D07, 0x90BF1D91, 0x1DB71064, 0x6AB020F2,
    0xF3B97148, 0x84BE41DE, 0x1ADAD47D, 0x6DDDE4EB, 0xF4D4B551, 0x83D385C7,
    0x136C9856, 0x646BA8C0, 0xFD62F97A, 0x8A65C9EC, 0x14015C4F, 0x63066CD9,
    0xFA0F3D63, 0x8D080DF5, 0x3B6E20C8, 0x4C69105E, 0xD56041E4, 0xA2677172,
    0x3C03E4D1, 0x4B04D447, 0xD20D85FD, 0xA50AB56B, 0x35B5A8FA, 0x42B2986C,
    0xDBBBC9D6, 0xACBCF940, 0x32D86CE3, 0x45DF5C75, 0xDCD60DCF, 0xABD13D59,
    0x26D930AC, 0x51DE003A, 0xC8D75180, 0xBFD06116, 0x21B4F4B5, 0x56B3C423,
    0xCFBA9599, 0xB8BDA50F, 0x2802B89E, 0x5F058808, 0xC60CD9B2, 0xB10BE924,
    0x2F6F7C87, 0x58684C11, 0xC1611DAB, 0xB6662D3D, 0x76DC4190, 0x01DB7106,
    0x98D220BC, 0xEFD5102A, 0x71B18589, 0x06B6B51F, 0x9FBFE4A5, 0xE8B8D433,
    0x7807C9A2, 0x0F00F934, 0x9609A88E, 0xE10E9818, 0x7F6A0DBB, 0x086D3D2D,
    0x91646C97, 0xE6635C01, 0x6B6B51F4, 0x1C6C6162, 0x856530D8, 0xF262004E,
    0x6C0695ED, 0x1B01A57B, 0x8208F4C1, 0xF50FC457, 0x65B0D9C6, 0x12B7E950,
    0x8BBEB8EA, 0xFCB9887C, 0x62DD1DDF, 0x15DA2D49, 0x8CD37CF3, 0xFBD44C65,
    0x4DB26158, 0x3AB551CE, 0xA3BC0074, 0xD4BB30E2, 0x4ADFA541, 0x3DD895D7,
    0xA4D1C46D, 0xD3D6F4FB, 0x4369E96A, 0x346ED9FC, 0xAD678846, 0xDA60B8D0,
    0x44042D73, 0x33031DE5, 0xAA0A4C5F, 0xDD0D7CC9, 0x5005713C, 0x270241AA,
    0xBE0B1010, 0xC90C2086, 0x5768B525, 0x206F85B3, 0xB966D409, 0xCE61E49F,
    0x5EDEF90E, 0x29D9C998, 0xB0D09822, 0xC7D7A8B4, 0x59B33D17, 0x2EB40D81,
    0xB7BD5C3B, 0xC0BA6CAD, 0xEDB88320, 0x9ABFB3B6, 0x03B6E20C, 0x74B1D29A,
    0xEAD54739, 0x9DD277AF, 0x04DB2615, 0x73DC1683, 0xE3630B12, 0x94643B84,
    0x0D6D6A3E, 0x7A6A5AA8, 0xE40ECF0B, 0x9309FF9D, 0x0A00AE27, 0x7D079EB1,
    0xF00F9344, 0x8708A3D2, 0x1E01F268, 0x6906C2FE, 0xF762575D, 0x806567CB,
    0x196C3671, 0x6E6B06E7, 0xFED41B76, 0x89D32BE0, 0x10DA7A5A, 0x67DD4ACC,
    0xF9B9DF6F, 0x8EBEEFF9, 0x17B7BE43, 0x60B08ED5, 0xD6D6A3E8, 0xA1D1937E,
    0x38D8C2C4, 0x4FDFF252, 0xD1BB67F1, 0xA6BC5767, 0x3FB506DD, 0x48B2364B,
    0xD80D2BDA, 0xAF0A1B4C, 0x36034AF6, 0x41047A60, 0xDF60EFC3, 0xA867DF55,
    0x316E8EEF, 0x4669BE79, 0xCB61B38C, 0xBC66831A, 0x256FD2A0, 0x5268E236,
    0xCC0C7795, 0xBB0B4703, 0x220216B9, 0x5505262F, 0xC5BA3BBE, 0xB2BD0B28,
    0x2BB45A92, 0x5CB36A04, 0xC2D7FFA7, 0xB5D0CF31, 0x2CD99E8B, 0x5BDEAE1D,
    0x9B64C2B0, 0xEC63F226, 0x756AA39C, 0x026D930A, 0x9C0906A9, 0xEB0E363F,
    0x72076785, 0x05005713, 0x95BF4A82, 0xE2B87A14, 0x7BB12BAE, 0x0CB61B38,
    0x92D28E9B, 0xE5D5BE0D, 0x7CDCEFB7, 0x0BDBDF21, 0x86D3D2D4, 0xF1D4E242,
    0x68DDB3F8, 0x1FDA836E, 0x81BE16CD, 0xF6B9265B, 0x6FB077E1, 0x18B74777,
    0x88085AE6, 0xFF0F6A70, 0x66063BCA, 0x11010B5C, 0x8F659EFF, 0xF862AE69,
    0x616BFFD3, 0x166CCF45, 0xA00AE278, 0xD70DD2EE, 0x4E048354, 0x3903B3C2,
    0xA7672661, 0xD06016F7, 0x4969474D, 0x3E6E77DB, 0xAED16A4A, 0xD9D65ADC,
    0x40DF0B66, 0x37D83BF0, 0xA9BCAE53, 0xDEBB9EC5, 0x47B2CF7F, 0x30B5FFE9,
    0xBDBDF21C, 0xCABAC28A, 0x53B39330, 0x24B4A3A6, 0xBAD03605, 0xCDD70693,
    0x54DE5729, 0x23D967BF, 0xB3667A2E, 0xC4614AB8, 0x5D681B02, 0x2A6F2B94,
    0xB40BBE37, 0xC30C8EA1, 0x5A05DF1B, 0x2D02EF8D]"

fun crc32_loop :: "u32 \<Rightarrow> u8 list \<Rightarrow> u32" where
  "crc32_loop crc [] = crc"
| "crc32_loop crc (p # ps) =
     crc32_loop (crc32_tab ! unat ((crc XOR ucast p) AND 0xFF) XOR drop_bit 8 crc) ps"

definition crc32 :: "u8 list \<Rightarrow> u32" where
  "crc32 p = crc32_loop 0xFFFFFFFF p XOR 0xFFFFFFFF"

definition xtime :: "u32 \<Rightarrow> u32" where
  "xtime b = (if b AND 1 \<noteq> 0 then drop_bit 1 b XOR 0xEDB88320 else drop_bit 1 b)"

text \<open>
  The endless loop of \<^verbatim>\<open>multmodp\<close> leaves through its \<^verbatim>\<open>break\<close> only, which needs a set
  bit in \<open>a\<close>; for \<open>a = 0\<close> it does not return, and the model is \<open>None\<close> there.
\<close>

partial_function (option) multmodp_loop :: "u32 \<Rightarrow> u32 \<Rightarrow> u32 \<Rightarrow> u32 \<Rightarrow> u32 option" where
  "multmodp_loop a m b p =
     (if a AND m \<noteq> 0 then
        (if a AND (m - 1) = 0 then Some (p XOR b)
         else multmodp_loop a (drop_bit 1 m) (xtime b) (p XOR b))
      else multmodp_loop a (drop_bit 1 m) (xtime b) p)"

definition multmodp :: "u32 \<Rightarrow> u32 \<Rightarrow> u32 option" where
  "multmodp a b = multmodp_loop a 0x80000000 b 0"

fun x2nmodp_square :: "nat \<Rightarrow> u32 \<Rightarrow> u32 option" where
  "x2nmodp_square 0 x = Some x"
| "x2nmodp_square (Suc k) x = multmodp x x \<bind> x2nmodp_square k"

function x2nmodp_loop :: "u64 \<Rightarrow> u32 \<Rightarrow> u32 \<Rightarrow> u32 option" where
  "x2nmodp_loop n p x =
     (if n = 0 then Some p
      else (if n AND 1 \<noteq> 0 then multmodp x p else Some p) \<bind> (\<lambda>p'.
           multmodp x x \<bind> (\<lambda>x'. x2nmodp_loop (drop_bit 1 n) p' x')))"
  by pat_completeness auto
termination
  by (relation "measure (\<lambda>(n, p, x). unat n)")
    (auto simp: drop_bit_eq_div unat_div_distrib unat_gt_0)

declare x2nmodp_loop.simps [simp del]

definition x2nmodp :: "u64 \<Rightarrow> nat \<Rightarrow> u32 option" where
  "x2nmodp n k = x2nmodp_square k 0x40000000 \<bind> x2nmodp_loop n 0x80000000"

definition crc32_combine :: "u32 \<Rightarrow> u32 \<Rightarrow> u32 \<Rightarrow> u32 option" where
  "crc32_combine crc1 crc2 len2 =
     (if len2 = 0 then Some crc1
      else do {
        e \<leftarrow> x2nmodp (ucast len2) 3;
        r \<leftarrow> multmodp e crc1;
        Some (r XOR crc2) })"

section \<open>Linear maps on 32-bit words\<close>

definition lin :: "(u32 \<Rightarrow> u32) \<Rightarrow> bool" where
  "lin f \<longleftrightarrow> (\<forall>a b. f (a XOR b) = f a XOR f b)"

lemma linD: "lin f \<Longrightarrow> f (a XOR b) = f a XOR f b"
  by (simp add: lin_def)

lemma lin_0: "lin f \<Longrightarrow> f 0 = 0"
  using linD [of f 0 0] by simp

lemma word_split_bit:
  "take_bit (Suc n) (a :: u32) = take_bit n a XOR (if bit a n then 2 ^ n else 0)"
  by (rule bit_word_eqI)
    (auto simp: bit_take_bit_iff bit_xor_iff bit_exp_iff less_Suc_eq)

lemma lin_eqI:
  assumes f: "lin f" and g: "lin g" and e: "\<And>i. i < 32 \<Longrightarrow> f (2 ^ i) = g (2 ^ i)"
  shows "f a = g a"
proof -
  note z = lin_0 [OF f] lin_0 [OF g]
  have "n \<le> 32 \<Longrightarrow> f (take_bit n a) = g (take_bit n a)" for n
  proof (induction n)
    case 0
    then show ?case by (simp add: z)
  next
    case (Suc n)
    then show ?case
      using e [of n] z by (simp add: word_split_bit linD [OF f] linD [OF g])
  qed
  from this [of 32] show ?thesis by (simp add: take_bit_word_eq_self)
qed

lemma xtime_alt: "xtime b = drop_bit 1 b XOR (if bit b 0 then 0xEDB88320 else 0)"
proof -
  have "b AND 1 \<noteq> 0 \<longleftrightarrow> bit b 0"
    by (simp add: and_one_eq bit_0 odd_iff_mod_2_eq_one)
  then show ?thesis by (simp add: xtime_def)
qed

lemma lin_xtime: "lin xtime"
proof -
  have "xtime (a XOR b) = xtime a XOR xtime b" for a b
    by (rule bit_word_eqI) (auto simp: xtime_alt bit_xor_iff bit_drop_bit_eq)
  then show ?thesis by (simp add: lin_def)
qed

lemma lin_funpow: "lin f \<Longrightarrow> lin (f ^^ n)"
  by (induction n) (auto simp: lin_def)

lemmas lin_xpow = lin_funpow [OF lin_xtime]

lemma xtime_eq_0_iff: "xtime a = 0 \<longleftrightarrow> a = 0"
proof
  assume z: "xtime a = 0"
  have "bit (xtime a) 31 = bit a 0"
    by (auto simp: xtime_alt bit_xor_iff bit_drop_bit_eq dest: bit_imp_le_length)
  with z have a0: "\<not> bit a 0" by simp
  with z have "drop_bit 1 a = 0" by (simp add: xtime_alt)
  have "bit a i = bit 0 i" if "i < 32" for i
  proof (cases i)
    case (Suc j)
    have "bit (drop_bit 1 a) j = False" using \<open>drop_bit 1 a = 0\<close> by simp
    then show ?thesis using Suc by (simp add: bit_drop_bit_eq)
  qed (use a0 in simp)
  then show "a = 0" by (intro bit_word_eqI) simp
qed (simp add: xtime_def)

lemma xpow_eq_0_iff: "(xtime ^^ n) a = 0 \<longleftrightarrow> a = 0"
  by (induction n) (simp_all add: xtime_eq_0_iff)

section \<open>Multiplication as a polynomial in \<open>xtime\<close>\<close>

primrec psum :: "nat \<Rightarrow> u32 \<Rightarrow> u32 \<Rightarrow> u32" where
  "psum 0 a b = 0"
| "psum (Suc n) a b = psum n a b XOR (if bit a (31 - n) then (xtime ^^ n) b else 0)"

definition pmul :: "u32 \<Rightarrow> u32 \<Rightarrow> u32" where
  "pmul a b = psum 32 a b"

lemma xor_exchange: "(a XOR b) XOR (c XOR d) = (a XOR c) XOR (b XOR (d :: u32))"
  by (simp add: xor.assoc xor.left_commute)

lemma psum_xor_left: "psum n (a XOR a') b = psum n a b XOR psum n a' b"
proof (induction n)
  case (Suc n)
  then show ?case
    by (cases "bit a (31 - n)"; cases "bit a' (31 - n)")
      (simp_all add: bit_xor_iff xor_exchange, simp_all add: ac_simps)
qed simp

lemma psum_xor_right: "psum n a (b XOR b') = psum n a b XOR psum n a b'"
  by (induction n) (simp_all add: linD [OF lin_xpow] xor_exchange)

lemma psum_xtime: "psum n a (xtime b) = xtime (psum n a b)"
  by (induction n)
    (auto simp: linD [OF lin_xtime] lin_0 [OF lin_xtime] funpow_swap1)

lemma lin_pmul: "lin (\<lambda>a. pmul a b)" "lin (pmul a)"
  by (simp_all add: lin_def pmul_def psum_xor_left psum_xor_right)

lemma psum_bit: "i < 32 \<Longrightarrow> n \<le> 32 \<Longrightarrow>
    psum n (2 ^ (31 - i)) b = (if i < n then (xtime ^^ i) b else 0)"
proof (induction n)
  case (Suc n)
  then have "bit (2 ^ (31 - i) :: u32) (31 - n) \<longleftrightarrow> i = n"
    by (auto simp: bit_exp_iff)
  with Suc show ?case by auto
qed simp

lemma pmul_bit: "i < 32 \<Longrightarrow> pmul (2 ^ (31 - i)) b = (xtime ^^ i) b"
  by (simp add: pmul_def psum_bit)

lemma pmul_xtime_right: "pmul a (xtime b) = xtime (pmul a b)"
  by (simp add: pmul_def psum_xtime)

lemma pmul_xpow_right: "pmul a ((xtime ^^ n) b) = (xtime ^^ n) (pmul a b)"
  by (induction n) (simp_all add: pmul_xtime_right)

lemma xtime_power2: "k < 31 \<Longrightarrow> xtime (2 ^ Suc k) = 2 ^ k"
  by (rule bit_word_eqI) (auto simp del: power_Suc simp: xtime_alt bit_xor_iff bit_drop_bit_eq bit_exp_iff)

lemma xpow_one: "i < 32 \<Longrightarrow> (xtime ^^ i) 0x80000000 = 2 ^ (31 - i)"
proof (induction i)
  case (Suc i)
  then have "31 - i = Suc (31 - Suc i)" by simp
  with Suc show ?case by (simp del: power_Suc add: xtime_power2)
qed simp

lemma pmul_one_left: "pmul 0x80000000 b = b"
  using pmul_bit [of 0 b] by simp

lemma pmul_one_right: "pmul a 0x80000000 = a"
proof (rule lin_eqI [where f = "\<lambda>a. pmul a 0x80000000" and g = "\<lambda>a. a"])
  show "lin (\<lambda>a. pmul a 0x80000000)" by (rule lin_pmul)
  show "lin (\<lambda>a. a)" by (simp add: lin_def)
  fix i :: nat
  assume i: "i < 32"
  then have "pmul (2 ^ (31 - (31 - i))) 0x80000000 = 2 ^ (31 - (31 - i))"
    by (simp only: pmul_bit xpow_one)
  with i show "pmul (2 ^ i) 0x80000000 = 2 ^ i" by simp
qed

lemma xpow_commute: "(xtime ^^ m) ((xtime ^^ n) b) = (xtime ^^ n) ((xtime ^^ m) b)"
  by (simp add: add.commute flip: funpow_add comp_apply [of "xtime ^^ _"])

lemma pmul_xtime_left: "pmul (xtime a) b = xtime (pmul a b)"
proof (rule lin_eqI [where f = "\<lambda>a. pmul (xtime a) b" and g = "\<lambda>a. xtime (pmul a b)"])
  show "lin (\<lambda>a. pmul (xtime a) b)" and "lin (\<lambda>a. xtime (pmul a b))"
    using lin_pmul(1) [of b] lin_xtime by (simp_all add: lin_def)
  fix i :: nat
  assume i: "i < 32"
  show "pmul (xtime (2 ^ i)) b = xtime (pmul (2 ^ i) b)"
  proof (cases i)
    case 0
    have "xtime 1 = 0xEDB88320" by (simp add: xtime_def)
    moreover have "pmul 0xEDB88320 b = (xtime ^^ 32) b"
    proof (rule lin_eqI [OF lin_pmul(2) lin_xpow])
      fix j :: nat
      assume "j < 32"
      then have j: "2 ^ j = (xtime ^^ (31 - j)) 0x80000000" using xpow_one [of "31 - j"] by simp
      have "(xtime ^^ 32) 0x80000000 = xtime ((xtime ^^ 31) 0x80000000)" by (simp add: numeral_eq_Suc)
      also have "\<dots> = 0xEDB88320" using xpow_one [of 31] \<open>xtime 1 = _\<close> by simp
      finally have "pmul 0xEDB88320 0x80000000 = (xtime ^^ 32) 0x80000000"
        by (simp only: pmul_one_right)
      then show "pmul 0xEDB88320 (2 ^ j) = (xtime ^^ 32) (2 ^ j)"
        unfolding j pmul_xpow_right xpow_commute [of 32] by simp
    qed
    moreover have "xtime (pmul 1 b) = (xtime ^^ 32) b"
      using pmul_bit [of 31 b] by (simp add: numeral_eq_Suc)
    ultimately show ?thesis using 0 by simp
  next
    case (Suc k)
    have "xtime (pmul (2 ^ i) b) = xtime ((xtime ^^ (31 - i)) b)"
      using pmul_bit [of "31 - i" b] i by simp
    also have "\<dots> = (xtime ^^ (31 - k)) b"
    proof -
      have "31 - k = Suc (31 - i)" using i Suc by simp
      then show ?thesis by simp
    qed
    finally show ?thesis
      using xtime_power2 [of k] pmul_bit [of "31 - k" b] i Suc by (simp del: power_Suc)
  qed
qed

lemma pmul_xpow_left: "pmul ((xtime ^^ n) a) b = (xtime ^^ n) (pmul a b)"
  by (induction n) (simp_all add: pmul_xtime_left)

text \<open>The powers of \<open>x\<close>: multiplying by \<open>x\<^sup>n\<close> is \<open>n\<close> steps of \<open>xtime\<close>.\<close>

definition xelt :: "nat \<Rightarrow> u32" where
  "xelt n = (xtime ^^ n) 0x80000000"

lemma pmul_xelt: "pmul (xelt n) b = (xtime ^^ n) b"
  by (simp add: xelt_def pmul_xpow_left pmul_one_left)

lemma pmul_xelt_xelt: "pmul (xelt m) (xelt n) = xelt (m + n)"
  by (simp add: pmul_xelt, simp add: xelt_def funpow_add)

lemma xelt_neq_0: "xelt n \<noteq> 0"
  by (simp add: xelt_def xpow_eq_0_iff)

section \<open>The loops compute that product\<close>

lemma mask_zero_psum:
  "n \<le> 32 \<Longrightarrow> (\<forall>j. n \<le> j \<longrightarrow> j < 32 \<longrightarrow> \<not> bit a (31 - j)) \<Longrightarrow> psum 32 a b = psum n a b"
proof -
  assume n: "n \<le> 32" and z: "\<forall>j. n \<le> j \<longrightarrow> j < 32 \<longrightarrow> \<not> bit a (31 - j)"
  have "m \<le> 32 \<Longrightarrow> n \<le> m \<Longrightarrow> psum m a b = psum n a b" for m
  proof (induction m)
    case (Suc m)
    then show ?case using z by (cases "n = Suc m") auto
  qed (use n in simp)
  from this [of 32] n show ?thesis by simp
qed

lemma and_power2_iff: "i < 32 \<Longrightarrow> (a :: u32) AND 2 ^ i \<noteq> 0 \<longleftrightarrow> bit a i"
  by (simp add: bit_iff_and_push_bit_not_eq_0 push_bit_eq_mult)

lemma and_mask_zero_iff: "i < 32 \<Longrightarrow> (a :: u32) AND (2 ^ i - 1) = 0 \<longleftrightarrow> (\<forall>j < i. \<not> bit a j)"
proof -
  assume i: "i < 32"
  have "a AND (2 ^ i - 1) = take_bit i a" by (simp add: take_bit_eq_mask mask_eq_exp_minus_1)
  moreover have "take_bit i a = 0 \<longleftrightarrow> (\<forall>j < i. \<not> bit a j)"
    using i by (auto simp: bit_eq_iff bit_take_bit_iff)
  ultimately show ?thesis by simp
qed

lemma drop_bit_power2: "i < 31 \<Longrightarrow> drop_bit 1 (2 ^ Suc i :: u32) = 2 ^ i"
  by (rule bit_word_eqI) (auto simp del: power_Suc simp: bit_drop_bit_eq bit_exp_iff)

lemma multmodp_loop_psum:
  assumes "i < 32" and "\<exists>j \<le> i. bit a j"
  shows "multmodp_loop a (2 ^ i) ((xtime ^^ (31 - i)) b) (psum (31 - i) a b) = Some (psum 32 a b)"
  using assms
proof (induction i)
  case 0
  then have "bit a 0" by simp
  then have "psum 32 a b = psum 31 a b XOR (xtime ^^ 31) b"
    using psum.simps(2) [of 31 a b] by simp
  with \<open>bit a 0\<close> show ?case
    using and_power2_iff [of 0 a] by (subst multmodp_loop.simps) simp
next
  case (Suc i)
  have s: "31 - i = Suc (31 - Suc i)" using Suc.prems by simp
  have m: "a AND 2 ^ Suc i \<noteq> 0 \<longleftrightarrow> bit a (Suc i)" using Suc.prems by (intro and_power2_iff) simp
  have l: "a AND (2 ^ Suc i - 1) = 0 \<longleftrightarrow> (\<forall>j < Suc i. \<not> bit a j)"
    using Suc.prems by (intro and_mask_zero_iff) simp
  have d: "drop_bit 1 (2 ^ Suc i :: u32) = 2 ^ i" using Suc.prems by (intro drop_bit_power2) simp
  have p: "psum (31 - i) a b = psum (31 - Suc i) a b XOR
      (if bit a (Suc i) then (xtime ^^ (31 - Suc i)) b else 0)"
    using Suc.prems by (simp add: s)
  have x: "(xtime ^^ (31 - i)) b = xtime ((xtime ^^ (31 - Suc i)) b)" by (simp add: s)
  show ?case
  proof (cases "bit a (Suc i) \<and> (\<forall>j < Suc i. \<not> bit a j)")
    case True
    have "psum 32 a b = psum (31 - i) a b"
      by (rule mask_zero_psum) (use True Suc.prems in auto)
    with True show ?thesis
      by (subst multmodp_loop.simps) (simp add: m l p del: power_Suc)
  next
    case False
    then have "\<exists>j \<le> i. bit a j" using Suc.prems by (auto simp: le_Suc_eq less_Suc_eq_le)
    then have "multmodp_loop a (2 ^ i) ((xtime ^^ (31 - i)) b) (psum (31 - i) a b) = Some (psum 32 a b)"
      using Suc by simp
    with False show ?thesis
      by (subst multmodp_loop.simps) (auto simp: m l p x d [unfolded One_nat_def] simp del: power_Suc)
  qed
qed

lemma multmodp_pmul: "a \<noteq> 0 \<Longrightarrow> multmodp a b = Some (pmul a b)"
proof -
  assume "a \<noteq> 0"
  have "\<exists>j \<le> 31. bit a j"
  proof (rule ccontr)
    assume "\<not> ?thesis"
    then have "a = 0" by (intro bit_word_eqI) auto
    with \<open>a \<noteq> 0\<close> show False by simp
  qed
  then show ?thesis using multmodp_loop_psum [of 31 a b] by (simp add: multmodp_def pmul_def)
qed

lemma multmodp_xelt: "multmodp (xelt m) b = Some ((xtime ^^ m) b)"
  by (simp add: multmodp_pmul xelt_neq_0 pmul_xelt)

lemma multmodp_xelt_xelt: "multmodp (xelt m) (xelt n) = Some (xelt (m + n))"
  by (simp add: multmodp_pmul xelt_neq_0 pmul_xelt_xelt)

lemma x2nmodp_square_xelt: "x2nmodp_square k (xelt m) = Some (xelt (m * 2 ^ k))"
  by (induction k arbitrary: m) (simp_all add: multmodp_xelt_xelt algebra_simps flip: mult_2)

lemma x2nmodp_loop_xelt: "x2nmodp_loop n (xelt i) (xelt j) = Some (xelt (i + unat n * j))"
proof (induction "unat n" arbitrary: n i j rule: less_induct)
  case less
  show ?case
  proof (cases "n = 0")
    case True
    then show ?thesis by (simp add: x2nmodp_loop.simps)
  next
    case False
    have d: "unat (drop_bit 1 n) = unat n div 2"
      by (simp add: drop_bit_eq_div unat_div_distrib)
    have "unat n > 0" using False by (simp add: unat_gt_0)
    with d have lt: "unat (drop_bit 1 n) < unat n" by simp
    have o: "n AND 1 \<noteq> 0 \<longleftrightarrow> odd (unat n)"
      using bit_unsigned_iff [of n 0, where ?'a = nat]
      by (simp add: and_one_eq bit_0 flip: odd_iff_mod_2_eq_one)
    have e: "unat n = 2 * (unat n div 2) + (if odd (unat n) then 1 else 0)" by simp
    let ?i = "if odd (unat n) then j + i else i"
    have "x2nmodp_loop n (xelt i) (xelt j) = x2nmodp_loop (drop_bit 1 n) (xelt ?i) (xelt (j + j))"
      using False by (subst x2nmodp_loop.simps) (simp add: o multmodp_xelt_xelt)
    also have "\<dots> = Some (xelt (?i + unat (drop_bit 1 n) * (j + j)))"
      using less lt by blast
    also have "?i + unat (drop_bit 1 n) * (j + j) = i + unat n * j"
      unfolding d by (subst (3) e) (simp add: algebra_simps)
    finally show ?thesis .
  qed
qed

lemma x2nmodp_xelt: "x2nmodp n k = Some (xelt (2 ^ k * unat n))"
proof -
  have "(0x40000000 :: u32) = xelt 1" and "(0x80000000 :: u32) = xelt 0"
    by (simp_all add: xelt_def xtime_def)
  then show ?thesis
    using x2nmodp_square_xelt [of k 1] x2nmodp_loop_xelt [of n 0 "2 ^ k"]
    by (simp add: x2nmodp_def mult.commute)
qed

section \<open>The table-driven loop\<close>


text \<open>
  The table is linear in its index, so it is rebuilt by doubling from its eight basis entries.
\<close>

definition xbyte :: "u32 \<Rightarrow> u32" where
  "xbyte = xtime ^^ 8"

lemma lin_xbyte: "lin xbyte"
  by (simp add: xbyte_def lin_xpow)

primrec double_tab :: "nat \<Rightarrow> u32 list" where
  "double_tab 0 = [0]"
| "double_tab (Suc k) = double_tab k @ map (\<lambda>x. x XOR xbyte (2 ^ k)) (double_tab k)"

lemma length_double_tab: "length (double_tab k) = 2 ^ k"
  by (induction k) auto

lemma double_tab_nth:
  "k \<le> 32 \<Longrightarrow> i < 2 ^ k \<Longrightarrow> double_tab k ! i = xbyte (of_nat i)"
proof (induction k arbitrary: i)
  case 0
  then show ?case by (simp add: lin_0 [OF lin_xbyte])
next
  case (Suc k)
  show ?case
  proof (cases "i < 2 ^ k")
    case True
    then show ?thesis using Suc by (simp add: nth_append length_double_tab)
  next
    case False
    then obtain j where j: "i = j + 2 ^ k" "j < 2 ^ k"
      using Suc.prems by (metis add.commute le_add_diff_inverse less_diff_conv2 linorder_not_less mult_2 power_Suc)
    have b: "bit (of_nat j :: u32) n \<Longrightarrow> n < k" for n
      using j by (metis bit_of_nat_iff bit_take_bit_iff take_bit_nat_eq_self)
    have "(of_nat i :: u32) = of_nat j + 2 ^ k" using j by simp
    also have "\<dots> = of_nat j XOR 2 ^ k"
      using b by (intro disjunctive_add_eq_xor bit_word_eqI) (auto simp: bit_exp_iff bit_and_iff)
    finally have "xbyte (of_nat i) = xbyte (of_nat j) XOR xbyte (2 ^ k)"
      by (simp only: linD [OF lin_xbyte])
    with j Suc show ?thesis by (simp add: nth_append length_double_tab)
  qed
qed

lemma xbyte_basis:
  "xbyte 1 = 0x77073096" "xbyte 2 = 0xEE0E612C" "xbyte 4 = 0x076DC419" "xbyte 8 = 0x0EDB8832"
  "xbyte 16 = 0x1DB71064" "xbyte 32 = 0x3B6E20C8" "xbyte 64 = 0x76DC4190" "xbyte 128 = 0xEDB88320"
proof -
  have x: "xbyte a = xtime (xtime (xtime (xtime (xtime (xtime (xtime (xtime a)))))))" for a
    by (simp add: xbyte_def numeral_eq_Suc)
  show "xbyte 1 = 0x77073096" "xbyte 2 = 0xEE0E612C" "xbyte 4 = 0x076DC419"
    "xbyte 8 = 0x0EDB8832" "xbyte 16 = 0x1DB71064" "xbyte 32 = 0x3B6E20C8"
    "xbyte 64 = 0x76DC4190" "xbyte 128 = 0xEDB88320"
    by (simp_all add: x xtime_def)
qed

lemma crc32_tab_double: "crc32_tab = double_tab 8"
proof -
  have e: "(8 :: nat) = Suc (Suc (Suc (Suc (Suc (Suc (Suc (Suc 0)))))))" by simp
  show ?thesis
    unfolding e by (simp add: xbyte_basis crc32_tab_def)
qed

lemma crc32_tab_xbyte: "i < 256 \<Longrightarrow> crc32_tab ! i = xbyte (of_nat i)"
  using double_tab_nth [of 8 i] by (simp add: crc32_tab_double)

lemma xpow_drop_bit: "n \<le> 32 \<Longrightarrow> take_bit n a = 0 \<Longrightarrow> (xtime ^^ n) a = drop_bit n a"
proof (induction n arbitrary: a)
  case (Suc n)
  have "bit a 0 = bit (take_bit (Suc n) a) 0" by (simp add: bit_take_bit_iff)
  with Suc.prems have x: "xtime a = drop_bit 1 a" by (simp add: xtime_alt)
  have "take_bit n (drop_bit 1 a) = drop_bit 1 (take_bit (Suc n) a)"
    by (simp add: drop_bit_take_bit)
  with Suc.prems have "take_bit n (drop_bit 1 a) = 0" by simp
  with Suc x show ?case by (simp add: funpow_swap1 [symmetric] funpow_Suc_right del: funpow.simps)
qed simp

text \<open>One step of the loop: fold the byte in, then eight steps of \<open>xtime\<close>.\<close>

lemma crc32_step:
  "crc32_tab ! unat ((crc XOR ucast p) AND 0xFF) XOR drop_bit 8 crc = xbyte (crc XOR ucast (p :: u8))"
proof -
  let ?c = "crc XOR ucast p"
  let ?hi = "?c XOR take_bit 8 ?c"
  have m: "?c AND 0xFF = take_bit 8 ?c" by (simp add: take_bit_eq_mask mask_eq_exp_minus_1)
  have "unat (take_bit 8 ?c) < 2 ^ 8"
    unfolding unsigned_take_bit_eq by (rule take_bit_nat_less_exp)
  then have l: "crc32_tab ! unat (?c AND 0xFF) = xbyte (take_bit 8 ?c)"
    using crc32_tab_xbyte [of "unat (take_bit 8 ?c)"] m by simp
  have "take_bit 8 ?hi = 0" by (rule bit_word_eqI) (auto simp: bit_take_bit_iff bit_xor_iff)
  then have "xbyte ?hi = drop_bit 8 ?hi" by (simp add: xbyte_def xpow_drop_bit)
  also have "\<dots> = drop_bit 8 crc"
    by (rule bit_word_eqI) (auto simp: bit_drop_bit_eq bit_take_bit_iff bit_xor_iff bit_ucast_iff dest: bit_imp_le_length)
  finally have h: "xbyte ?hi = drop_bit 8 crc" .
  have "?c = take_bit 8 ?c XOR ?hi" by (simp add: xor.left_commute)
  then have "xbyte ?c = xbyte (take_bit 8 ?c) XOR xbyte ?hi" by (metis linD lin_xbyte)
  then show ?thesis by (simp only: l h)
qed

lemma crc32_loop_append: "crc32_loop c (xs @ ys) = crc32_loop (crc32_loop c xs) ys"
  by (induction xs arbitrary: c) auto

lemma crc32_loop_xor: "crc32_loop (c XOR d) ps = crc32_loop c ps XOR (xtime ^^ (8 * length ps)) d"
proof (induction ps arbitrary: c d)
  case (Cons p ps)
  have "crc32_loop (c XOR d) (p # ps) = crc32_loop (xbyte (c XOR ucast p) XOR xbyte d) ps"
    unfolding crc32_loop.simps crc32_step by (simp add: ac_simps flip: linD [OF lin_xbyte])
  also have "\<dots> = crc32_loop (xbyte (c XOR ucast p)) ps XOR (xtime ^^ (8 * length ps)) (xbyte d)"
    by (rule Cons.IH)
  also have "(xtime ^^ (8 * length ps)) (xbyte d) = (xtime ^^ (8 * length (p # ps))) d"
    by (simp add: xbyte_def add.commute flip: funpow_add comp_apply [of "xtime ^^ _"])
  finally show ?case by (simp add: crc32_step)
qed simp

lemma crc32_append: "crc32 (xs @ ys) = (xtime ^^ (8 * length ys)) (crc32 xs) XOR crc32 ys"
proof -
  have "crc32_loop 0xFFFFFFFF xs = 0xFFFFFFFF XOR crc32 xs"
    by (simp add: crc32_def xor.commute [of "0xFFFFFFFF"] xor.assoc)
  then have "crc32 (xs @ ys) = crc32_loop (0xFFFFFFFF XOR crc32 xs) ys XOR 0xFFFFFFFF"
    by (simp add: crc32_def crc32_loop_append)
  also have "\<dots> = crc32_loop 0xFFFFFFFF ys XOR (xtime ^^ (8 * length ys)) (crc32 xs) XOR 0xFFFFFFFF"
    by (simp only: crc32_loop_xor xor.assoc)
  finally show ?thesis unfolding crc32_def [of ys] by (simp only: ac_simps)
qed

section \<open>Combining\<close>

lemma crc32_combine_xpow:
  "crc32_combine c1 c2 n =
     Some (if n = 0 then c1 else (xtime ^^ (8 * unat n)) c1 XOR c2)"
proof -
  have "unat n < 2 ^ LENGTH(32)" by (rule unsigned_less)
  then have "unat (ucast n :: u64) = unat n"
    by (simp add: unsigned_ucast_eq take_bit_nat_eq_self)
  then show ?thesis by (simp add: crc32_combine_def x2nmodp_xelt multmodp_xelt)
qed

lemma of_nat_length_u32:
  "length ys < 2 ^ 32 \<Longrightarrow> unat (of_nat (length ys) :: u32) = length ys"
  by (simp add: unat_of_nat)

lemma crc32_combine_crc32:
  assumes "length ys < 2 ^ 32"
  shows "crc32_combine (crc32 xs) (crc32 ys) (of_nat (length ys)) = Some (crc32 (xs @ ys))"
proof -
  have n: "unat (of_nat (length ys) :: u32) = length ys" by (rule of_nat_length_u32 [OF assms])
  then have "(of_nat (length ys) :: u32) = 0 \<longleftrightarrow> ys = []" by (metis length_0_conv unat_eq_zero)
  with n show ?thesis
    by (auto simp: crc32_combine_xpow crc32_append) (simp_all add: crc32_def)
qed

text \<open>
  C1: for any two buffers, \<^verbatim>\<open>crc32_combine\<close> of their checksums and the length of the second
  returns, and returns the checksum of the concatenation. The loops of \<^verbatim>\<open>multmodp\<close> and
  \<^verbatim>\<open>x2nmodp\<close> therefore end on every value \<^verbatim>\<open>crc32_combine\<close> reaches.
\<close>

theorem crc32_combine_correct:
  assumes "length ys < 2 ^ 32"
  shows "crc32_combine (crc32 xs) (crc32 ys) (of_nat (length ys)) = Some (crc32 (xs @ ys))"
  using assms by (rule crc32_combine_crc32)

theorem crc32_combine_correct_witness:
  "length [0x33 :: u8, 0x34] < 2 ^ 32 \<and>
   crc32_combine (crc32 [0x31, 0x32]) (crc32 [0x33, 0x34]) 2 = Some (crc32 [0x31, 0x32, 0x33, 0x34])"
  using crc32_combine_correct [of "[0x33, 0x34]" "[0x31, 0x32]"] by simp

end
