(* ===== verification/Digest_Stream.thy ===== *)
theory Digest_Stream
  imports Prelude
begin

text \<open>
  The interface of a streaming digest: a context that absorbs pieces of a message and a final
  step that returns the digest of their concatenation. SHA-512 provides it, HMAC-SHA-512 relies
  on it and provides it again for each key, PBKDF2 and HMAC_DRBG rely on the latter.
\<close>

primrec feed :: "('c \<Rightarrow> u8 list \<Rightarrow> 'c option) \<Rightarrow> 'c \<Rightarrow> u8 list list \<Rightarrow> 'c option" where
  "feed upd c [] = Some c"
| "feed upd c (p # ps) = upd c p \<bind> (\<lambda>c'. feed upd c' ps)"

lemma feed_append: "feed upd c (ps @ qs) = feed upd c ps \<bind> (\<lambda>c'. feed upd c' qs)"
  by (induction ps arbitrary: c) auto

locale digest_stream =
  fixes upd :: "'c \<Rightarrow> u8 list \<Rightarrow> 'c option"
    and fin :: "'c \<Rightarrow> u8 list option"
    and absorbs :: "'c \<Rightarrow> u8 list \<Rightarrow> bool"
    and digest :: "u8 list \<Rightarrow> u8 list"
    and bound :: nat
  assumes upd_absorbs: "absorbs c m \<Longrightarrow> \<exists>c'. upd c p = Some c' \<and> absorbs c' (m @ p)"
    and fin_digest: "absorbs c m \<Longrightarrow> length m < bound \<Longrightarrow> fin c = Some (digest m)"
begin

lemma updE:
  assumes "absorbs c m"
  obtains c' where "upd c p = Some c'" and "absorbs c' (m @ p)"
  using upd_absorbs [OF assms] by blast

lemma feed_absorbs:
  "absorbs c m \<Longrightarrow> \<exists>c'. feed upd c ps = Some c' \<and> absorbs c' (m @ concat ps)"
proof (induction ps arbitrary: c m)
  case (Cons p ps)
  obtain c1 where "upd c p = Some c1" and "absorbs c1 (m @ p)"
    using Cons.prems by (rule updE)
  then show ?case using Cons.IH [of c1 "m @ p"] by simp
qed simp

lemma feed_fin:
  assumes "absorbs c m" and "length (m @ concat ps) < bound"
  shows "feed upd c ps \<bind> fin = Some (digest (m @ concat ps))"
proof -
  obtain c' where "feed upd c ps = Some c'" and "absorbs c' (m @ concat ps)"
    using feed_absorbs [OF assms(1)] by blast
  with assms(2) show ?thesis by (simp add: fin_digest)
qed

lemma upd_fin:
  assumes "absorbs c m" and "length (m @ p) < bound"
  shows "upd c p \<bind> fin = Some (digest (m @ p))"
  using feed_fin [of c m "[p]"] assms by simp

end

end
