(* ===== verification/Sha512.thy ===== *)
theory Sha512
  imports Digest_Stream
begin

unbundle bit_operations_syntax

text \<open>
  \<^verbatim>\<open>ImBox/dc/crypto_lib/sha512.c\<close>: the streaming SHA-512 context. A context is filled by
  \<^verbatim>\<open>sha512_init\<close>, any number of \<^verbatim>\<open>sha512_hash\<close> and one \<^verbatim>\<open>sha512_done\<close>. The copies into the
  128-byte block buffer are checked, so \<open>None\<close> is a write outside it. The specification
  is the digest of one message as FIPS 180-4 pads and folds it, with the round function on
  eight working variables.
\<close>

section \<open>The code\<close>

record sha512_ctx =
  s_hash :: "u64 list"
  s_length :: u64
  s_curlen :: u32
  s_buf :: "u8 list"

definition K512 :: "u64 list" where
  "K512 = [
    0x428A2F98D728AE22, 0x7137449123EF65CD, 0xB5C0FBCFEC4D3B2F, 0xE9B5DBA58189DBBC,
    0x3956C25BF348B538, 0x59F111F1B605D019, 0x923F82A4AF194F9B, 0xAB1C5ED5DA6D8118,
    0xD807AA98A3030242, 0x12835B0145706FBE, 0x243185BE4EE4B28C, 0x550C7DC3D5FFB4E2,
    0x72BE5D74F27B896F, 0x80DEB1FE3B1696B1, 0x9BDC06A725C71235, 0xC19BF174CF692694,
    0xE49B69C19EF14AD2, 0xEFBE4786384F25E3, 0x0FC19DC68B8CD5B5, 0x240CA1CC77AC9C65,
    0x2DE92C6F592B0275, 0x4A7484AA6EA6E483, 0x5CB0A9DCBD41FBD4, 0x76F988DA831153B5,
    0x983E5152EE66DFAB, 0xA831C66D2DB43210, 0xB00327C898FB213F, 0xBF597FC7BEEF0EE4,
    0xC6E00BF33DA88FC2, 0xD5A79147930AA725, 0x06CA6351E003826F, 0x142929670A0E6E70,
    0x27B70A8546D22FFC, 0x2E1B21385C26C926, 0x4D2C6DFC5AC42AED, 0x53380D139D95B3DF,
    0x650A73548BAF63DE, 0x766A0ABB3C77B2A8, 0x81C2C92E47EDAEE6, 0x92722C851482353B,
    0xA2BFE8A14CF10364, 0xA81A664BBC423001, 0xC24B8B70D0F89791, 0xC76C51A30654BE30,
    0xD192E819D6EF5218, 0xD69906245565A910, 0xF40E35855771202A, 0x106AA07032BBD1B8,
    0x19A4C116B8D2D0C8, 0x1E376C085141AB53, 0x2748774CDF8EEB99, 0x34B0BCB5E19B48A8,
    0x391C0CB3C5C95A63, 0x4ED8AA4AE3418ACB, 0x5B9CCA4F7763E373, 0x682E6FF3D6B2B8A3,
    0x748F82EE5DEFB2FC, 0x78A5636F43172F60, 0x84C87814A1F0AB72, 0x8CC702081A6439EC,
    0x90BEFFFA23631E28, 0xA4506CEBDE82BDE9, 0xBEF9A3F7B2C67915, 0xC67178F2E372532B,
    0xCA273ECEEA26619C, 0xD186B8C721C0C207, 0xEADA7DD6CDE0EB1E, 0xF57D4F7FEE6ED178,
    0x06F067AA72176FBA, 0x0A637DC5A2C898A6, 0x113F9804BEF90DAE, 0x1B710B35131C471B,
    0x28DB77F523047D84, 0x32CAAB7B40C72493, 0x3C9EBE0A15C9BEBC, 0x431D67C49C100D4C,
    0x4CC5D4BECB3E42B6, 0x597F299CFC657E2A, 0x5FCB6FAB3AD6FAEC, 0x6C44198C4A475817]"

definition Ch :: "u64 \<Rightarrow> u64 \<Rightarrow> u64 \<Rightarrow> u64" where
  "Ch x y z = z XOR (x AND (y XOR z))"

definition Maj :: "u64 \<Rightarrow> u64 \<Rightarrow> u64 \<Rightarrow> u64" where
  "Maj x y z = ((x OR y) AND z) OR (x AND y)"

definition Sigma0 :: "u64 \<Rightarrow> u64" where
  "Sigma0 x = word_rotr 28 x XOR word_rotr 34 x XOR word_rotr 39 x"

definition Sigma1 :: "u64 \<Rightarrow> u64" where
  "Sigma1 x = word_rotr 14 x XOR word_rotr 18 x XOR word_rotr 41 x"

definition Gamma0 :: "u64 \<Rightarrow> u64" where
  "Gamma0 x = word_rotr 1 x XOR word_rotr 8 x XOR drop_bit 7 x"

definition Gamma1 :: "u64 \<Rightarrow> u64" where
  "Gamma1 x = word_rotr 19 x XOR word_rotr 61 x XOR drop_bit 6 x"

text \<open>The 64-bit loads of the code are little-endian; it swaps each one.\<close>

definition byteswap64 :: "u64 \<Rightarrow> u64" where
  "byteswap64 w = of_nat (le_val (rev (le_bytes 8 (unat w))))"

definition load64 :: "u8 list \<Rightarrow> nat \<Rightarrow> u64" where
  "load64 b i = of_nat (le_val (take 8 (drop (8 * i) b)))"

definition W_first :: "u8 list \<Rightarrow> u64 list" where
  "W_first b = map (\<lambda>i. byteswap64 (load64 b i)) [0..<16]"

definition W_next :: "u64 list \<Rightarrow> nat \<Rightarrow> u64 list" where
  "W_next W i =
     W @ [Gamma1 (W ! (i - 2)) + W ! (i - 7) + Gamma0 (W ! (i - 15)) + W ! (i - 16)]"

definition W_schedule :: "u8 list \<Rightarrow> u64 list" where
  "W_schedule b = foldl W_next (W_first b) [16..<80]"

text \<open>The macro \<^verbatim>\<open>RND\<close>: its eight arguments are elements of the array \<open>S\<close>, given by index.\<close>

definition RND :: "u64 list \<Rightarrow> u64 list \<Rightarrow> nat \<Rightarrow> nat \<Rightarrow> nat \<Rightarrow> nat \<Rightarrow> nat \<Rightarrow> nat \<Rightarrow> nat \<Rightarrow> nat \<Rightarrow> nat \<Rightarrow> u64 list" where
  "RND W S a b c d e f g h i =
     (let t0 = S ! h + Sigma1 (S ! e) + Ch (S ! e) (S ! f) (S ! g) + K512 ! i + W ! i;
          t1 = Sigma0 (S ! a) + Maj (S ! a) (S ! b) (S ! c)
      in S[d := S ! d + t0, h := t0 + t1])"

definition RND8 :: "u64 list \<Rightarrow> u64 list \<Rightarrow> nat \<Rightarrow> u64 list" where
  "RND8 W S0 i =
     (let S1 = RND W S0 0 1 2 3 4 5 6 7 (i + 0);
          S2 = RND W S1 7 0 1 2 3 4 5 6 (i + 1);
          S3 = RND W S2 6 7 0 1 2 3 4 5 (i + 2);
          S4 = RND W S3 5 6 7 0 1 2 3 4 (i + 3);
          S5 = RND W S4 4 5 6 7 0 1 2 3 (i + 4);
          S6 = RND W S5 3 4 5 6 7 0 1 2 (i + 5);
          S7 = RND W S6 2 3 4 5 6 7 0 1 (i + 6)
      in RND W S7 1 2 3 4 5 6 7 0 (i + 7))"

definition sha512_compress :: "u64 list \<Rightarrow> u8 list \<Rightarrow> u64 list" where
  "sha512_compress hash b =
     map2 (+) hash (foldl (RND8 (W_schedule b)) hash [0, 8, 16, 24, 32, 40, 48, 56, 64, 72])"

definition sha512_init :: "sha512_ctx \<Rightarrow> sha512_ctx" where
  "sha512_init ctx = ctx\<lparr>s_curlen := 0, s_length := 0,
     s_hash := [0x6a09e667f3bcc908, 0xbb67ae8584caa73b, 0x3c6ef372fe94f82b, 0xa54ff53a5f1d36f1,
                0x510e527fade682d1, 0x9b05688c2b3e6c1f, 0x1f83d9abfb41bd6b, 0x5be0cd19137e2179]\<rparr>"

function sha512_hash :: "sha512_ctx \<Rightarrow> u8 list \<Rightarrow> sha512_ctx option" where
  "sha512_hash ctx inp =
     (if inp = [] then Some ctx
      else if s_curlen ctx = 0 \<and> 128 \<le> length inp then
        sha512_hash (ctx\<lparr>s_hash := sha512_compress (s_hash ctx) (take 128 inp),
                         s_length := s_length ctx + 1024\<rparr>) (drop 128 inp)
      else
        (let n = min (unat (128 - s_curlen ctx)) (length inp) in
         case wr (s_buf ctx) (unat (s_curlen ctx)) (take n inp) of
           None \<Rightarrow> None
         | Some b \<Rightarrow>
             (let ctx1 = ctx\<lparr>s_buf := b, s_curlen := s_curlen ctx + of_nat n\<rparr> in
              if s_curlen ctx1 = 128
              then sha512_hash (ctx1\<lparr>s_hash := sha512_compress (s_hash ctx1) b,
                                     s_length := s_length ctx1 + 1024, s_curlen := 0\<rparr>) (drop n inp)
              else sha512_hash ctx1 (drop n inp))))"
  by pat_completeness auto
termination
proof (relation "measures [\<lambda>(ctx, inp). length inp, \<lambda>(ctx, inp). unat (s_curlen ctx)]", goal_cases)
  case (3 ctx inp n b ctx1)
  show ?case
  proof (cases "n = 0")
    case True
    with 3 have "s_curlen ctx = 128" by simp
    with 3 True show ?thesis by simp
  qed (use 3 in simp)
next
  case (4 ctx inp n b ctx1)
  then have "128 - s_curlen ctx \<noteq> 0" by auto
  then have "0 < n" using 4 by (simp add: unat_gt_0)
  with 4 show ?case by simp
qed simp_all

declare sha512_hash.simps [simp del]

definition zero_fill :: "u8 list \<Rightarrow> nat \<Rightarrow> nat \<Rightarrow> u8 list" where
  "zero_fill b from until = foldl (\<lambda>b i. b[i := 0]) b [from..<until]"

definition sha512_done :: "sha512_ctx \<Rightarrow> u8 list option" where
  "sha512_done ctx =
     (let len = s_length ctx + ucast (s_curlen ctx * 8); cur = unat (s_curlen ctx) in do {
        b \<leftarrow> wr (s_buf ctx) cur [0x80];
        let (h, b, cur) =
          (if 112 < cur + 1
           then (let b' = zero_fill b (cur + 1) 128 in (sha512_compress (s_hash ctx) b', b', 0))
           else (s_hash ctx, b, cur + 1));
        let b = zero_fill b cur 120;
        b \<leftarrow> wr b 120 (le_bytes 8 (unat (byteswap64 len)));
        Some (concat (map (\<lambda>x. le_bytes 8 (unat (byteswap64 x))) (sha512_compress h b))) })"

section \<open>The compression function against FIPS 180-4\<close>

text \<open>
  The reference round rotates the eight working variables instead of renaming them, and the
  reference schedule reads the message block big-endian.
\<close>

fun fips_round :: "u64 \<Rightarrow> u64 \<Rightarrow> u64 list \<Rightarrow> u64 list" where
  "fips_round k w [a, b, c, d, e, f, g, h] =
     (let t1 = h + Sigma1 e + Ch e f g + k + w; t2 = Sigma0 a + Maj a b c
      in [t1 + t2, a, b, c, d + t1, e, f, g])"
| "fips_round k w S = S"

definition fips_compress :: "u64 list \<Rightarrow> u8 list \<Rightarrow> u64 list" where
  "fips_compress H b =
     map2 (+) H (foldl (\<lambda>S t. fips_round (K512 ! t) (W_schedule b ! t) S) H [0..<80])"

lemma length_8_cases:
  "length S = 8 \<Longrightarrow> \<exists>a b c d e f g h. S = [a, b, c, d, e, f, g, h]"
  by (auto simp: eval_nat_numeral length_Suc_conv)

lemma length_RND [simp]: "length (RND W S a b c d e f g h i) = length S"
  by (simp add: RND_def Let_def)

text \<open>
  One use of the macro is one reference round: it writes the array elements that hold the old
  \<open>d\<close> and \<open>h\<close>, which the next use reads as \<open>e\<close> and \<open>a\<close>.
\<close>

lemma RND_round0:
  "\<exists>x y. RND W [a, b, c, d, e, f, g, h] 0 1 2 3 4 5 6 7 i = [a, b, c, x, e, f, g, y] \<and>
     fips_round (K512 ! i) (W ! i) [a, b, c, d, e, f, g, h] = [y, a, b, c, x, e, f, g]"
  by (simp add: RND_def Let_def eval_nat_numeral)

lemma RND_round1:
  "\<exists>x y. RND W [a, b, c, d, e, f, g, h] 7 0 1 2 3 4 5 6 i = [a, b, x, d, e, f, y, h] \<and>
     fips_round (K512 ! i) (W ! i) [h, a, b, c, d, e, f, g] = [y, h, a, b, x, d, e, f]"
  by (simp add: RND_def Let_def eval_nat_numeral)

lemma RND_round2:
  "\<exists>x y. RND W [a, b, c, d, e, f, g, h] 6 7 0 1 2 3 4 5 i = [a, x, c, d, e, y, g, h] \<and>
     fips_round (K512 ! i) (W ! i) [g, h, a, b, c, d, e, f] = [y, g, h, a, x, c, d, e]"
  by (simp add: RND_def Let_def eval_nat_numeral)

lemma RND_round3:
  "\<exists>x y. RND W [a, b, c, d, e, f, g, h] 5 6 7 0 1 2 3 4 i = [x, b, c, d, y, f, g, h] \<and>
     fips_round (K512 ! i) (W ! i) [f, g, h, a, b, c, d, e] = [y, f, g, h, x, b, c, d]"
  by (simp add: RND_def Let_def eval_nat_numeral)

lemma RND_round4:
  "\<exists>x y. RND W [a, b, c, d, e, f, g, h] 4 5 6 7 0 1 2 3 i = [a, b, c, y, e, f, g, x] \<and>
     fips_round (K512 ! i) (W ! i) [e, f, g, h, a, b, c, d] = [y, e, f, g, x, a, b, c]"
  by (simp add: RND_def Let_def eval_nat_numeral)

lemma RND_round5:
  "\<exists>x y. RND W [a, b, c, d, e, f, g, h] 3 4 5 6 7 0 1 2 i = [a, b, y, d, e, f, x, h] \<and>
     fips_round (K512 ! i) (W ! i) [d, e, f, g, h, a, b, c] = [y, d, e, f, x, h, a, b]"
  by (simp add: RND_def Let_def eval_nat_numeral)

lemma RND_round6:
  "\<exists>x y. RND W [a, b, c, d, e, f, g, h] 2 3 4 5 6 7 0 1 i = [a, y, c, d, e, x, g, h] \<and>
     fips_round (K512 ! i) (W ! i) [c, d, e, f, g, h, a, b] = [y, c, d, e, x, g, h, a]"
  by (simp add: RND_def Let_def eval_nat_numeral)

lemma RND_round7:
  "\<exists>x y. RND W [a, b, c, d, e, f, g, h] 1 2 3 4 5 6 7 0 i = [y, b, c, d, x, f, g, h] \<and>
     fips_round (K512 ! i) (W ! i) [b, c, d, e, f, g, h, a] = [y, b, c, d, x, f, g, h]"
  by (simp add: RND_def Let_def eval_nat_numeral)

lemma RND8_rounds:
  assumes "length S = 8"
  shows "RND8 W S i = foldl (\<lambda>S t. fips_round (K512 ! t) (W ! t) S) S [i..<i + 8]
    \<and> length (RND8 W S i) = 8"
proof -
  from assms obtain a b c d e f g h where S: "S = [a, b, c, d, e, f, g, h]"
    by (blast dest: length_8_cases)
  have u: "[i..<i + 8] = [i + 0, i + 1, i + 2, i + 3, i + 4, i + 5, i + 6, i + 7]"
    by (simp add: upt_rec eval_nat_numeral)
  obtain x0 y0 where
    r0: "RND W [a, b, c, d, e, f, g, h] 0 1 2 3 4 5 6 7 (i + 0) = [a, b, c, x0, e, f, g, y0]" and
    s0: "fips_round (K512 ! (i + 0)) (W ! (i + 0)) [a, b, c, d, e, f, g, h] = [y0, a, b, c, x0, e, f, g]"
    using RND_round0 by blast
  obtain x1 y1 where
    r1: "RND W [a, b, c, x0, e, f, g, y0] 7 0 1 2 3 4 5 6 (i + 1) = [a, b, x1, x0, e, f, y1, y0]" and
    s1: "fips_round (K512 ! (i + 1)) (W ! (i + 1)) [y0, a, b, c, x0, e, f, g] = [y1, y0, a, b, x1, x0, e, f]"
    using RND_round1 by blast
  obtain x2 y2 where
    r2: "RND W [a, b, x1, x0, e, f, y1, y0] 6 7 0 1 2 3 4 5 (i + 2) = [a, x2, x1, x0, e, y2, y1, y0]" and
    s2: "fips_round (K512 ! (i + 2)) (W ! (i + 2)) [y1, y0, a, b, x1, x0, e, f] = [y2, y1, y0, a, x2, x1, x0, e]"
    using RND_round2 by blast
  obtain x3 y3 where
    r3: "RND W [a, x2, x1, x0, e, y2, y1, y0] 5 6 7 0 1 2 3 4 (i + 3) = [x3, x2, x1, x0, y3, y2, y1, y0]" and
    s3: "fips_round (K512 ! (i + 3)) (W ! (i + 3)) [y2, y1, y0, a, x2, x1, x0, e] = [y3, y2, y1, y0, x3, x2, x1, x0]"
    using RND_round3 by blast
  obtain x4 y4 where
    r4: "RND W [x3, x2, x1, x0, y3, y2, y1, y0] 4 5 6 7 0 1 2 3 (i + 4) = [x3, x2, x1, y4, y3, y2, y1, x4]" and
    s4: "fips_round (K512 ! (i + 4)) (W ! (i + 4)) [y3, y2, y1, y0, x3, x2, x1, x0] = [y4, y3, y2, y1, x4, x3, x2, x1]"
    using RND_round4 by blast
  obtain x5 y5 where
    r5: "RND W [x3, x2, x1, y4, y3, y2, y1, x4] 3 4 5 6 7 0 1 2 (i + 5) = [x3, x2, y5, y4, y3, y2, x5, x4]" and
    s5: "fips_round (K512 ! (i + 5)) (W ! (i + 5)) [y4, y3, y2, y1, x4, x3, x2, x1] = [y5, y4, y3, y2, x5, x4, x3, x2]"
    using RND_round5 by blast
  obtain x6 y6 where
    r6: "RND W [x3, x2, y5, y4, y3, y2, x5, x4] 2 3 4 5 6 7 0 1 (i + 6) = [x3, y6, y5, y4, y3, x6, x5, x4]" and
    s6: "fips_round (K512 ! (i + 6)) (W ! (i + 6)) [y5, y4, y3, y2, x5, x4, x3, x2] = [y6, y5, y4, y3, x6, x5, x4, x3]"
    using RND_round6 by blast
  obtain x7 y7 where
    r7: "RND W [x3, y6, y5, y4, y3, x6, x5, x4] 1 2 3 4 5 6 7 0 (i + 7) = [y7, y6, y5, y4, x7, x6, x5, x4]" and
    s7: "fips_round (K512 ! (i + 7)) (W ! (i + 7)) [y6, y5, y4, y3, x6, x5, x4, x3] = [y7, y6, y5, y4, x7, x6, x5, x4]"
    using RND_round7 by blast
  show ?thesis
    unfolding S u RND8_def Let_def foldl.simps r0 r1 r2 r3 r4 r5 r6 r7 s0 s1 s2 s3 s4 s5 s6 s7
    by simp
qed

lemma foldl_RND8:
  "length S = 8 \<Longrightarrow>
     foldl (RND8 W) S (map ((*) 8) [0..<n]) =
       foldl (\<lambda>S t. fips_round (K512 ! t) (W ! t) S) S [0..<8 * n] \<and>
     length (foldl (RND8 W) S (map ((*) 8) [0..<n])) = 8"
proof (induction n)
  case (Suc n)
  let ?f = "\<lambda>S t. fips_round (K512 ! t) (W ! t) S"
  let ?G = "foldl ?f S [0..<8 * n]"
  from Suc have e: "foldl (RND8 W) S (map ((*) 8) [0..<n]) = ?G" and l: "length ?G = 8"
    by auto
  note R = RND8_rounds [OF l, of W "8 * n"]
  have u: "[0..<8 * Suc n] = [0..<8 * n] @ [8 * n..<8 * n + 8]"
    using upt_add_eq_append [of 0 "8 * n" 8] by (simp add: add.commute)
  have "foldl (RND8 W) S (map ((*) 8) [0..<Suc n]) = RND8 W ?G (8 * n)" by (simp add: e)
  moreover have "foldl ?f S [0..<8 * Suc n] = RND8 W ?G (8 * n)"
    unfolding u foldl_append using R by (rule conjunct1 [THEN sym])
  ultimately show ?case using R by metis
qed simp

lemma sha512_compress_fips: "length H = 8 \<Longrightarrow> sha512_compress H b = fips_compress H b"
proof -
  assume "length H = 8"
  moreover have "[0, 8, 16, 24, 32, 40, 48, 56, 64, 72] = map ((*) 8) [0..<10]"
    by (simp add: upt_rec)
  ultimately show ?thesis
    using foldl_RND8 [of H "W_schedule b" 10] by (simp add: sha512_compress_def fips_compress_def)
qed

lemma length_sha512_compress: "length H = 8 \<Longrightarrow> length (sha512_compress H b) = 8"
proof -
  assume H: "length H = 8"
  have "[0, 8, 16, 24, 32, 40, 48, 56, 64, 72] = map ((*) 8) [0..<10]"
    by (simp add: upt_rec)
  then show ?thesis
    using conjunct2 [OF foldl_RND8 [OF H, of "W_schedule b" 10]] H by (simp add: sha512_compress_def)
qed

text \<open>The schedule is the one of the standard.\<close>

definition be_val :: "u8 list \<Rightarrow> nat" where
  "be_val bs = le_val (rev bs)"

definition be_bytes :: "nat \<Rightarrow> nat \<Rightarrow> u8 list" where
  "be_bytes n v = rev (le_bytes n v)"

lemma length_be_bytes [simp, len_simps]: "length (be_bytes n v) = n"
  by (simp add: be_bytes_def)

lemma unat_of_nat_le_val: "length bs \<le> 8 \<Longrightarrow> unat (of_nat (le_val bs) :: u64) = le_val bs"
proof -
  assume "length bs \<le> 8"
  then have "(256 :: nat) ^ length bs \<le> 256 ^ 8" by (rule power_increasing) simp
  then have "le_val bs < 2 ^ 64" using le_val_bound [of bs] by simp
  then show ?thesis by (simp add: unat_of_nat)
qed

lemma byteswap64_load: "length bs = 8 \<Longrightarrow> byteswap64 (of_nat (le_val bs)) = of_nat (be_val bs)"
  by (simp add: byteswap64_def unat_of_nat_le_val le_bytes_le_val be_val_def)

lemma le_bytes_byteswap64: "le_bytes 8 (unat (byteswap64 w)) = be_bytes 8 (unat w)"
proof -
  have "unat w < 256 ^ 8" using unsigned_less [of w] by simp
  show ?thesis
    by (simp add: byteswap64_def unat_of_nat_le_val le_bytes_le_val be_bytes_def)
qed

lemma W_first_nth:
  "length b = 128 \<Longrightarrow> i < 16 \<Longrightarrow> W_first b ! i = of_nat (be_val (take 8 (drop (8 * i) b)))"
  by (simp add: W_first_def load64_def byteswap64_load)

lemma W_next_foldl:
  "n \<le> m \<Longrightarrow> length W = n \<Longrightarrow>
     length (foldl W_next W [n..<m]) = m \<and> take n (foldl W_next W [n..<m]) = W"
  by (induction m) (auto simp: le_Suc_eq W_next_def)

lemma W_schedule_fips:
  assumes "length b = 128"
  shows "length (W_schedule b) = 80"
    and "i < 16 \<Longrightarrow> W_schedule b ! i = of_nat (be_val (take 8 (drop (8 * i) b)))"
    and "16 \<le> i \<Longrightarrow> i < 80 \<Longrightarrow> W_schedule b ! i =
      Gamma1 (W_schedule b ! (i - 2)) + W_schedule b ! (i - 7) +
      Gamma0 (W_schedule b ! (i - 15)) + W_schedule b ! (i - 16)"
proof -
  let ?F = "\<lambda>m. foldl W_next (W_first b) [16..<m]"
  have l: "length (W_first b) = 16" by (simp add: W_first_def)
  note f = W_next_foldl [of 16 _ "W_first b", OF _ l]
  show "length (W_schedule b) = 80" using f [of 80] by (simp add: W_schedule_def)
  show "i < 16 \<Longrightarrow> W_schedule b ! i = of_nat (be_val (take 8 (drop (8 * i) b)))"
    using f [of 80] W_first_nth [OF assms, of i] by (simp add: W_schedule_def) (metis nth_take)
  assume i: "16 \<le> i" "i < 80"
  have pre: "m \<le> 80 \<Longrightarrow> 16 \<le> m \<Longrightarrow> k < m \<Longrightarrow> ?F 80 ! k = ?F m ! k" for m k
  proof -
    assume m: "m \<le> 80" "16 \<le> m" "k < m"
    then have "[16..<80] = [16..<m] @ [m..<80]"
      by (metis le_add_diff_inverse upt_add_eq_append)
    then have "?F 80 = foldl W_next (?F m) [m..<80]" by simp
    moreover have "take m (foldl W_next (?F m) [m..<80]) = ?F m"
      using W_next_foldl [of m 80 "?F m"] f [of m] m by simp
    ultimately show ?thesis using m by (metis nth_take)
  qed
  have "?F (Suc i) = W_next (?F i) i" using i by simp
  then have "?F (Suc i) ! i = Gamma1 (?F i ! (i - 2)) + ?F i ! (i - 7) + Gamma0 (?F i ! (i - 15)) + ?F i ! (i - 16)"
    using f [of i] i by (simp add: W_next_def nth_append)
  then show "W_schedule b ! i =
      Gamma1 (W_schedule b ! (i - 2)) + W_schedule b ! (i - 7) +
      Gamma0 (W_schedule b ! (i - 15)) + W_schedule b ! (i - 16)"
    using i pre [of "Suc i" i] pre [of i "i - 2"] pre [of i "i - 7"] pre [of i "i - 15"] pre [of i "i - 16"]
    by (simp add: W_schedule_def)
qed

section \<open>The digest of one message\<close>

definition sha512_IV :: "u64 list" where
  "sha512_IV =
     [0x6a09e667f3bcc908, 0xbb67ae8584caa73b, 0x3c6ef372fe94f82b, 0xa54ff53a5f1d36f1,
      0x510e527fade682d1, 0x9b05688c2b3e6c1f, 0x1f83d9abfb41bd6b, 0x5be0cd19137e2179]"

text \<open>Padding: a one bit, zeros, and the bit length in 128 bits.\<close>

definition sha512_pad :: "u8 list \<Rightarrow> u8 list" where
  "sha512_pad m = m @ [0x80] @ replicate ((239 - length m mod 128) mod 128) 0 @ be_bytes 16 (8 * length m)"

definition sha512_fold :: "u8 list \<Rightarrow> u64 list" where
  "sha512_fold m = foldl fips_compress sha512_IV (blocks 128 m)"

definition sha512 :: "u8 list \<Rightarrow> u8 list" where
  "sha512 m = concat (map (\<lambda>x. be_bytes 8 (unat x)) (sha512_fold (sha512_pad m)))"

lemma length_fips_compress [len_simps]: "length H = 8 \<Longrightarrow> length (fips_compress H b) = 8"
  using length_sha512_compress sha512_compress_fips by metis

lemma length_sha512_fold [len_simps]: "length (sha512_fold m) = 8"
proof -
  have "length H = 8 \<Longrightarrow> length (foldl fips_compress H bs) = 8" for H bs
    by (induction bs arbitrary: H) (auto simp: len_simps)
  then show ?thesis by (simp add: sha512_fold_def sha512_IV_def)
qed

lemma sha512_fold_append:
  "128 dvd length m \<Longrightarrow> length b = 128 \<Longrightarrow>
     sha512_fold (m @ b) = sha512_compress (sha512_fold m) b"
  by (simp add: sha512_fold_def blocks_append_mult blocks_append [of 128 b "[]", simplified])
    (simp add: sha512_compress_fips length_sha512_fold [unfolded sha512_fold_def])

lemma length_sha512 [simp, len_simps]: "length (sha512 m) = 64"
proof -
  have "length (concat (map (\<lambda>x. be_bytes 8 (unat x)) xs)) = 8 * length xs" for xs :: "u64 list"
    by (induction xs) auto
  then show ?thesis by (simp add: sha512_def length_sha512_fold)
qed

section \<open>A context and the message it has absorbed\<close>

definition absorbed :: "sha512_ctx \<Rightarrow> u8 list \<Rightarrow> bool" where
  "absorbed c m \<longleftrightarrow>
     (let full = 128 * (length m div 128) in
      length (s_buf c) = 128 \<and>
      unat (s_curlen c) = length m mod 128 \<and>
      take (length m mod 128) (s_buf c) = drop full m \<and>
      s_length c = of_nat (8 * full) \<and>
      s_hash c = sha512_fold (take full m))"

lemma absorbed_init: "length (s_buf c) = 128 \<Longrightarrow> absorbed (sha512_init c) []"
  by (simp add: absorbed_def sha512_init_def sha512_fold_def sha512_IV_def)

lemma absorbed_buf: "absorbed c m \<Longrightarrow> length (s_buf c) = 128"
  by (simp add: absorbed_def Let_def)

text \<open>A whole block taken straight from the input.\<close>

lemma absorbed_block:
  assumes "absorbed c m" and "s_curlen c = 0" and "length b = 128"
  shows "absorbed (c\<lparr>s_hash := sha512_compress (s_hash c) b, s_length := s_length c + 1024\<rparr>) (m @ b)"
proof -
  have m: "128 dvd length m" using assms by (simp add: absorbed_def Let_def dvd_eq_mod_eq_0)
  then have "128 * (length m div 128) = length m" by simp
  with assms m show ?thesis by (simp add: absorbed_def Let_def sha512_fold_append algebra_simps)
qed

lemma div_mod_part:
  assumes "(k :: nat) + n mod 128 < 128"
  shows "(n + k) div 128 = n div 128 \<and> (n + k) mod 128 = n mod 128 + k"
proof -
  have "n + k = (k + n mod 128) + (n div 128) * 128" by simp
  then have "(n + k) div 128 = ((k + n mod 128) + (n div 128) * 128) div 128"
    and "(n + k) mod 128 = ((k + n mod 128) + (n div 128) * 128) mod 128" by (rule arg_cong)+
  with assms show ?thesis by (simp only: div_mult_self1 mod_mult_self1 div_less mod_less) simp
qed

lemma div_mod_fill: "(k :: nat) + n mod 128 = 128 \<Longrightarrow> n + k = 128 * (n div 128) + 128"
  using mult_div_mod_eq [of 128 n] by linarith

lemma length_minus_full: "length m - 128 * (length m div 128) = length m mod 128"
  by (rule minus_mult_div_eq_mod)

text \<open>Bytes copied into the block buffer without filling it, and filling it.\<close>

lemma absorbed_part:
  assumes a: "absorbed c m" and n: "length p + length m mod 128 < 128"
    and b: "wr (s_buf c) (unat (s_curlen c)) p = Some b"
  shows "absorbed (c\<lparr>s_buf := b, s_curlen := s_curlen c + of_nat (length p)\<rparr>) (m @ p)"
proof -
  let ?r = "length m mod 128"
  have d: "length (m @ p) div 128 = length m div 128" and r: "length (m @ p) mod 128 = ?r + length p"
    using div_mod_part [OF n] by simp_all
  have f: "128 * (length m div 128) \<le> length m" by simp
  have "unat (s_curlen c + of_nat (length p)) = ?r + length p"
    using a n by (simp add: absorbed_def Let_def unat_word_ariths unat_of_nat)
  moreover have "take (?r + length p) b = drop (128 * (length m div 128)) m @ p"
    using a b n by (auto simp: absorbed_def Let_def wr_def length_minus_full split: if_splits)
  moreover have "length b = 128" using length_wr [OF b] a by (simp add: absorbed_def Let_def)
  ultimately show ?thesis using a f by (simp add: absorbed_def Let_def d [simplified] r [simplified])
qed

lemma absorbed_fill:
  assumes a: "absorbed c m" and n: "length p + length m mod 128 = 128"
    and b: "wr (s_buf c) (unat (s_curlen c)) p = Some b"
  shows "absorbed (c\<lparr>s_buf := b, s_hash := sha512_compress (s_hash c) b,
    s_length := s_length c + 1024, s_curlen := 0\<rparr>) (m @ p)"
proof -
  let ?full = "128 * (length m div 128)"
  have l: "length m = ?full + length m mod 128" by simp
  have lp: "length (m @ p) = ?full + 128" using div_mod_fill [OF n] by simp
  have b': "b = drop ?full m @ p"
    using a b n by (auto simp: absorbed_def Let_def wr_def split: if_splits)
  then have mp: "m @ p = take ?full m @ b" by simp
  have "length b = 128" using length_wr [OF b] a by (simp add: absorbed_def Let_def)
  then have "sha512_fold (take ?full m @ b) = sha512_compress (sha512_fold (take ?full m)) b"
    by (intro sha512_fold_append) auto
  with a lp \<open>length b = 128\<close> show ?thesis
    by (simp add: absorbed_def Let_def mp del: append_take_drop_id)
qed

text \<open>
  The loop of \<^verbatim>\<open>sha512_hash\<close> keeps the relation and never leaves the block buffer.
\<close>

lemma sha512_hash_absorbed:
  "absorbed c m \<Longrightarrow> \<exists>c'. sha512_hash c p = Some c' \<and> absorbed c' (m @ p)"
proof (induction c p arbitrary: m rule: sha512_hash.induct)
  case (1 c p)
  show ?case
  proof (cases "p = []")
    case True
    with 1 show ?thesis by (subst sha512_hash.simps) simp
  next
    case ne: False
    show ?thesis
    proof (cases "s_curlen c = 0 \<and> 128 \<le> length p")
      case True
      let ?c = "c\<lparr>s_hash := sha512_compress (s_hash c) (take 128 p), s_length := s_length c + 1024\<rparr>"
      have "absorbed ?c (m @ take 128 p)"
        using True "1.prems" by (intro absorbed_block) auto
      from "1.IH"(1) [OF ne True this]
      show ?thesis using ne True by (subst sha512_hash.simps) simp
    next
      case False
      let ?cur = "s_curlen c"
      let ?n = "min (unat (128 - ?cur)) (length p)"
      have r: "unat ?cur = length m mod 128" and lb: "length (s_buf c) = 128"
        using "1.prems" by (auto simp: absorbed_def Let_def)
      have lt: "length m mod 128 < 128" by simp
      then have "?cur \<le> 128" using r by (simp add: word_le_nat_alt)
      then have n: "?n = min (128 - length m mod 128) (length p)"
        using r by (simp add: unat_sub)
      have lp: "length (take ?n p) = ?n" by simp
      have "unat ?cur + length (take ?n p) \<le> length (s_buf c)"
        unfolding lp unfolding n r lb using lt by linarith
      then obtain b where b: "wr (s_buf c) (unat ?cur) (take ?n p) = Some b"
        using wr_defined by blast
      have ofn: "of_nat (length (take ?n p)) = (of_nat ?n :: u32)" by simp
      show ?thesis
      proof (cases "?n + length m mod 128 = 128")
        case fill: True
        have "unat (?cur + of_nat ?n) = 128"
          using r fill by (simp add: unat_word_ariths unat_of_nat)
        then have cur: "?cur + of_nat ?n = 128" by (simp add: word_unat_eq_iff)
        have "absorbed (c\<lparr>s_buf := b, s_hash := sha512_compress (s_hash c) b,
            s_length := s_length c + 1024, s_curlen := 0\<rparr>) (m @ take ?n p)"
          using "1.prems" fill b by (intro absorbed_fill) auto
        from "1.IH"(2) [OF ne False refl b refl _ , of "m @ take ?n p"] this
        show ?thesis using ne False b cur by (subst sha512_hash.simps) (auto simp: Let_def)
      next
        case part: False
        then have lt': "length (take ?n p) + length m mod 128 < 128" using n by auto
        then have "unat (?cur + of_nat ?n) = length m mod 128 + ?n"
          using r by (simp add: unat_word_ariths unat_of_nat)
        then have cur: "?cur + of_nat ?n \<noteq> 128" using lt' by auto
        have "absorbed (c\<lparr>s_buf := b, s_curlen := ?cur + of_nat ?n\<rparr>) (m @ take ?n p)"
          using absorbed_part [OF "1.prems" lt' b] by simp
        from "1.IH"(3) [OF ne False refl b refl _ this]
        show ?thesis using ne False b cur by (subst sha512_hash.simps) (auto simp: Let_def)
      qed
    qed
  qed
qed

section \<open>The last blocks\<close>

lemma length_zero_fill [simp, len_simps]: "length (zero_fill b i j) = length b"
proof -
  have "length (foldl (\<lambda>b i. b[i := 0]) b is) = length b" for b :: "u8 list" and "is" :: "nat list"
    by (induction "is" arbitrary: b) auto
  then show ?thesis by (simp add: zero_fill_def)
qed

lemma zero_fill_eq:
  "i \<le> j \<Longrightarrow> j \<le> length b \<Longrightarrow> zero_fill b i j = take i b @ replicate (j - i) 0 @ drop j b"
proof (induction j)
  case (Suc j)
  show ?case
  proof (cases "i = Suc j")
    case True
    then show ?thesis by (simp add: zero_fill_def)
  next
    case False
    with Suc.prems have "zero_fill b i (Suc j) = (zero_fill b i j)[j := 0]"
      by (simp add: zero_fill_def)
    also have "\<dots> = (take i b @ replicate (j - i) 0 @ drop j b)[j := 0]"
      using Suc False by simp
    also have "\<dots> = take i b @ replicate (Suc j - i) 0 @ drop (Suc j) b"
      using Suc.prems False
      by (intro nth_equalityI) (auto simp: nth_append nth_list_update min_def)
    finally show ?thesis .
  qed
qed (simp add: zero_fill_def)

lemma be_bytes_16: "v < 2 ^ 64 \<Longrightarrow> be_bytes 16 v = replicate 8 0 @ be_bytes 8 v"
proof -
  have "le_bytes (8 + 8) v = le_bytes 8 v @ le_bytes 8 (v div 256 ^ 8)" by (rule le_bytes_add)
  moreover have "le_bytes n 0 = replicate n 0" for n by (induction n) auto
  ultimately show "v < 2 ^ 64 \<Longrightarrow> be_bytes 16 v = replicate 8 0 @ be_bytes 8 v"
    by (simp add: be_bytes_def)
qed

lemma pad_len_short: "\<not> 112 < r + 1 \<Longrightarrow> (239 - r) mod 128 = (111 - r :: nat)"
proof -
  assume "\<not> 112 < r + 1"
  then have "239 - r = (111 - r) + 128" and "111 - r < 128" by linarith+
  then show ?thesis by (metis mod_add_self2 mod_less)
qed

lemma fill_len_short: "\<not> 112 < r + 1 \<Longrightarrow> 119 - r = (111 - r :: nat) + 8"
  by linarith

lemma sha512_done_one_block:
  assumes "\<not> 112 < unat (s_curlen c) + 1" and "wr (s_buf c) (unat (s_curlen c)) [0x80] = Some b0"
    and "wr (zero_fill b0 (Suc (unat (s_curlen c))) 120) 120
           (le_bytes 8 (unat (byteswap64 (s_length c + ucast (s_curlen c * 8))))) = Some b2"
  shows "sha512_done c =
    Some (concat (map (\<lambda>x. le_bytes 8 (unat (byteswap64 x))) (sha512_compress (s_hash c) b2)))"
  using assms by (simp add: sha512_done_def Let_def)

lemma sha512_done_absorbed:
  assumes a: "absorbed c m" and l: "length m < 2 ^ 61"
  shows "sha512_done c = Some (sha512 m)"
proof -
  let ?r = "length m mod 128" and ?full = "128 * (length m div 128)"
  let ?len = "s_length c + ucast (s_curlen c * 8)"
  let ?tail = "drop ?full m"
  from a have lb: "length (s_buf c) = 128" and cur: "unat (s_curlen c) = ?r"
    and tl: "take ?r (s_buf c) = ?tail" and len: "s_length c = of_nat (8 * ?full)"
    and h: "s_hash c = sha512_fold (take ?full m)"
    by (simp_all add: absorbed_def Let_def)
  have rlt: "?r < 128" by simp
  have lm: "length m = ?full + ?r" by simp
  have ltl: "length ?tail = ?r" by (simp add: length_minus_full)
  have "unat (s_curlen c * 8) = 8 * ?r"
    using cur rlt by (simp add: unat_word_ariths)
  moreover have "(ucast (s_curlen c * 8) :: u64) = of_nat (unat (s_curlen c * 8))" by simp
  ultimately have "?len = of_nat (8 * ?full) + of_nat (8 * ?r)" using len by simp
  also have "\<dots> = of_nat (8 * length m)" by (simp only: of_nat_add [symmetric] distrib_left [symmetric] mult_div_mod_eq)
  finally have "?len = of_nat (8 * length m)" .
  then have ul: "unat ?len = 8 * length m"
    using l by (simp only: unat_of_nat) (simp add: mod_less)
  define B where "B = be_bytes 8 (8 * length m)"
  have B16: "be_bytes 16 (8 * length m) = replicate 8 0 @ B" using l by (simp add: be_bytes_16 B_def)
  have lB: "length B = 8" by (simp add: B_def)
  obtain b0 where b0: "wr (s_buf c) ?r [0x80] = Some b0"
    using wr_defined [of ?r "[0x80]" "s_buf c"] lb rlt by auto
  then have lb0: "length b0 = 128" and tb0: "take (Suc ?r) b0 = ?tail @ [0x80]"
    using lb rlt tl by (auto simp: wr_def length_minus_full split: if_splits)
  have dv: "128 dvd length (take ?full m)" by simp
  show ?thesis
  proof (cases "112 < ?r + 1")
    case True
    define b1 where "b1 = zero_fill b0 (Suc ?r) 128"
    define b2 where "b2 = take 120 (zero_fill b1 0 120) @ B"
    have b1: "b1 = ?tail @ [0x80] @ replicate (127 - ?r) 0"
      using lb0 tb0 rlt by (simp add: b1_def zero_fill_eq)
    have lb1: "length b1 = 128" using lb0 by (simp add: b1_def)
    have b2: "b2 = replicate 120 0 @ B" using lb1 by (simp add: b2_def zero_fill_eq)
    have w: "wr (zero_fill b1 0 120) 120 B = Some b2"
      using lb1 lB by (simp add: wr_def b2_def)
    have z: "(239 - ?r) mod 128 = (127 - ?r) + 112"
    proof -
      have "239 - ?r < 256 \<and> 112 \<le> 239 - ?r \<and> 239 - ?r \<le> 127" using True rlt by linarith
      then show ?thesis using rlt by simp
    qed
    have "sha512_pad m = take ?full m @ (?tail @ [0x80] @ replicate (127 - ?r) 0) @ (replicate 112 0 @ replicate 8 0 @ B)"
      unfolding sha512_pad_def z replicate_add B16 by simp
    also have "\<dots> = (take ?full m @ b1) @ b2"
      by (simp add: b1 b2 flip: replicate_add)
    finally have p: "sha512_pad m = (take ?full m @ b1) @ b2" .
    have "sha512_fold (take ?full m @ b1) = sha512_compress (sha512_fold (take ?full m)) b1"
      using dv lb1 by (rule sha512_fold_append)
    moreover have "sha512_fold ((take ?full m @ b1) @ b2) = sha512_compress (sha512_fold (take ?full m @ b1)) b2"
      using dv lb1 lB by (intro sha512_fold_append) (auto simp: b2)
    ultimately show ?thesis
      using True b0 w
      by (simp add: sha512_done_def Let_def cur h ul le_bytes_byteswap64 sha512_def p
          flip: b1_def B_def)
  next
    case False
    define b2 where "b2 = take 120 (zero_fill b0 (Suc ?r) 120) @ B"
    have b2: "b2 = ?tail @ [0x80] @ replicate (119 - ?r) 0 @ B"
    proof -
      have "take 120 (zero_fill b0 (Suc ?r) 120) = take (Suc ?r) b0 @ replicate (119 - ?r) 0"
        using lb0 False by (simp add: zero_fill_eq)
      then show ?thesis by (simp only: b2_def tb0 append.assoc)
    qed
    have lb2: "length b2 = 128" using lb0 lB by (simp add: b2_def)
    have w: "wr (zero_fill b0 (Suc ?r) 120) 120 B = Some b2"
      using lb0 lB by (simp add: wr_def b2_def)
    have z: "(239 - ?r) mod 128 = 111 - ?r"
      using False by (rule pad_len_short)
    have "119 - ?r = (111 - ?r) + 8" using False by (rule fill_len_short)
    then have "sha512_pad m = m @ [0x80] @ replicate (119 - ?r) 0 @ B"
      by (simp only: sha512_pad_def z B16 replicate_add append_assoc)
    also have "\<dots> = take ?full m @ b2"
      by (simp only: b2 append_take_drop_id append_assoc [symmetric])
    finally have p: "sha512_pad m = take ?full m @ b2" .
    have "sha512_fold (take ?full m @ b2) = sha512_compress (sha512_fold (take ?full m)) b2"
      using dv lb2 by (rule sha512_fold_append)
    moreover have "sha512_done c =
      Some (concat (map (\<lambda>x. le_bytes 8 (unat (byteswap64 x))) (sha512_compress (s_hash c) b2)))"
    proof (rule sha512_done_one_block)
      show "\<not> 112 < unat (s_curlen c) + 1" using False unfolding cur .
      show "wr (s_buf c) (unat (s_curlen c)) [0x80] = Some b0" using b0 by (simp only: cur)
      show "wr (zero_fill b0 (Suc (unat (s_curlen c))) 120) 120
           (le_bytes 8 (unat (byteswap64 ?len))) = Some b2"
        using w by (simp only: cur le_bytes_byteswap64 ul B_def)
    qed
    ultimately show ?thesis
      by (simp only: sha512_def p h le_bytes_byteswap64)
  qed
qed

section \<open>Streaming\<close>

interpretation sha: digest_stream sha512_hash sha512_done absorbed sha512 "2 ^ 61"
  by unfold_locales (auto intro: sha512_hash_absorbed sha512_done_absorbed)

text \<open>
  C2: the streaming interface computes SHA-512. Whatever the block buffer held before
  \<^verbatim>\<open>sha512_init\<close> and however the message is cut into calls of \<^verbatim>\<open>sha512_hash\<close>, every copy stays
  inside the 128-byte buffer and \<^verbatim>\<open>sha512_done\<close> returns the FIPS 180-4 digest of the whole
  message (of fewer than \<open>2\<^sup>6\<^sup>1\<close> bytes, the bound the code's length counter has).
\<close>

theorem sha512_streaming_correct:
  assumes "length (s_buf c) = 128" and "length (concat ps) < 2 ^ 61"
  shows "feed sha512_hash (sha512_init c) ps \<bind> sha512_done = Some (sha512 (concat ps))"
  using sha.feed_fin [OF absorbed_init [OF assms(1)], of ps] assms(2) by simp

theorem sha512_streaming_correct_witness:
  "length (s_buf \<lparr>s_hash = [], s_length = 0, s_curlen = 7, s_buf = replicate 128 0xCC\<rparr>) = 128 \<and>
   length (concat [[0x61, 0x62], [], [0x63 :: u8]]) < 2 ^ 61 \<and>
   feed sha512_hash (sha512_init \<lparr>s_hash = [], s_length = 0, s_curlen = 7, s_buf = replicate 128 0xCC\<rparr>)
     [[0x61, 0x62], [], [0x63]] \<bind> sha512_done = Some (sha512 [0x61, 0x62, 0x63])"
  using sha512_streaming_correct
    [of "\<lparr>s_hash = [], s_length = 0, s_curlen = 7, s_buf = replicate 128 0xCC\<rparr>" "[[0x61, 0x62], [], [0x63]]"]
  by simp

end
