(* ===== verification/Hmac.thy ===== *)
theory Hmac
  imports Sha512
begin

unbundle bit_operations_syntax

text \<open>
  \<^verbatim>\<open>sha512_hmac.c\<close> and \<^verbatim>\<open>sha512_pkcs5_2.c\<close> of \<^verbatim>\<open>ImBox/dc/crypto_lib\<close>: HMAC and the PBKDF2
  key derivation over it. Contexts the C functions hold on their stack start with arbitrary
  contents; they are the argument \<open>st\<close>, and the theorems hold for each value of it.
\<close>

section \<open>HMAC: the code\<close>

record sha512_hmac_ctx =
  h_hash :: sha512_ctx
  h_padded_key :: "u8 list"

definition sha512_hmac_init :: "sha512_hmac_ctx \<Rightarrow> u8 list \<Rightarrow> sha512_hmac_ctx option" where
  "sha512_hmac_init ctx key = do {
     (hc, pk) \<leftarrow>
       (if 128 < length key then do {
          hc \<leftarrow> sha512_hash (sha512_init (h_hash ctx)) key;
          d \<leftarrow> sha512_done hc;
          pk \<leftarrow> wr (h_padded_key ctx) 0 d;
          pk \<leftarrow> wr pk 64 (replicate (128 - 64) 0);
          Some (hc, pk) }
        else do {
          pk \<leftarrow> wr (h_padded_key ctx) 0 key;
          pk \<leftarrow> wr pk (length key) (replicate (128 - length key) 0);
          Some (h_hash ctx, pk) });
     let block = map (\<lambda>i. pk ! i XOR 0x36) [0..<128];
     hc \<leftarrow> sha512_hash (sha512_init hc) block;
     Some \<lparr>h_hash = hc, h_padded_key = pk\<rparr> }"

definition sha512_hmac_hash :: "sha512_hmac_ctx \<Rightarrow> u8 list \<Rightarrow> sha512_hmac_ctx option" where
  "sha512_hmac_hash ctx p = do {
     hc \<leftarrow> sha512_hash (h_hash ctx) p;
     Some (ctx\<lparr>h_hash := hc\<rparr>) }"

definition sha512_hmac_done :: "sha512_hmac_ctx \<Rightarrow> u8 list option" where
  "sha512_hmac_done ctx = do {
     inner \<leftarrow> sha512_done (h_hash ctx);
     let block = map (\<lambda>i. h_padded_key ctx ! i XOR 0x5C) [0..<128];
     hc \<leftarrow> sha512_hash (sha512_init (h_hash ctx)) block;
     hc \<leftarrow> sha512_hash hc inner;
     sha512_done hc }"

definition sha512_hmac :: "sha512_hmac_ctx \<Rightarrow> u8 list \<Rightarrow> u8 list \<Rightarrow> u8 list option" where
  "sha512_hmac st k d = do {
     ctx \<leftarrow> sha512_hmac_init st k;
     ctx \<leftarrow> sha512_hmac_hash ctx d;
     sha512_hmac_done ctx }"

section \<open>HMAC: RFC 2104\<close>

definition hmac_k0 :: "u8 list \<Rightarrow> u8 list" where
  "hmac_k0 k = (let k' = (if 128 < length k then sha512 k else k) in k' @ replicate (128 - length k') 0)"

definition hmac :: "u8 list \<Rightarrow> u8 list \<Rightarrow> u8 list" where
  "hmac k m = sha512 (xor_bytes (hmac_k0 k) (replicate 128 0x5C) @
               sha512 (xor_bytes (hmac_k0 k) (replicate 128 0x36) @ m))"

lemma length_hmac_k0 [simp, len_simps]: "length (hmac_k0 k) = 128"
  by (simp add: hmac_k0_def)

lemma length_hmac [simp, len_simps]: "length (hmac k m) = 64"
  by (simp add: hmac_def)

definition hmac_ready :: "sha512_hmac_ctx \<Rightarrow> bool" where
  "hmac_ready c \<longleftrightarrow> length (s_buf (h_hash c)) = 128 \<and> length (h_padded_key c) = 128"

definition hmac_absorbed :: "u8 list \<Rightarrow> sha512_hmac_ctx \<Rightarrow> u8 list \<Rightarrow> bool" where
  "hmac_absorbed k c m \<longleftrightarrow> h_padded_key c = hmac_k0 k \<and>
     absorbed (h_hash c) (xor_bytes (hmac_k0 k) (replicate 128 0x36) @ m)"

lemma hmac_absorbed_ready: "hmac_absorbed k c m \<Longrightarrow> hmac_ready c"
  by (auto simp: hmac_absorbed_def hmac_ready_def dest: absorbed_buf)

lemma xor_pad: "length pk = 128 \<Longrightarrow> map (\<lambda>i. pk ! i XOR x) [0..<128] = xor_bytes pk (replicate 128 x)"
  by (rule nth_equalityI) (auto simp: xor_bytes_nth)

lemma hash_init_absorbed:
  assumes "length (s_buf c) = 128"
  obtains c' where "sha512_hash (sha512_init c) p = Some c'" and "absorbed c' p"
  using sha.updE [OF absorbed_init [OF assms], of p] by auto

lemma hmac_init_absorbed:
  assumes "hmac_ready c" and "length k < 2 ^ 61"
  obtains c' where "sha512_hmac_init c k = Some c'" and "hmac_absorbed k c' []"
proof -
  have lb: "length (s_buf (h_hash c)) = 128" and lk: "length (h_padded_key c) = 128"
    using assms(1) by (simp_all add: hmac_ready_def)
  have "\<exists>hc. length (s_buf hc) = 128 \<and>
    (if 128 < length k then do {
          hc \<leftarrow> sha512_hash (sha512_init (h_hash c)) k;
          d \<leftarrow> sha512_done hc;
          pk \<leftarrow> wr (h_padded_key c) 0 d;
          pk \<leftarrow> wr pk 64 (replicate (128 - 64) 0);
          Some (hc, pk) }
        else do {
          pk \<leftarrow> wr (h_padded_key c) 0 k;
          pk \<leftarrow> wr pk (length k) (replicate (128 - length k) 0);
          Some (h_hash c, pk) }) = Some (hc, hmac_k0 k)"
  proof (cases "128 < length k")
    case True
    obtain hc where hc: "sha512_hash (sha512_init (h_hash c)) k = Some hc" "absorbed hc k"
      using lb by (rule hash_init_absorbed)
    then have "sha512_done hc = Some (sha512 k)" and "length (s_buf hc) = 128"
      using assms(2) by (auto simp: sha.fin_digest dest: absorbed_buf)
    with hc True lk show ?thesis by (simp add: wr_def hmac_k0_def)
  next
    case False
    with lb lk show ?thesis by (simp add: wr_def hmac_k0_def)
  qed
  then obtain hc where lbc: "length (s_buf hc) = 128" and hc:
    "sha512_hmac_init c k = do {
       hc \<leftarrow> sha512_hash (sha512_init hc) (map (\<lambda>i. hmac_k0 k ! i XOR 0x36) [0..<128]);
       Some \<lparr>h_hash = hc, h_padded_key = hmac_k0 k\<rparr> }"
    by (auto simp: sha512_hmac_init_def)
  obtain c' where "sha512_hash (sha512_init hc) (xor_bytes (hmac_k0 k) (replicate 128 0x36)) = Some c'"
    and "absorbed c' (xor_bytes (hmac_k0 k) (replicate 128 0x36))"
    using lbc by (rule hash_init_absorbed)
  with hc show ?thesis
    by (intro that [of "\<lparr>h_hash = c', h_padded_key = hmac_k0 k\<rparr>"]) (simp_all add: hmac_absorbed_def xor_pad)
qed

lemma hmac_hash_absorbed:
  "hmac_absorbed k c m \<Longrightarrow> \<exists>c'. sha512_hmac_hash c p = Some c' \<and> hmac_absorbed k c' (m @ p)"
  using sha.upd_absorbs [of "h_hash c" "xor_bytes (hmac_k0 k) (replicate 128 0x36) @ m" p]
  by (auto simp: hmac_absorbed_def sha512_hmac_hash_def)

lemma hmac_done_absorbed:
  assumes "hmac_absorbed k c m" and "length m < 2 ^ 61 - 128"
  shows "sha512_hmac_done c = Some (hmac k m)"
proof -
  let ?o = "xor_bytes (hmac_k0 k) (replicate 128 0x5C)"
  have pk: "h_padded_key c = hmac_k0 k" and lb: "length (s_buf (h_hash c)) = 128"
    using assms(1) by (auto simp: hmac_absorbed_def dest: absorbed_buf)
  have inner: "sha512_done (h_hash c) = Some (sha512 (xor_bytes (hmac_k0 k) (replicate 128 0x36) @ m))"
    using assms by (simp add: hmac_absorbed_def sha.fin_digest)
  obtain hc where "sha512_hash (sha512_init (h_hash c)) ?o = Some hc" and "absorbed hc ?o"
    using lb by (rule hash_init_absorbed)
  then show ?thesis
    by (simp add: sha512_hmac_done_def pk inner xor_pad sha.upd_fin hmac_def)
qed

text \<open>A context with the key in it is again a streaming digest, and HMAC is its function.\<close>

interpretation hm: digest_stream sha512_hmac_hash sha512_hmac_done "hmac_absorbed k" "hmac k" "2 ^ 61 - 128" for k
  by unfold_locales (auto intro: hmac_hash_absorbed hmac_done_absorbed)

lemma hmac_stream:
  assumes "hmac_ready st" and "length k < 2 ^ 61" and "length (concat ps) < 2 ^ 61 - 128"
  shows "do { c \<leftarrow> sha512_hmac_init st k; c \<leftarrow> feed sha512_hmac_hash c ps; sha512_hmac_done c } =
    Some (hmac k (concat ps))"
proof -
  obtain c where "sha512_hmac_init st k = Some c" and "hmac_absorbed k c []"
    using assms(1,2) by (rule hmac_init_absorbed)
  then show ?thesis using hm.feed_fin [of k c "[]" ps] assms(3) by simp
qed


lemma sha512_hmac_eq:
  assumes "hmac_ready st" and "length k < 2 ^ 61" and "length m < 2 ^ 61 - 128"
  shows "sha512_hmac st k m = Some (hmac k m)"
  using hmac_stream [OF assms(1,2), of "[m]"] assms(3) by (simp add: sha512_hmac_def)

section \<open>PBKDF2: the code\<close>

text \<open>The iterations \<^verbatim>\<open>j = 1 .. i_count - 1\<close>.\<close>

primrec pkcs5_iter :: "sha512_hmac_ctx \<Rightarrow> nat \<Rightarrow> u8 list \<Rightarrow> u8 list \<Rightarrow> u8 list option" where
  "pkcs5_iter base 0 u t = Some t"
| "pkcs5_iter base (Suc j) u t = do {
     ctx \<leftarrow> sha512_hmac_hash base u;
     u \<leftarrow> sha512_hmac_done ctx;
     pkcs5_iter base j u (xor_bytes t u) }"

definition pkcs5_counter :: "u32 \<Rightarrow> u8 list" where
  "pkcs5_counter block = [ucast (drop_bit 24 block), ucast (drop_bit 16 block), ucast (drop_bit 8 block), ucast block]"

text \<open>One block \<open>T\<close>, and the loop over the blocks with the \<^verbatim>\<open>dklen\<close> bytes it produces.\<close>

definition pkcs5_block :: "sha512_hmac_ctx \<Rightarrow> int \<Rightarrow> u8 list \<Rightarrow> u32 \<Rightarrow> u8 list option" where
  "pkcs5_block base i_count salt block = do {
     ctx \<leftarrow> sha512_hmac_hash base salt;
     ctx \<leftarrow> sha512_hmac_hash ctx (pkcs5_counter block);
     u \<leftarrow> sha512_hmac_done ctx;
     pkcs5_iter base (nat (i_count - 1)) u u }"

function pkcs5_blocks :: "sha512_hmac_ctx \<Rightarrow> int \<Rightarrow> u8 list \<Rightarrow> u32 \<Rightarrow> nat \<Rightarrow> u8 list option" where
  "pkcs5_blocks base i_count salt block dklen =
     (if dklen = 0 then Some []
      else do {
        t \<leftarrow> pkcs5_block base i_count salt block;
        let n = min dklen 64;
        dk \<leftarrow> pkcs5_blocks base i_count salt (block + 1) (dklen - n);
        Some (take n t @ dk) })"
  by pat_completeness auto
termination
  by (relation "measure (\<lambda>(base, i_count, salt, block, dklen). dklen)") auto

declare pkcs5_blocks.simps [simp del]

definition sha512_pkcs5_2 :: "sha512_hmac_ctx \<Rightarrow> int \<Rightarrow> u8 list \<Rightarrow> u8 list \<Rightarrow> nat \<Rightarrow> u8 list option" where
  "sha512_pkcs5_2 st i_count pwd salt dklen = do {
     base \<leftarrow> sha512_hmac_init st pwd;
     pkcs5_blocks base i_count salt 1 dklen }"

section \<open>PBKDF2: RFC 8018, section 5.2\<close>

primrec pbkdf2_U :: "u8 list \<Rightarrow> u8 list \<Rightarrow> nat \<Rightarrow> nat \<Rightarrow> u8 list" where
  "pbkdf2_U P S i 0 = hmac P (S @ be_bytes 4 i)"
| "pbkdf2_U P S i (Suc j) = hmac P (pbkdf2_U P S i j)"

definition pbkdf2_F :: "u8 list \<Rightarrow> u8 list \<Rightarrow> nat \<Rightarrow> nat \<Rightarrow> u8 list" where
  "pbkdf2_F P S c i = foldl xor_bytes (pbkdf2_U P S i 0) (map (pbkdf2_U P S i) [1..<c])"

definition pbkdf2 :: "u8 list \<Rightarrow> u8 list \<Rightarrow> nat \<Rightarrow> nat \<Rightarrow> u8 list" where
  "pbkdf2 P S c dkLen = take dkLen (concat (map (pbkdf2_F P S c) [1..<Suc ((dkLen + 63) div 64)]))"

lemma length_pbkdf2_U [simp, len_simps]: "length (pbkdf2_U P S i j) = 64"
  by (cases j) auto

lemma length_foldl_xor:
  "\<forall>y \<in> set ys. length y = length x \<Longrightarrow> length (foldl xor_bytes x ys) = length x"
  by (induction ys arbitrary: x) auto

lemma length_pbkdf2_F [simp, len_simps]: "length (pbkdf2_F P S c i) = 64"
  unfolding pbkdf2_F_def by (subst length_foldl_xor) auto

lemma be_bytes_4: "be_bytes 4 v = [of_nat (v div 2 ^ 24), of_nat (v div 2 ^ 16), of_nat (v div 2 ^ 8), of_nat v]"
proof -
  have "le_bytes (Suc (Suc (Suc (Suc 0)))) v =
      [of_nat v, of_nat (v div 256), of_nat (v div 256 div 256), of_nat (v div 256 div 256 div 256)]"
    by (simp only: le_bytes.simps)
  also have "v div 256 div 256 div 256 = v div 16777216" by (simp flip: div_mult2_eq)
  also have "v div 256 div 256 = v div 65536" by (simp flip: div_mult2_eq)
  finally have l: "le_bytes (Suc (Suc (Suc (Suc 0)))) v =
      [of_nat v, of_nat (v div 256), of_nat (v div 65536), of_nat (v div 16777216)]" .
  have "(4::nat) = Suc (Suc (Suc (Suc 0)))" by simp
  then have "be_bytes 4 v = rev (le_bytes (Suc (Suc (Suc (Suc 0)))) v)" by (simp only: be_bytes_def)
  then show ?thesis unfolding l by simp
qed

lemma pkcs5_counter_be: "pkcs5_counter b = be_bytes 4 (unat b)"
proof -
  have u: "(ucast x :: u8) = of_nat (unat x)" for x :: u32 by simp
  show ?thesis by (simp only: pkcs5_counter_def be_bytes_4 u unat_drop_bit_div)
qed

lemma pkcs5_iter_foldl:
  "hmac_absorbed P base [] \<Longrightarrow>
   pkcs5_iter base n (pbkdf2_U P S i j) t =
     Some (foldl xor_bytes t (map (pbkdf2_U P S i) [Suc j..<Suc (j + n)]))"
proof (induction n arbitrary: j t)
  case (Suc n)
  have "sha512_hmac_hash base (pbkdf2_U P S i j) \<bind> sha512_hmac_done = Some (pbkdf2_U P S i (Suc j))"
    using hm.upd_fin [OF Suc.prems, of "pbkdf2_U P S i j"] by simp
  then show ?case
    using Suc.IH [OF Suc.prems, of "Suc j" "xor_bytes t (pbkdf2_U P S i (Suc j))"]
    by (auto simp: upt_conv_Cons bind_eq_Some_conv simp del: upt_Suc pbkdf2_U.simps)
qed simp

lemma pkcs5_block_eq:
  assumes a: "hmac_absorbed P base []" and l: "length S < 2 ^ 60" and b: "b < 2 ^ 32"
  shows "pkcs5_block base c S (of_nat b) = Some (pbkdf2_F P S (nat c) b)"
proof -
  have "feed sha512_hmac_hash base [S, be_bytes 4 b] \<bind> sha512_hmac_done = Some (pbkdf2_U P S b 0)"
    using hm.feed_fin [OF a, of "[S, be_bytes 4 b]"] l by simp
  then have "pkcs5_block base c S (of_nat b) = pkcs5_iter base (nat (c - 1)) (pbkdf2_U P S b 0) (pbkdf2_U P S b 0)"
    using b by (auto simp: pkcs5_block_def pkcs5_counter_be unat_of_nat bind_eq_Some_conv simp del: pbkdf2_U.simps)
  also have "\<dots> = Some (foldl xor_bytes (pbkdf2_U P S b 0) (map (pbkdf2_U P S b) [Suc 0..<Suc (0 + nat (c - 1))]))"
    using a by (rule pkcs5_iter_foldl)
  also have "[Suc 0..<Suc (0 + nat (c - 1))] = [1..<nat c]"
    by (cases "0 < c") (auto simp: nat_diff_distrib)
  finally show ?thesis by (simp add: pbkdf2_F_def)
qed

lemma pkcs5_blocks_eq:
  assumes a: "hmac_absorbed P base []" and l: "length S < 2 ^ 60"
  shows "b + (n + 63) div 64 \<le> 2 ^ 32 \<Longrightarrow>
    pkcs5_blocks base c S (of_nat b) n =
      Some (take n (concat (map (pbkdf2_F P S (nat c)) [b..<b + (n + 63) div 64])))"
proof (induction n arbitrary: b rule: less_induct)
  case (less n)
  show ?case
  proof (cases "n = 0")
    case True
    then show ?thesis by (simp add: pkcs5_blocks.simps)
  next
    case False
    have ceil: "(n + 63) div 64 = Suc ((n - min n 64 + 63) div 64)"
      using False by (cases "n \<le> 64") (auto simp: div_if [of "n + 63"])
    then have b: "b < 2 ^ 32" and b': "Suc b + (n - min n 64 + 63) div 64 \<le> 2 ^ 32"
      using less.prems by auto
    have "pkcs5_blocks base c S (of_nat (Suc b)) (n - min n 64) =
        Some (take (n - min n 64) (concat (map (pbkdf2_F P S (nat c)) [Suc b..<Suc b + (n - min n 64 + 63) div 64])))"
      using False b' by (intro less.IH) auto
    then show ?thesis
      using False pkcs5_block_eq [OF a l b, of c]
      by (subst pkcs5_blocks.simps) (simp add: Let_def ceil upt_conv_Cons add.commute min_def del: upt_Suc)
  qed
qed

lemma pkcs5_2_pbkdf2:
  assumes "hmac_ready st" and "length P < 2 ^ 61" and "length S < 2 ^ 60"
    and "dklen \<le> (2 ^ 32 - 1) * 64"
  shows "sha512_pkcs5_2 st c P S dklen = Some (pbkdf2 P S (nat c) dklen)"
proof -
  obtain base where "sha512_hmac_init st P = Some base" and "hmac_absorbed P base []"
    using assms(1,2) by (rule hmac_init_absorbed)
  then show ?thesis
    using assms(3,4) pkcs5_blocks_eq [of P base S 1 dklen c]
    by (simp add: sha512_pkcs5_2_def pbkdf2_def)
qed

text \<open>
  C3: \<^verbatim>\<open>sha512_pkcs5_2\<close> is PBKDF2 with HMAC-SHA-512 for every iteration count, and it
  returns for every output length RFC 8018 admits (the block counter is 32 bits wide).
\<close>

theorem sha512_pkcs5_2_correct:
  assumes "hmac_ready st" and "length P < 2 ^ 61" and "length S < 2 ^ 60"
    and "dklen \<le> (2 ^ 32 - 1) * 64"
  shows "sha512_pkcs5_2 st c P S dklen = Some (pbkdf2 P S (nat c) dklen)"
  using assms by (rule pkcs5_2_pbkdf2)

theorem sha512_pkcs5_2_correct_witness:
  "let st = \<lparr>h_hash = \<lparr>s_hash = [], s_length = 0, s_curlen = 0, s_buf = replicate 128 0xCC\<rparr>,
             h_padded_key = replicate 128 0xCC\<rparr>
   in hmac_ready st \<and> sha512_pkcs5_2 st 1000 [0x70, 0x77] [1, 2, 3, 4] 192 =
        Some (pbkdf2 [0x70, 0x77] [1, 2, 3, 4] 1000 192)"
  using sha512_pkcs5_2_correct
    [of "\<lparr>h_hash = \<lparr>s_hash = [], s_length = 0, s_curlen = 0, s_buf = replicate 128 0xCC\<rparr>,
          h_padded_key = replicate 128 0xCC\<rparr>" "[0x70, 0x77]" "[1, 2, 3, 4]" 192 1000]
  by (simp add: hmac_ready_def Let_def)

end
