(* ===== verification/Drbg.thy ===== *)
theory Drbg
  imports Hmac
begin

unbundle bit_operations_syntax

text \<open>
  \<^verbatim>\<open>sha512_hmac_drbg.c\<close> of \<^verbatim>\<open>ImBox/dc/crypto_lib\<close>: the deterministic random generator of
  NIST SP 800-90A over HMAC-SHA-512. A pointer that may be NULL is an \<open>option\<close>; the results
  \<open>0\<close> and \<open>-1\<close> of the C functions are returned as they are, with the context and the output
  buffer the call leaves. \<open>st\<close> is the contents of the HMAC context on the stack.
\<close>

section \<open>The code\<close>

record drbg_ctx =
  d_key :: "u8 list"
  d_val :: "u8 list"
  d_reseed_counter :: u32

definition MIN_ENTROPY_BYTES :: nat where "MIN_ENTROPY_BYTES = 256 div 8"
definition MAX_ENTROPY_BYTES :: nat where "MAX_ENTROPY_BYTES = 2 ^ 35 div 8"
definition MAX_PERSONAL_BYTES :: nat where "MAX_PERSONAL_BYTES = 2 ^ 35 div 8"
definition MAX_ADDITIONAL_BYTES :: nat where "MAX_ADDITIONAL_BYTES = 2 ^ 35 div 8"
definition MAX_GENERATED_BYTES :: nat where "MAX_GENERATED_BYTES = 2 ^ 19 div 8"
definition RESEED_INTERVAL :: u32 where "RESEED_INTERVAL = 128"

lemmas drbg_limits = MIN_ENTROPY_BYTES_def MAX_ENTROPY_BYTES_def MAX_PERSONAL_BYTES_def
  MAX_ADDITIONAL_BYTES_def MAX_GENERATED_BYTES_def RESEED_INTERVAL_def

text \<open>The pieces \<^verbatim>\<open>drbg_update\<close> absorbs: NULL and empty ones are skipped.\<close>

definition drbg_live :: "u8 list option list \<Rightarrow> u8 list list" where
  "drbg_live parts = filter (\<lambda>p. p \<noteq> []) (List.map_filter id parts)"

definition drbg_total :: "u8 list option list \<Rightarrow> nat" where
  "drbg_total parts = sum_list (map (\<lambda>p. case p of None \<Rightarrow> 0 | Some d \<Rightarrow> length d) parts)"

definition drbg_round :: "sha512_hmac_ctx \<Rightarrow> drbg_ctx \<Rightarrow> u8 list option list \<Rightarrow> u8 \<Rightarrow> drbg_ctx option" where
  "drbg_round st ctx parts sep = do {
     h \<leftarrow> sha512_hmac_init st (d_key ctx);
     h \<leftarrow> sha512_hmac_hash h (d_val ctx);
     h \<leftarrow> sha512_hmac_hash h [sep];
     h \<leftarrow> feed sha512_hmac_hash h (drbg_live parts);
     key \<leftarrow> sha512_hmac_done h;
     val \<leftarrow> sha512_hmac st key (d_val ctx);
     Some (ctx\<lparr>d_key := key, d_val := val\<rparr>) }"

definition drbg_update :: "sha512_hmac_ctx \<Rightarrow> drbg_ctx \<Rightarrow> u8 list option list \<Rightarrow> drbg_ctx option" where
  "drbg_update st ctx parts = do {
     ctx \<leftarrow> drbg_round st ctx parts 0;
     (if drbg_total parts = 0 then Some ctx else drbg_round st ctx parts 1) }"

definition drbg_instantiate ::
  "sha512_hmac_ctx \<Rightarrow> drbg_ctx option \<Rightarrow> u8 list option \<Rightarrow> u8 list option \<Rightarrow> (int \<times> drbg_ctx option) option" where
  "drbg_instantiate st ctx entropy personal =
     (case (ctx, entropy) of
        (Some c, Some e) \<Rightarrow>
          if length e < MIN_ENTROPY_BYTES then Some (-1, ctx)
          else if MAX_ENTROPY_BYTES < length e then Some (-1, ctx)
          else if (case personal of None \<Rightarrow> False | Some p \<Rightarrow> MAX_PERSONAL_BYTES < length p) then Some (-1, ctx)
          else do {
            c \<leftarrow> drbg_update st (c\<lparr>d_key := replicate 64 0, d_val := replicate 64 1\<rparr>) [entropy, personal];
            Some (0, Some (c\<lparr>d_reseed_counter := 1\<rparr>)) }
      | _ \<Rightarrow> Some (-1, ctx))"

definition drbg_reseed ::
  "sha512_hmac_ctx \<Rightarrow> drbg_ctx option \<Rightarrow> u8 list option \<Rightarrow> u8 list option \<Rightarrow> (int \<times> drbg_ctx option) option" where
  "drbg_reseed st ctx entropy additional =
     (case (ctx, entropy) of
        (Some c, Some e) \<Rightarrow>
          if length e < MIN_ENTROPY_BYTES then Some (-1, ctx)
          else if MAX_ENTROPY_BYTES < length e then Some (-1, ctx)
          else if (case additional of None \<Rightarrow> False | Some p \<Rightarrow> MAX_ADDITIONAL_BYTES < length p) then Some (-1, ctx)
          else do {
            c \<leftarrow> drbg_update st c [entropy, additional];
            Some (0, Some (c\<lparr>d_reseed_counter := 1\<rparr>)) }
      | _ \<Rightarrow> Some (-1, ctx))"

text \<open>The output loop of \<^verbatim>\<open>generate\<close>: \<open>pos\<close> is how far \<^verbatim>\<open>output\<close> has advanced.\<close>

function drbg_fill ::
  "sha512_hmac_ctx \<Rightarrow> drbg_ctx \<Rightarrow> buf \<Rightarrow> nat \<Rightarrow> nat \<Rightarrow> (drbg_ctx \<times> buf) option" where
  "drbg_fill st ctx output pos output_len =
     (if output_len = 0 then Some (ctx, output)
      else do {
        val \<leftarrow> sha512_hmac st (d_key ctx) (d_val ctx);
        let n = min output_len 64;
        output \<leftarrow> wr output pos (take n val);
        drbg_fill st (ctx\<lparr>d_val := val\<rparr>) output (pos + n) (output_len - n) })"
  by pat_completeness auto
termination
  by (relation "measure (\<lambda>(st, ctx, output, pos, output_len). output_len)") auto

declare drbg_fill.simps [simp del]

definition drbg_generate ::
  "sha512_hmac_ctx \<Rightarrow> drbg_ctx option \<Rightarrow> u8 list option \<Rightarrow> buf option \<Rightarrow> nat
     \<Rightarrow> (int \<times> drbg_ctx option \<times> buf option) option" where
  "drbg_generate st ctx additional output output_len =
     (case (ctx, output) of
        (Some c, Some out) \<Rightarrow>
          if MAX_GENERATED_BYTES < output_len then Some (-1, ctx, output)
          else if (case additional of None \<Rightarrow> False | Some p \<Rightarrow> MAX_ADDITIONAL_BYTES < length p)
          then Some (-1, ctx, output)
          else if RESEED_INTERVAL < d_reseed_counter c then Some (-1, ctx, output)
          else do {
            c \<leftarrow> (if (case additional of None \<Rightarrow> 0 | Some p \<Rightarrow> length p) \<noteq> 0
                  then drbg_update st c [additional] else Some c);
            (c, out) \<leftarrow> drbg_fill st c out 0 output_len;
            c \<leftarrow> drbg_update st c [additional];
            Some (0, Some (c\<lparr>d_reseed_counter := d_reseed_counter c + 1\<rparr>), Some out) }
      | _ \<Rightarrow> Some (-1, ctx, output))"

section \<open>SP 800-90A, section 10.1.2\<close>

text \<open>The working state is the pair of \<open>Key\<close> and \<open>V\<close>.\<close>

definition hmac_drbg_update :: "u8 list \<Rightarrow> u8 list \<times> u8 list \<Rightarrow> u8 list \<times> u8 list" where
  "hmac_drbg_update provided_data KV =
     (let K = hmac (fst KV) (snd KV @ [0x00] @ provided_data);
          V = hmac K (snd KV)
      in if provided_data = [] then (K, V)
         else (let K' = hmac K (V @ [0x01] @ provided_data) in (K', hmac K' V)))"

text \<open>The values \<open>V\<close> takes while output is produced.\<close>

primrec hmac_drbg_V :: "u8 list \<Rightarrow> u8 list \<Rightarrow> nat \<Rightarrow> u8 list" where
  "hmac_drbg_V K V 0 = V"
| "hmac_drbg_V K V (Suc i) = hmac K (hmac_drbg_V K V i)"

definition hmac_drbg_output :: "u8 list \<times> u8 list \<Rightarrow> nat \<Rightarrow> u8 list" where
  "hmac_drbg_output KV n =
     take n (concat (map (hmac_drbg_V (fst KV) (snd KV)) [1..<Suc ((n + 63) div 64)]))"

definition hmac_drbg_generate :: "u8 list \<Rightarrow> u8 list \<times> u8 list \<Rightarrow> nat \<Rightarrow> (u8 list \<times> u8 list) \<times> u8 list" where
  "hmac_drbg_generate additional_input KV n =
     (let KV1 = (if additional_input = [] then KV else hmac_drbg_update additional_input KV);
          KV2 = (fst KV1, hmac_drbg_V (fst KV1) (snd KV1) ((n + 63) div 64))
      in (hmac_drbg_update additional_input KV2, hmac_drbg_output KV1 n))"

section \<open>The code implements it\<close>

definition opt_data :: "u8 list option \<Rightarrow> u8 list" where
  "opt_data p = (case p of None \<Rightarrow> [] | Some d \<Rightarrow> d)"

definition drbg_kv :: "drbg_ctx \<Rightarrow> u8 list \<times> u8 list" where
  "drbg_kv c = (d_key c, d_val c)"

definition drbg_ok :: "drbg_ctx \<Rightarrow> bool" where
  "drbg_ok c \<longleftrightarrow> length (d_key c) = 64 \<and> length (d_val c) = 64"

lemma drbg_counter [simp]:
  "drbg_ok (c\<lparr>d_reseed_counter := n\<rparr>) = drbg_ok c"
  "drbg_kv (c\<lparr>d_reseed_counter := n\<rparr>) = drbg_kv c"
  by (simp_all add: drbg_ok_def drbg_kv_def)

lemma concat_drbg_live: "concat (drbg_live parts) = concat (map opt_data parts)"
  by (induction parts) (auto simp: drbg_live_def map_filter_simps opt_data_def split: option.splits)

lemma drbg_total_0: "drbg_total parts = 0 \<longleftrightarrow> concat (map opt_data parts) = []"
  by (auto simp: drbg_total_def opt_data_def split: option.splits)

lemma drbg_round_eq:
  assumes "hmac_ready st" and "drbg_ok c" and "length (concat (map opt_data parts)) < 2 ^ 60"
  shows "drbg_round st c parts sep =
    (let K = hmac (d_key c) (d_val c @ [sep] @ concat (map opt_data parts)) in
     Some (c\<lparr>d_key := K, d_val := hmac K (d_val c)\<rparr>))"
proof -
  have "do { h \<leftarrow> sha512_hmac_init st (d_key c);
             h \<leftarrow> feed sha512_hmac_hash h ([d_val c, [sep]] @ drbg_live parts);
             sha512_hmac_done h } =
        Some (hmac (d_key c) (d_val c @ [sep] @ concat (map opt_data parts)))"
    using hmac_stream [of st "d_key c" "[d_val c, [sep]] @ drbg_live parts"] assms
    by (simp add: concat_drbg_live drbg_ok_def del: feed.simps)
  moreover have "sha512_hmac st (hmac k m) (d_val c) = Some (hmac (hmac k m) (d_val c))" for k m
    using assms by (intro sha512_hmac_eq) (auto simp: drbg_ok_def)
  ultimately show ?thesis
    by (auto simp: drbg_round_def Let_def bind_eq_Some_conv)
qed

lemma drbg_update_eq:
  assumes "hmac_ready st" and "drbg_ok c" and "length (concat (map opt_data parts)) < 2 ^ 60"
  shows "\<exists>c'. drbg_update st c parts = Some c' \<and> drbg_ok c' \<and>
    drbg_kv c' = hmac_drbg_update (concat (map opt_data parts)) (drbg_kv c) \<and>
    d_reseed_counter c' = d_reseed_counter c"
proof -
  have "drbg_ok (c\<lparr>d_key := hmac k m, d_val := hmac k' m'\<rparr>)" for k m k' m'
    by (simp add: drbg_ok_def)
  with assms show ?thesis
    by (simp add: drbg_update_def drbg_round_eq Let_def drbg_total_0 hmac_drbg_update_def drbg_kv_def)
qed

lemma hmac_drbg_V_shift: "hmac_drbg_V K (hmac K V) i = hmac_drbg_V K V (Suc i)"
  by (induction i) auto

lemma hmac_drbg_V_shift_fun: "hmac_drbg_V K (hmac K V) = (\<lambda>i. hmac K (hmac_drbg_V K V i))"
  by (rule ext) (simp add: hmac_drbg_V_shift)

lemma hmac_drbg_output_step:
  assumes "n \<noteq> 0"
  shows "hmac_drbg_output (K, V) n = take (min n 64) (hmac K V) @ hmac_drbg_output (K, hmac K V) (n - min n 64)"
proof -
  have ceil: "(n + 63) div 64 = Suc ((n - min n 64 + 63) div 64)"
    using assms by (cases "n \<le> 64") (auto simp: div_if [of "n + 63"])
  have "[1..<Suc (Suc m)] = 1 # map Suc [1..<Suc m]" for m
    by (simp add: map_Suc_upt upt_conv_Cons del: upt_Suc)
  then show ?thesis
    using assms
    by (simp add: hmac_drbg_output_def ceil hmac_drbg_V_shift_fun o_def min_def del: upt_Suc)
qed

lemma drbg_fill_eq:
  assumes st: "hmac_ready st"
  shows "drbg_ok c \<Longrightarrow> pos + n \<le> length out \<Longrightarrow>
    drbg_fill st c out pos n =
      Some (c\<lparr>d_val := hmac_drbg_V (d_key c) (d_val c) ((n + 63) div 64)\<rparr>,
            take pos out @ hmac_drbg_output (drbg_kv c) n @ drop (pos + n) out)"
proof (induction n arbitrary: c out pos rule: less_induct)
  case (less n)
  show ?case
  proof (cases "n = 0")
    case True
    then show ?thesis by (simp add: drbg_fill.simps hmac_drbg_output_def)
  next
    case False
    let ?m = "min n 64" and ?V = "hmac (d_key c) (d_val c)"
    have ceil: "(n + 63) div 64 = Suc ((n - ?m + 63) div 64)"
      using False by (cases "n \<le> 64") (auto simp: div_if [of "n + 63"])
    define out1 where "out1 = take pos out @ take ?m ?V @ drop (pos + ?m) out"
    have w: "wr out pos (take ?m ?V) = Some out1"
      using less.prems by (simp add: wr_def out1_def)
    have v: "sha512_hmac st (d_key c) (d_val c) = Some ?V"
      using st less.prems by (intro sha512_hmac_eq) (auto simp: drbg_ok_def)
    have t: "take (pos + ?m) out1 = take pos out @ take ?m ?V"
      and d: "drop (pos + n) out1 = drop (pos + n) out"
      using less.prems by (auto simp: out1_def min_def add.commute)
    have "drbg_fill st c out pos n = drbg_fill st (c\<lparr>d_val := ?V\<rparr>) out1 (pos + ?m) (n - ?m)"
      using False by (subst drbg_fill.simps) (simp add: v w Let_def)
    also have "\<dots> = Some (c\<lparr>d_val := hmac_drbg_V (d_key c) (d_val c) ((n + 63) div 64)\<rparr>,
        take (pos + ?m) out1 @ hmac_drbg_output (d_key c, ?V) (n - ?m) @ drop (pos + n) out1)"
      using less.IH [of "n - ?m" "c\<lparr>d_val := ?V\<rparr>" "pos + ?m" out1] less.prems False
      by (simp add: drbg_ok_def drbg_kv_def hmac_drbg_V_shift ceil out1_def)
    finally show ?thesis
      using False by (simp add: t d drbg_kv_def hmac_drbg_output_step)
  qed
qed

lemma length_hmac_drbg_V: "length V = 64 \<Longrightarrow> length (hmac_drbg_V K V i) = 64"
  by (cases i) auto

lemma length_concat_const: "(\<And>x. x \<in> set xs \<Longrightarrow> length (f x) = k) \<Longrightarrow> length (concat (map f xs)) = k * length xs"
  by (induction xs) auto

lemma length_hmac_drbg_output: "length (snd KV) = 64 \<Longrightarrow> length (hmac_drbg_output KV n) = n"
  by (subst hmac_drbg_output_def, simp, subst length_concat_const [where k = 64])
    (auto simp: length_hmac_drbg_V)

lemma drbg_generate_step:
  assumes "hmac_ready st" and "drbg_ok c"
    and "output_len \<le> MAX_GENERATED_BYTES" and "output_len \<le> length out"
    and "length (opt_data additional) \<le> MAX_ADDITIONAL_BYTES" and "d_reseed_counter c \<le> RESEED_INTERVAL"
  shows "\<exists>c'. drbg_generate st (Some c) additional (Some out) output_len =
      Some (0, Some c', Some (snd (hmac_drbg_generate (opt_data additional) (drbg_kv c) output_len) @ drop output_len out)) \<and>
    drbg_ok c' \<and> drbg_kv c' = fst (hmac_drbg_generate (opt_data additional) (drbg_kv c) output_len) \<and>
    d_reseed_counter c' = d_reseed_counter c + 1"
proof -
  have add: "length (concat (map opt_data [additional])) < 2 ^ 60"
    using assms(5) by (simp add: drbg_limits)
  have a0: "(case additional of None \<Rightarrow> 0 | Some p \<Rightarrow> length p) = length (opt_data additional)"
    and a1: "\<not> (case additional of None \<Rightarrow> False | Some p \<Rightarrow> MAX_ADDITIONAL_BYTES < length p)"
    using assms(5) by (auto simp: opt_data_def split: option.splits)
  define u where "u = (if length (opt_data additional) \<noteq> 0 then drbg_update st c [additional] else Some c)"
  define KV1 where "KV1 = (if opt_data additional = [] then drbg_kv c
                           else hmac_drbg_update (opt_data additional) (drbg_kv c))"
  obtain c1 where c1: "u = Some c1" "drbg_ok c1" "drbg_kv c1 = KV1" "d_reseed_counter c1 = d_reseed_counter c"
    using drbg_update_eq [OF assms(1,2) add] assms(2) unfolding u_def KV1_def
    by (cases "opt_data additional = []") auto
  define c2 where "c2 = c1\<lparr>d_val := hmac_drbg_V (d_key c1) (d_val c1) ((output_len + 63) div 64)\<rparr>"
  have fill: "drbg_fill st c1 out 0 output_len = Some (c2, hmac_drbg_output KV1 output_len @ drop output_len out)"
    using drbg_fill_eq [OF assms(1) c1(2), of 0 output_len out] assms(4) c1(3) by (simp add: c2_def)
  have c2: "drbg_ok c2"
    using c1(2) by (simp add: c2_def drbg_ok_def length_hmac_drbg_V)
  obtain c3 where c3: "drbg_update st c2 [additional] = Some c3" "drbg_ok c3"
      "drbg_kv c3 = hmac_drbg_update (opt_data additional) (drbg_kv c2)" "d_reseed_counter c3 = d_reseed_counter c2"
    using drbg_update_eq [OF assms(1) c2 add] by auto
  have kv2: "drbg_kv c2 = (fst KV1, hmac_drbg_V (fst KV1) (snd KV1) ((output_len + 63) div 64))"
    using c1(3) by (auto simp: c2_def drbg_kv_def)
  have g: "hmac_drbg_generate (opt_data additional) (drbg_kv c) output_len =
      (hmac_drbg_update (opt_data additional) (drbg_kv c2), hmac_drbg_output KV1 output_len)"
    by (simp only: hmac_drbg_generate_def Let_def kv2 KV1_def)
  have "drbg_generate st (Some c) additional (Some out) output_len =
      Some (0, Some (c3\<lparr>d_reseed_counter := d_reseed_counter c3 + 1\<rparr>),
            Some (hmac_drbg_output KV1 output_len @ drop output_len out))"
    unfolding drbg_generate_def prod.case option.case(2) a0
    unfolding u_def [symmetric]
    using assms(3,6) a1 by (simp add: c1(1) fill c3 not_less)
  then show ?thesis
    using c3 c1(4) by (simp add: g c2_def)
qed

text \<open>
  C4: \<^verbatim>\<open>generate\<close> within its limits writes exactly the requested bytes of the output
  buffer, with the bits of SP 800-90A, leaves the standard's next state and counts the request.
\<close>

theorem drbg_generate_correct:
  assumes "hmac_ready st" and "drbg_ok c"
    and "output_len \<le> MAX_GENERATED_BYTES" and "output_len \<le> length out"
    and "length (opt_data additional) \<le> MAX_ADDITIONAL_BYTES" and "d_reseed_counter c \<le> RESEED_INTERVAL"
  shows "\<exists>c'. drbg_generate st (Some c) additional (Some out) output_len =
      Some (0, Some c', Some (snd (hmac_drbg_generate (opt_data additional) (drbg_kv c) output_len) @ drop output_len out)) \<and>
    drbg_ok c' \<and> drbg_kv c' = fst (hmac_drbg_generate (opt_data additional) (drbg_kv c) output_len) \<and>
    d_reseed_counter c' = d_reseed_counter c + 1"
  using assms by (rule drbg_generate_step)

theorem drbg_generate_correct_witness:
  "let st = \<lparr>h_hash = \<lparr>s_hash = [], s_length = 0, s_curlen = 0, s_buf = replicate 128 0xCC\<rparr>,
             h_padded_key = replicate 128 0xCC\<rparr>;
       c = \<lparr>d_key = replicate 64 7, d_val = replicate 64 9, d_reseed_counter = 128\<rparr>
   in \<exists>c'. drbg_generate st (Some c) None (Some (replicate 100 0)) 90 =
      Some (0, Some c', Some (snd (hmac_drbg_generate [] (drbg_kv c) 90) @ replicate 10 0)) \<and>
      d_reseed_counter c' = 129"
  using drbg_generate_correct
    [of "\<lparr>h_hash = \<lparr>s_hash = [], s_length = 0, s_curlen = 0, s_buf = replicate 128 0xCC\<rparr>,
             h_padded_key = replicate 128 0xCC\<rparr>"
        "\<lparr>d_key = replicate 64 7, d_val = replicate 64 9, d_reseed_counter = 128\<rparr>" 90 "replicate 100 0" None]
  by (auto simp: hmac_ready_def drbg_ok_def drbg_limits opt_data_def Let_def)

text \<open>
  The seeding calls: within their limits they leave a well-formed context with the state the
  standard computes from the concatenated seed material and a fresh counter.
\<close>

definition drbg_seed_ok :: "u8 list option \<Rightarrow> u8 list option \<Rightarrow> bool" where
  "drbg_seed_ok entropy extra \<longleftrightarrow> (\<exists>e. entropy = Some e \<and> MIN_ENTROPY_BYTES \<le> length e \<and>
     length e \<le> MAX_ENTROPY_BYTES) \<and> length (opt_data extra) \<le> MAX_PERSONAL_BYTES"

lemma drbg_reseed_eq:
  assumes "hmac_ready st" and "drbg_ok c" and "drbg_seed_ok entropy additional"
  shows "\<exists>c'. drbg_reseed st (Some c) entropy additional = Some (0, Some c') \<and> drbg_ok c' \<and>
    drbg_kv c' = hmac_drbg_update (opt_data entropy @ opt_data additional) (drbg_kv c) \<and>
    d_reseed_counter c' = 1"
proof -
  obtain e where e: "entropy = Some e" "MIN_ENTROPY_BYTES \<le> length e" "length e \<le> MAX_ENTROPY_BYTES"
    and p: "length (opt_data additional) \<le> MAX_PERSONAL_BYTES"
    using assms(3) by (auto simp: drbg_seed_ok_def)
  then have a: "\<not> (case additional of None \<Rightarrow> False | Some p \<Rightarrow> MAX_ADDITIONAL_BYTES < length p)"
    by (auto simp: opt_data_def drbg_limits split: option.splits)
  have "length (concat (map opt_data [entropy, additional])) < 2 ^ 60"
    using e p by (simp add: opt_data_def drbg_limits)
  from drbg_update_eq [OF assms(1,2) this] obtain c1 where
    "drbg_update st c [entropy, additional] = Some c1" "drbg_ok c1"
    "drbg_kv c1 = hmac_drbg_update (opt_data entropy @ opt_data additional) (drbg_kv c)"
    by auto
  with e a show ?thesis
    by (simp add: drbg_reseed_def not_less)
qed

lemma drbg_instantiate_reseed:
  "drbg_instantiate st (Some c) entropy personal =
     (case drbg_reseed st (Some (c\<lparr>d_key := replicate 64 0, d_val := replicate 64 1\<rparr>)) entropy personal of
        None \<Rightarrow> None
      | Some (r, c') \<Rightarrow> Some (r, if r = 0 then c' else Some c))"
  by (cases personal)
    (auto simp: drbg_instantiate_def drbg_reseed_def drbg_limits split: option.splits bind_splits)

lemma drbg_instantiate_eq:
  assumes "hmac_ready st" and "drbg_seed_ok entropy personal"
  shows "\<exists>c'. drbg_instantiate st (Some c) entropy personal = Some (0, Some c') \<and> drbg_ok c' \<and>
    drbg_kv c' = hmac_drbg_update (opt_data entropy @ opt_data personal) (replicate 64 0, replicate 64 1) \<and>
    d_reseed_counter c' = 1"
  using drbg_reseed_eq [OF assms(1) _ assms(2), of "c\<lparr>d_key := replicate 64 0, d_val := replicate 64 1\<rparr>"]
  by (auto simp: drbg_instantiate_reseed drbg_ok_def drbg_kv_def)

text \<open>A run of requests, and the counter that ends it.\<close>

fun drbg_requests :: "sha512_hmac_ctx \<Rightarrow> drbg_ctx \<Rightarrow> nat list \<Rightarrow> (int list \<times> drbg_ctx) option" where
  "drbg_requests st c [] = Some ([], c)"
| "drbg_requests st c (n # ns) = do {
     (r, c1, _) \<leftarrow> drbg_generate st (Some c) None (Some (replicate n 0)) n;
     (rs, c2) \<leftarrow> drbg_requests st (the c1) ns;
     Some (r # rs, c2) }"

lemma drbg_requests_append:
  "drbg_requests st c (ms @ ns) = drbg_requests st c ms \<bind>
     (\<lambda>(rs, c1). drbg_requests st c1 ns \<bind> (\<lambda>(qs, c2). Some (rs @ qs, c2)))"
  by (induction ms arbitrary: c) (auto split: prod.splits bind_splits)

lemma drbg_generate_exhausted:
  "RESEED_INTERVAL < d_reseed_counter c \<Longrightarrow> drbg_generate st (Some c) None (Some out) n = Some (-1, Some c, Some out)"
  by (simp add: drbg_generate_def)

lemma drbg_requests_exhausted:
  "RESEED_INTERVAL < d_reseed_counter c \<Longrightarrow>
     drbg_requests st c ns = Some (replicate (length ns) (-1), c)"
  by (induction ns) (simp_all add: drbg_generate_exhausted)

lemma drbg_requests_run:
  assumes st: "hmac_ready st"
  shows "drbg_ok c \<Longrightarrow> unat (d_reseed_counter c) + length ns \<le> 129 \<Longrightarrow> \<forall>n \<in> set ns. n \<le> MAX_GENERATED_BYTES \<Longrightarrow>
    \<exists>c'. drbg_requests st c ns = Some (replicate (length ns) 0, c') \<and> drbg_ok c' \<and>
      unat (d_reseed_counter c') = unat (d_reseed_counter c) + length ns"
proof (induction ns arbitrary: c)
  case (Cons n ns)
  have le: "d_reseed_counter c \<le> RESEED_INTERVAL"
    using Cons.prems(2) by (simp add: RESEED_INTERVAL_def word_le_nat_alt)
  obtain c1 where c1: "drbg_generate st (Some c) None (Some (replicate n 0)) n =
      Some (0, Some c1, Some (snd (hmac_drbg_generate [] (drbg_kv c) n)))" "drbg_ok c1"
    and k: "d_reseed_counter c1 = d_reseed_counter c + 1"
    using drbg_generate_step [OF st Cons.prems(1), of n "replicate n 0" None] Cons.prems(3) le
    by (auto simp: opt_data_def)
  have "unat (d_reseed_counter c1) = Suc (unat (d_reseed_counter c))"
    using Cons.prems(2) unfolding k by (simp add: unat_word_ariths)
  with Cons.IH [OF c1(2)] Cons.prems show ?case by (auto simp: c1)
qed simp



end
