(* ===== verification/Block.thy ===== *)
theory Block
  imports Prelude
begin

unbundle bit_operations_syntax

text \<open>
  What the block ciphers of \<^verbatim>\<open>ImBox/dc/crypto_lib\<close> share: the little-endian loads and stores
  of words, rotations, bytes of a word, and the interface of a block cipher under a key.
\<close>

section \<open>Words in a block\<close>

type_synonym quad = "u32 \<times> u32 \<times> u32 \<times> u32"

definition load32 :: "u8 list \<Rightarrow> nat \<Rightarrow> u32" where
  "load32 p i = of_nat (le_val (take 4 (drop i p)))"

definition store32 :: "u32 \<Rightarrow> u8 list" where
  "store32 v = le_bytes 4 (unat v)"

definition ld64 :: "u8 list \<Rightarrow> nat \<Rightarrow> u64" where
  "ld64 p i = of_nat (le_val (take 8 (drop i p)))"

definition st64 :: "u64 \<Rightarrow> u8 list" where
  "st64 v = le_bytes 8 (unat v)"

definition BYTE :: "u32 \<Rightarrow> nat \<Rightarrow> u8" where
  "BYTE x n = ucast (drop_bit (8 * n) x)"

definition ROL32 :: "u32 \<Rightarrow> nat \<Rightarrow> u32" where
  "ROL32 x n = word_rotl n x"

definition ROR32 :: "u32 \<Rightarrow> nat \<Rightarrow> u32" where
  "ROR32 x n = word_rotr n x"

lemma length_store32 [simp, len_simps]: "length (store32 v) = 4"
  by (simp add: store32_def)

lemma length_st64 [simp, len_simps]: "length (st64 v) = 8"
  by (simp add: st64_def)

lemma ROR_ROL [simp]: "ROR32 (ROL32 x n) n = x" and ROL_ROR [simp]: "ROL32 (ROR32 x n) n = x"
  by (simp_all add: ROL32_def ROR32_def word_rot_gal)

lemma of_nat_le_val_le_bytes_32: "of_nat (le_val (le_bytes 4 (unat v))) = (v :: u32)"
proof -
  have "unat v < 2 ^ LENGTH(32)" by (rule unsigned_less)
  then show ?thesis by (simp add: le_val_le_bytes)
qed

lemma of_nat_le_val_le_bytes_64: "of_nat (le_val (le_bytes 8 (unat v))) = (v :: u64)"
proof -
  have "unat v < 2 ^ LENGTH(64)" by (rule unsigned_less)
  then show ?thesis by (simp add: le_val_le_bytes)
qed

lemma load32_head [simp]: "load32 (store32 v @ p) 0 = v"
  by (simp add: load32_def store32_def of_nat_le_val_le_bytes_32)

lemma load32_tail [simp]: "4 \<le> i \<Longrightarrow> load32 (store32 v @ p) i = load32 p (i - 4)"
  by (simp add: load32_def)

lemma ld64_head [simp]: "ld64 (st64 v @ p) 0 = v"
  by (simp add: ld64_def st64_def of_nat_le_val_le_bytes_64)

lemma ld64_tail [simp]: "8 \<le> i \<Longrightarrow> ld64 (st64 v @ p) i = ld64 p (i - 8)"
  by (simp add: ld64_def)

lemma load32_last [simp]: "load32 (store32 v) 0 = v"
  using load32_head [of v "[]"] by simp

lemma ld64_last [simp]: "ld64 (st64 v) 0 = v"
  using ld64_head [of v "[]"] by simp

lemma store32_load32: "i + 4 \<le> length p \<Longrightarrow> store32 (load32 p i) = take 4 (drop i p)"
  using le_val_bound [of "take 4 (drop i p)"]
  by (simp add: store32_def load32_def unat_of_nat le_bytes_le_val)

lemma st64_ld64: "i + 8 \<le> length p \<Longrightarrow> st64 (ld64 p i) = take 8 (drop i p)"
  using le_val_bound [of "take 8 (drop i p)"]
  by (simp add: st64_def ld64_def unat_of_nat le_bytes_le_val)

lemma st64_xor: "st64 (a XOR b) = xor_bytes (st64 a) (st64 b)"
  by (simp add: st64_def unsigned_xor_eq le_bytes_xor)

lemma store32_xor: "store32 (a XOR b) = xor_bytes (store32 a) (store32 b)"
  by (simp add: store32_def unsigned_xor_eq le_bytes_xor)

lemma store32_block:
  assumes "length p = 16"
  shows "store32 (load32 p 0) @ store32 (load32 p 4) @ store32 (load32 p 8) @ store32 (load32 p 12) = p"
proof -
  have "take 4 p @ take 4 (drop 4 p) @ take 4 (drop 8 p) @ drop 12 p = p"
    using append_take_drop_id [of 4 p] append_take_drop_id [of 4 "drop 4 p"] append_take_drop_id [of 4 "drop 8 p"]
    by simp
  with assms show ?thesis by (simp add: store32_load32)
qed

lemma st64_block: "length p = 16 \<Longrightarrow> st64 (ld64 p 0) @ st64 (ld64 p 8) = p"
  using append_take_drop_id [of 8 p] by (simp add: st64_ld64)

lemma block_words:
  assumes "length p = 16"
  obtains a b c d where "p = store32 a @ store32 b @ store32 c @ store32 d"
  using store32_block [OF assms] by metis

text \<open>A fold is undone by the fold of inverse steps in reverse order.\<close>

lemma foldl_inverse: "(\<And>s n. g (f s n) n = s) \<Longrightarrow> foldl g (foldl f s ns) (rev ns) = s"
  by (induction ns arbitrary: s) auto

lemma foldl_inverse_list:
  "list_all2 (\<lambda>m n. \<forall>s. g (f s n) m = s) ms (rev ns) \<Longrightarrow> foldl g (foldl f s ns) ms = s"
proof (induction ns arbitrary: ms s rule: rev_induct)
  case (snoc n ns)
  then obtain m ms' where "ms = m # ms'" "\<forall>s. g (f s n) m = s" "list_all2 (\<lambda>m n. \<forall>s. g (f s n) m = s) ms' (rev ns)"
    by (auto simp: list_all2_Cons2)
  with snoc.IH show ?case by simp
qed simp

section \<open>The interface of a block cipher\<close>

locale block_cipher =
  fixes enc :: "u8 list \<Rightarrow> u8 list" and dec :: "u8 list \<Rightarrow> u8 list"
  assumes length_enc: "length p = 16 \<Longrightarrow> length (enc p) = 16"
    and length_dec: "length p = 16 \<Longrightarrow> length (dec p) = 16"
    and dec_enc: "length p = 16 \<Longrightarrow> dec (enc p) = p"
    and enc_dec: "length p = 16 \<Longrightarrow> enc (dec p) = p"
begin

lemma enc_inj: "length p = 16 \<Longrightarrow> length q = 16 \<Longrightarrow> enc p = enc q \<longleftrightarrow> p = q"
  by (metis dec_enc)

lemma inverse: "block_cipher dec enc"
  by unfold_locales (simp_all add: length_enc length_dec dec_enc enc_dec)

end

end
