(* ===== verification/Serpent.thy ===== *)
theory Serpent
  imports Block
begin

unbundle bit_operations_syntax

text \<open>
  \<^verbatim>\<open>ImBox/dc/crypto_lib/serpent.c\<close> with the gate sequences of \<^verbatim>\<open>serpent_sboxes.h\<close>: Serpent with
  256-bit keys, bitsliced over four 32-bit words. Shown here: at every bit position the gate
  sequences are the S-boxes of the Serpent paper and their inverses, and decryption inverts
  encryption for every key.
\<close>

section \<open>Gate sequences\<close>

text \<open>A macro changes the four words it is given; its local word is \<open>tt\<close>.\<close>

fun sE1 :: "quad \<Rightarrow> quad" where
  "sE1 (B0, B1, B2, B3) =
     (let tt = B1; B3 = B3 XOR B0; B1 = B1 AND B3; tt = tt XOR B2;
          B1 = B1 XOR B0; B0 = B0 OR B3; B0 = B0 XOR tt; tt = tt XOR B3;
          B3 = B3 XOR B2; B2 = B2 OR B1; B2 = B2 XOR tt; tt = NOT tt;
          tt = tt OR B1; B1 = B1 XOR B3; B1 = B1 XOR tt; B3 = B3 OR B0;
          B1 = B1 XOR B3; tt = tt XOR B3; B3 = B0; B0 = B1;
          B1 = tt
      in (B0, B1, B2, B3))"

fun sE2 :: "quad \<Rightarrow> quad" where
  "sE2 (B0, B1, B2, B3) =
     (let B0 = NOT B0; B2 = NOT B2; tt = B0; B0 = B0 AND B1;
          B2 = B2 XOR B0; B0 = B0 OR B3; B3 = B3 XOR B2; B1 = B1 XOR B0;
          B0 = B0 XOR tt; tt = tt OR B1; B1 = B1 XOR B3; B2 = B2 OR B0;
          B2 = B2 AND tt; B0 = B0 XOR B1; B1 = B1 AND B2; B1 = B1 XOR B0;
          B0 = B0 AND B2; tt = tt XOR B0; B0 = B2; B2 = B3;
          B3 = B1; B1 = tt
      in (B0, B1, B2, B3))"

fun sE3 :: "quad \<Rightarrow> quad" where
  "sE3 (B0, B1, B2, B3) =
     (let tt = B0; B0 = B0 AND B2; B0 = B0 XOR B3; B2 = B2 XOR B1;
          B2 = B2 XOR B0; B3 = B3 OR tt; B3 = B3 XOR B1; tt = tt XOR B2;
          B1 = B3; B3 = B3 OR tt; B3 = B3 XOR B0; B0 = B0 AND B1;
          tt = tt XOR B0; B1 = B1 XOR B3; B1 = B1 XOR tt; B0 = B2;
          B2 = B1; B1 = B3; B3 = NOT tt
      in (B0, B1, B2, B3))"

fun sE4 :: "quad \<Rightarrow> quad" where
  "sE4 (B0, B1, B2, B3) =
     (let tt = B0; B0 = B0 OR B3; B3 = B3 XOR B1; B1 = B1 AND tt;
          tt = tt XOR B2; B2 = B2 XOR B3; B3 = B3 AND B0; tt = tt OR B1;
          B3 = B3 XOR tt; B0 = B0 XOR B1; tt = tt AND B0; B1 = B1 XOR B3;
          tt = tt XOR B2; B1 = B1 OR B0; B1 = B1 XOR B2; B0 = B0 XOR B3;
          B2 = B1; B1 = B1 OR B3; B0 = B0 XOR B1; B1 = B2;
          B2 = B3; B3 = tt
      in (B0, B1, B2, B3))"

fun sE5 :: "quad \<Rightarrow> quad" where
  "sE5 (B0, B1, B2, B3) =
     (let B1 = B1 XOR B3; B3 = NOT B3; B2 = B2 XOR B3; B3 = B3 XOR B0;
          tt = B1; B1 = B1 AND B3; B1 = B1 XOR B2; tt = tt XOR B3;
          B0 = B0 XOR tt; B2 = B2 AND tt; B2 = B2 XOR B0; B0 = B0 AND B1;
          B3 = B3 XOR B0; tt = tt OR B1; tt = tt XOR B0; B0 = B0 OR B3;
          B0 = B0 XOR B2; B2 = B2 AND B3; B0 = NOT B0; tt = tt XOR B2;
          B2 = B0; B0 = B1; B1 = tt
      in (B0, B1, B2, B3))"

fun sE6 :: "quad \<Rightarrow> quad" where
  "sE6 (B0, B1, B2, B3) =
     (let B0 = B0 XOR B1; B1 = B1 XOR B3; B3 = NOT B3; tt = B1;
          B1 = B1 AND B0; B2 = B2 XOR B3; B1 = B1 XOR B2; B2 = B2 OR tt;
          tt = tt XOR B3; B3 = B3 AND B1; B3 = B3 XOR B0; tt = tt XOR B1;
          tt = tt XOR B2; B2 = B2 XOR B0; B0 = B0 AND B3; B2 = NOT B2;
          B0 = B0 XOR tt; tt = tt OR B3; tt = tt XOR B2; B2 = B0;
          B0 = B1; B1 = B3; B3 = tt
      in (B0, B1, B2, B3))"

fun sE7 :: "quad \<Rightarrow> quad" where
  "sE7 (B0, B1, B2, B3) =
     (let B2 = NOT B2; tt = B3; B3 = B3 AND B0; B0 = B0 XOR tt;
          B3 = B3 XOR B2; B2 = B2 OR tt; B1 = B1 XOR B3; B2 = B2 XOR B0;
          B0 = B0 OR B1; B2 = B2 XOR B1; tt = tt XOR B0; B0 = B0 OR B3;
          B0 = B0 XOR B2; tt = tt XOR B3; tt = tt XOR B0; B3 = NOT B3;
          B2 = B2 AND tt; B3 = B3 XOR B2; B2 = tt
      in (B0, B1, B2, B3))"

fun sE8 :: "quad \<Rightarrow> quad" where
  "sE8 (B0, B1, B2, B3) =
     (let tt = B1; B1 = B1 OR B2; B1 = B1 XOR B3; tt = tt XOR B2;
          B2 = B2 XOR B1; B3 = B3 OR tt; B3 = B3 AND B0; tt = tt XOR B2;
          B3 = B3 XOR B1; B1 = B1 OR tt; B1 = B1 XOR B0; B0 = B0 OR tt;
          B0 = B0 XOR B2; B1 = B1 XOR tt; B2 = B2 XOR B1; B1 = B1 AND B0;
          B1 = B1 XOR tt; B2 = NOT B2; B2 = B2 OR B0; tt = tt XOR B2;
          B2 = B1; B1 = B3; B3 = B0; B0 = tt
      in (B0, B1, B2, B3))"

fun sD1 :: "quad \<Rightarrow> quad" where
  "sD1 (B0, B1, B2, B3) =
     (let tt = B1; B2 = NOT B2; B1 = B1 OR B0; tt = NOT tt;
          B1 = B1 XOR B2; B2 = B2 OR tt; B1 = B1 XOR B3; B0 = B0 XOR tt;
          B2 = B2 XOR B0; B0 = B0 AND B3; tt = tt XOR B0; B0 = B0 OR B1;
          B0 = B0 XOR B2; B3 = B3 XOR tt; B2 = B2 XOR B1; B3 = B3 XOR B0;
          B3 = B3 XOR B1; B2 = B2 AND B3; tt = tt XOR B2; B2 = B1;
          B1 = tt
      in (B0, B1, B2, B3))"

fun sD2 :: "quad \<Rightarrow> quad" where
  "sD2 (B0, B1, B2, B3) =
     (let tt = B1; B1 = B1 XOR B3; B3 = B3 AND B1; tt = tt XOR B2;
          B3 = B3 XOR B0; B0 = B0 OR B1; B2 = B2 XOR B3; B0 = B0 XOR tt;
          B0 = B0 OR B2; B1 = B1 XOR B3; B0 = B0 XOR B1; B1 = B1 OR B3;
          B1 = B1 XOR B0; tt = NOT tt; tt = tt XOR B1; B1 = B1 OR B0;
          B1 = B1 XOR B0; B1 = B1 OR tt; B3 = B3 XOR B1; B1 = B0;
          B0 = tt; tt = B2; B2 = B3; B3 = tt
      in (B0, B1, B2, B3))"

fun sD3 :: "quad \<Rightarrow> quad" where
  "sD3 (B0, B1, B2, B3) =
     (let B2 = B2 XOR B3; B3 = B3 XOR B0; tt = B3; B3 = B3 AND B2;
          B3 = B3 XOR B1; B1 = B1 OR B2; B1 = B1 XOR tt; tt = tt AND B3;
          B2 = B2 XOR B3; tt = tt AND B0; tt = tt XOR B2; B2 = B2 AND B1;
          B2 = B2 OR B0; B3 = NOT B3; B2 = B2 XOR B3; B0 = B0 XOR B3;
          B0 = B0 AND B1; B3 = B3 XOR tt; B3 = B3 XOR B0; B0 = B1;
          B1 = tt
      in (B0, B1, B2, B3))"

fun sD4 :: "quad \<Rightarrow> quad" where
  "sD4 (B0, B1, B2, B3) =
     (let tt = B2; B2 = B2 XOR B1; B0 = B0 XOR B2; tt = tt AND B2;
          tt = tt XOR B0; B0 = B0 AND B1; B1 = B1 XOR B3; B3 = B3 OR tt;
          B2 = B2 XOR B3; B0 = B0 XOR B3; B1 = B1 XOR tt; B3 = B3 AND B2;
          B3 = B3 XOR B1; B1 = B1 XOR B0; B1 = B1 OR B2; B0 = B0 XOR B3;
          B1 = B1 XOR tt; B0 = B0 XOR B1; tt = B0; B0 = B2;
          B2 = B3; B3 = tt
      in (B0, B1, B2, B3))"

fun sD5 :: "quad \<Rightarrow> quad" where
  "sD5 (B0, B1, B2, B3) =
     (let tt = B2; B2 = B2 AND B3; B2 = B2 XOR B1; B1 = B1 OR B3;
          B1 = B1 AND B0; tt = tt XOR B2; tt = tt XOR B1; B1 = B1 AND B2;
          B0 = NOT B0; B3 = B3 XOR tt; B1 = B1 XOR B3; B3 = B3 AND B0;
          B3 = B3 XOR B2; B0 = B0 XOR B1; B2 = B2 AND B0; B3 = B3 XOR B0;
          B2 = B2 XOR tt; B2 = B2 OR B3; B3 = B3 XOR B0; B2 = B2 XOR B1;
          B1 = B3; B3 = tt
      in (B0, B1, B2, B3))"

fun sD6 :: "quad \<Rightarrow> quad" where
  "sD6 (B0, B1, B2, B3) =
     (let tt = B3; B1 = NOT B1; B2 = B2 XOR B1; B3 = B3 OR B0;
          B3 = B3 XOR B2; B2 = B2 OR B1; B2 = B2 AND B0; tt = tt XOR B3;
          B2 = B2 XOR tt; tt = tt OR B0; tt = tt XOR B1; B1 = B1 AND B2;
          B1 = B1 XOR B3; tt = tt XOR B2; B3 = B3 AND tt; tt = tt XOR B1;
          B3 = B3 XOR tt; tt = NOT tt; B3 = B3 XOR B0; B0 = B1;
          B1 = tt; tt = B3; B3 = B2; B2 = tt
      in (B0, B1, B2, B3))"

fun sD7 :: "quad \<Rightarrow> quad" where
  "sD7 (B0, B1, B2, B3) =
     (let tt = B2; B0 = B0 XOR B2; B2 = B2 AND B0; tt = tt XOR B3;
          B2 = NOT B2; B3 = B3 XOR B1; B2 = B2 XOR B3; tt = tt OR B0;
          B0 = B0 XOR B2; B3 = B3 XOR tt; tt = tt XOR B1; B1 = B1 AND B3;
          B1 = B1 XOR B0; B0 = B0 XOR B3; B0 = B0 OR B2; B3 = B3 XOR B1;
          tt = tt XOR B0; B0 = B1; B1 = B2; B2 = tt
      in (B0, B1, B2, B3))"

fun sD8 :: "quad \<Rightarrow> quad" where
  "sD8 (B0, B1, B2, B3) =
     (let tt = B2; B2 = B2 XOR B0; B0 = B0 AND B3; tt = tt OR B3;
          B2 = NOT B2; B3 = B3 XOR B1; B1 = B1 OR B0; B0 = B0 XOR B2;
          B2 = B2 AND tt; B3 = B3 AND tt; B1 = B1 XOR B2; B2 = B2 XOR B0;
          B0 = B0 OR B2; tt = tt XOR B1; B0 = B0 XOR B3; B3 = B3 XOR tt;
          tt = tt OR B0; B3 = B3 XOR B2; tt = tt XOR B2; B2 = B1;
          B1 = B0; B0 = B3; B3 = tt
      in (B0, B1, B2, B3))"

fun SB_LT :: "quad \<Rightarrow> quad" where
  "SB_LT (B0, B1, B2, B3) =
     (let B0 = ROL32 B0 13; B2 = ROL32 B2 3; B1 = B1 XOR B0; B1 = B1 XOR B2;
          B3 = B3 XOR B2; B3 = B3 XOR push_bit 3 B0; B1 = ROL32 B1 1; B3 = ROL32 B3 7;
          B0 = B0 XOR B1; B0 = B0 XOR B3; B2 = B2 XOR B3; B2 = B2 XOR push_bit 7 B1;
          B0 = ROL32 B0 5; B2 = ROL32 B2 22
      in (B0, B1, B2, B3))"

fun SB_ILT :: "quad \<Rightarrow> quad" where
  "SB_ILT (B0, B1, B2, B3) =
     (let B2 = ROL32 B2 10; B0 = ROL32 B0 27; B2 = B2 XOR B3; B2 = B2 XOR push_bit 7 B1;
          B0 = B0 XOR B1; B0 = B0 XOR B3; B3 = ROL32 B3 25; B1 = ROL32 B1 31;
          B3 = B3 XOR B2; B3 = B3 XOR push_bit 3 B0; B1 = B1 XOR B0; B1 = B1 XOR B2;
          B2 = ROL32 B2 29; B0 = ROL32 B0 19
      in (B0, B1, B2, B3))"

section \<open>Key schedule\<close>

definition PHI :: u32 where "PHI = 0x9e3779b9"

record serpent256_key = expkey :: "u32 list"

text \<open>The prekey array \<^verbatim>\<open>ws\<close>: eight words of the key, then the recurrence.\<close>

definition serpent_next :: "u32 list \<Rightarrow> nat \<Rightarrow> u32 list" where
  "serpent_next ws i =
     ws @ [ROL32 (ws ! i XOR ws ! (i + 3) XOR ws ! (i + 5) XOR ws ! (i + 7) XOR PHI XOR of_nat i) 11]"

definition serpent_prekeys :: "u8 list \<Rightarrow> u32 list" where
  "serpent_prekeys key = foldl serpent_next (map (\<lambda>i. load32 key (i * 4)) [0..<8]) [0..<132]"

definition serpent_key_sbox :: "nat \<Rightarrow> quad \<Rightarrow> quad" where
  "serpent_key_sbox i = [sE4, sE3, sE2, sE1, sE8, sE7, sE6, sE5] ! (i mod 8)"

fun quad_list :: "quad \<Rightarrow> u32 list" where
  "quad_list (a, b, c, d) = [a, b, c, d]"

definition serpent256_set_key :: "u8 list \<Rightarrow> serpent256_key" where
  "serpent256_set_key key =
     (let ws = serpent_prekeys key in
      \<lparr>expkey = concat (map (\<lambda>i. quad_list (serpent_key_sbox i
          (ws ! (8 + i * 4 + 0), ws ! (8 + i * 4 + 1), ws ! (8 + i * 4 + 2), ws ! (8 + i * 4 + 3)))) [0..<33])\<rparr>)"

section \<open>The block transform\<close>

fun KX :: "serpent256_key \<Rightarrow> nat \<Rightarrow> quad \<Rightarrow> quad" where
  "KX key r (x0, x1, x2, x3) =
     (x0 XOR expkey key ! (4 * r + 0), x1 XOR expkey key ! (4 * r + 1),
      x2 XOR expkey key ! (4 * r + 2), x3 XOR expkey key ! (4 * r + 3))"

definition SP_ENC_ROUND :: "serpent256_key \<Rightarrow> quad \<Rightarrow> nat \<times> (quad \<Rightarrow> quad) \<Rightarrow> quad" where
  "SP_ENC_ROUND key x rsb = SB_LT (snd rsb (KX key (fst rsb) x))"

definition SP_DEC_ROUND :: "serpent256_key \<Rightarrow> quad \<Rightarrow> nat \<times> (quad \<Rightarrow> quad) \<Rightarrow> quad" where
  "SP_DEC_ROUND key x rsb = KX key (fst rsb) (snd rsb (SB_ILT x))"

definition sp_load :: "u8 list \<Rightarrow> quad" where
  "sp_load p = (load32 p 0, load32 p 4, load32 p 8, load32 p 12)"

fun sp_store :: "quad \<Rightarrow> u8 list" where
  "sp_store (x0, x1, x2, x3) = store32 x0 @ store32 x1 @ store32 x2 @ store32 x3"

definition sp_enc_rounds :: "(nat \<times> (quad \<Rightarrow> quad)) list" where
  "sp_enc_rounds =
     [(0, sE1), (1, sE2), (2, sE3), (3, sE4), (4, sE5), (5, sE6), (6, sE7), (7, sE8),
      (8, sE1), (9, sE2), (10, sE3), (11, sE4), (12, sE5), (13, sE6), (14, sE7), (15, sE8),
      (16, sE1), (17, sE2), (18, sE3), (19, sE4), (20, sE5), (21, sE6), (22, sE7), (23, sE8),
      (24, sE1), (25, sE2), (26, sE3), (27, sE4), (28, sE5), (29, sE6), (30, sE7)]"

definition sp_dec_rounds :: "(nat \<times> (quad \<Rightarrow> quad)) list" where
  "sp_dec_rounds =
     [(30, sD7), (29, sD6), (28, sD5), (27, sD4), (26, sD3), (25, sD2), (24, sD1), (23, sD8),
      (22, sD7), (21, sD6), (20, sD5), (19, sD4), (18, sD3), (17, sD2), (16, sD1), (15, sD8),
      (14, sD7), (13, sD6), (12, sD5), (11, sD4), (10, sD3), (9, sD2), (8, sD1), (7, sD8),
      (6, sD7), (5, sD6), (4, sD5), (3, sD4), (2, sD3), (1, sD2), (0, sD1)]"

definition serpent256_encrypt :: "serpent256_key \<Rightarrow> u8 list \<Rightarrow> u8 list" where
  "serpent256_encrypt key inp =
     (let x = foldl (SP_ENC_ROUND key) (sp_load inp) sp_enc_rounds
      in sp_store (KX key 32 (sE8 (KX key 31 x))))"

definition serpent256_decrypt :: "serpent256_key \<Rightarrow> u8 list \<Rightarrow> u8 list" where
  "serpent256_decrypt key inp =
     (let x = KX key 31 (sD8 (KX key 32 (sp_load inp)))
      in sp_store (foldl (SP_DEC_ROUND key) x sp_dec_rounds))"

section \<open>The S-boxes of the paper\<close>

definition S_tables :: "nat list list" where
  "S_tables = [
    [3, 8, 15, 1, 10, 6, 5, 11, 14, 13, 4, 2, 7, 0, 9, 12],
    [15, 12, 2, 7, 9, 0, 5, 10, 1, 11, 14, 8, 6, 13, 3, 4],
    [8, 6, 7, 9, 3, 12, 10, 15, 13, 1, 14, 4, 0, 11, 5, 2],
    [0, 15, 11, 8, 12, 9, 6, 3, 13, 1, 2, 4, 10, 7, 5, 14],
    [1, 15, 8, 3, 12, 0, 11, 6, 2, 5, 4, 10, 9, 14, 7, 13],
    [15, 5, 2, 11, 4, 10, 9, 12, 0, 3, 14, 8, 13, 6, 7, 1],
    [7, 2, 12, 5, 8, 4, 6, 11, 14, 9, 1, 15, 13, 3, 10, 0],
    [1, 13, 15, 0, 14, 8, 2, 11, 7, 4, 12, 10, 9, 3, 5, 6]]"

text \<open>The four-bit number a bitsliced state holds at bit position \<open>n\<close>.\<close>

fun nib :: "quad \<Rightarrow> nat \<Rightarrow> nat" where
  "nib (a, b, c, d) n = of_bool (bit a n) + 2 * of_bool (bit b n) + 4 * of_bool (bit c n) + 8 * of_bool (bit d n)"

lemma of_bool_nibble_eq:
  "of_bool a + 2 * of_bool b + 4 * of_bool c + 8 * of_bool d =
     (of_bool a' + 2 * of_bool b' + 4 * of_bool c' + 8 * of_bool d' :: nat) \<longleftrightarrow>
   a = a' \<and> b = b' \<and> c = c' \<and> d = d'"
  by (cases a; cases b; cases c; cases d; cases a'; cases b'; cases c'; cases d'; simp)

lemma quad_eqI: 
  assumes "\<And>n. n < 32 \<Longrightarrow> nib p n = nib q n" shows "p = q"
proof -
  obtain a b c d where p: "p = (a, b, c, d)" by (metis prod_cases4)
  obtain a' b' c' d' where q: "q = (a', b', c', d')" by (metis prod_cases4)
  have "bit a n = bit a' n \<and> bit b n = bit b' n \<and> bit c n = bit c' n \<and> bit d n = bit d' n" if "n < 32" for n
    using assms [OF that] unfolding p q nib.simps of_bool_nibble_eq .
  then show ?thesis
    unfolding p q prod.inject by (intro conjI bit_word_eqI) auto
qed

text \<open>Case distinction on the four bits a position holds.\<close>

lemma nib_less: "nib q n < 16"
  by (cases q) auto

lemmas gate_simps = Let_def nib.simps S_tables_def bit_simps

lemma sE_nib:
  assumes "n < 32"
  shows "nib (sE1 q) n = S_tables ! 0 ! nib q n" "nib (sE2 q) n = S_tables ! 1 ! nib q n"
    "nib (sE3 q) n = S_tables ! 2 ! nib q n" "nib (sE4 q) n = S_tables ! 3 ! nib q n"
    "nib (sE5 q) n = S_tables ! 4 ! nib q n" "nib (sE6 q) n = S_tables ! 5 ! nib q n"
    "nib (sE7 q) n = S_tables ! 6 ! nib q n" "nib (sE8 q) n = S_tables ! 7 ! nib q n"
proof -
  obtain a b c d where q: "q = (a, b, c, d)" by (metis prod_cases4)
  show "nib (sE1 q) n = S_tables ! 0 ! nib q n" "nib (sE2 q) n = S_tables ! 1 ! nib q n"
    "nib (sE3 q) n = S_tables ! 2 ! nib q n" "nib (sE4 q) n = S_tables ! 3 ! nib q n"
    "nib (sE5 q) n = S_tables ! 4 ! nib q n" "nib (sE6 q) n = S_tables ! 5 ! nib q n"
    "nib (sE7 q) n = S_tables ! 6 ! nib q n" "nib (sE8 q) n = S_tables ! 7 ! nib q n"
    unfolding q using assms
    by (cases "bit a n"; cases "bit b n"; cases "bit c n"; cases "bit d n"; simp add: gate_simps)+
qed

lemma sD_nib:
  assumes "n < 32"
  shows "S_tables ! 0 ! nib (sD1 q) n = nib q n" "S_tables ! 1 ! nib (sD2 q) n = nib q n"
    "S_tables ! 2 ! nib (sD3 q) n = nib q n" "S_tables ! 3 ! nib (sD4 q) n = nib q n"
    "S_tables ! 4 ! nib (sD5 q) n = nib q n" "S_tables ! 5 ! nib (sD6 q) n = nib q n"
    "S_tables ! 6 ! nib (sD7 q) n = nib q n" "S_tables ! 7 ! nib (sD8 q) n = nib q n"
proof -
  obtain a b c d where q: "q = (a, b, c, d)" by (metis prod_cases4)
  show "S_tables ! 0 ! nib (sD1 q) n = nib q n" "S_tables ! 1 ! nib (sD2 q) n = nib q n"
    "S_tables ! 2 ! nib (sD3 q) n = nib q n" "S_tables ! 3 ! nib (sD4 q) n = nib q n"
    "S_tables ! 4 ! nib (sD5 q) n = nib q n" "S_tables ! 5 ! nib (sD6 q) n = nib q n"
    "S_tables ! 6 ! nib (sD7 q) n = nib q n" "S_tables ! 7 ! nib (sD8 q) n = nib q n"
    unfolding q using assms
    by (cases "bit a n"; cases "bit b n"; cases "bit c n"; cases "bit d n"; simp add: gate_simps)+
qed

section \<open>Inverses\<close>

lemma ROL32_cancel:
  assumes "m + n = 32"
  shows "ROL32 (ROL32 x m) n = x"
proof (rule bit_word_eqI)
  fix i assume "i < LENGTH(32)"
  then have i: "i < 32" by simp
  have "(((i + (32 - n mod 32)) mod 32 + (32 - m mod 32)) mod 32) = (i + (32 - n mod 32) + (32 - m mod 32)) mod 32"
    by (subst mod_add_left_eq) (rule refl)
  also have "\<dots> = i"
  proof (cases "n = 0 \<or> n = 32")
    case True
    then show ?thesis using assms i by (auto simp: le_mod_geq)
  next
    case False
    then have "i + (32 - n mod 32) + (32 - m mod 32) = i + 32" using assms by simp
    then show ?thesis using i by simp
  qed
  finally show "bit (ROL32 (ROL32 x m) n) i = bit x i"
    using i by (simp add: ROL32_def bit_word_rotl_iff)
qed

lemma ROL32_pairs [simp]:
  "ROL32 (ROL32 x 13) 19 = x" "ROL32 (ROL32 x 3) 29 = x" "ROL32 (ROL32 x (Suc 0)) 31 = x"
  "ROL32 (ROL32 x 7) 25 = x" "ROL32 (ROL32 x 5) 27 = x" "ROL32 (ROL32 x 22) 10 = x"
  "ROL32 (ROL32 x 19) 13 = x" "ROL32 (ROL32 x 29) 3 = x" "ROL32 (ROL32 x 31) (Suc 0) = x"
  "ROL32 (ROL32 x 25) 7 = x" "ROL32 (ROL32 x 27) 5 = x" "ROL32 (ROL32 x 10) 22 = x"
  by (rule ROL32_cancel; simp)+

lemma xor_self_left: "x XOR (x XOR y) = (y :: u32)"
  by (simp flip: xor.assoc)

lemmas xor_ac = xor.assoc xor.commute xor.left_commute xor_self_left

lemma SB_ILT_LT: "SB_ILT (SB_LT q) = q"
  by (cases q rule: prod_cases4) (simp add: Let_def xor_ac)

lemma SB_LT_ILT: "SB_LT (SB_ILT q) = q"
  by (cases q rule: prod_cases4) (simp add: Let_def xor_ac)

lemma KX_KX [simp]: "KX key r (KX key r q) = q"
  by (cases q rule: prod_cases4) (simp add: xor.assoc)

lemma S_tables_inj:
  assumes "k < 8" "x < 16" "y < 16" "S_tables ! k ! x = S_tables ! k ! y" shows "x = y"
proof -
  have "\<forall>t \<in> set S_tables. distinct t \<and> length t = 16" by (simp add: S_tables_def)
  moreover have "S_tables ! k \<in> set S_tables" using assms(1) by (intro nth_mem) (simp add: S_tables_def)
  ultimately have "distinct (S_tables ! k)" "length (S_tables ! k) = 16" by auto
  with assms(2-4) show ?thesis by (simp add: nth_eq_iff_index_eq)
qed

lemma sE_sD: "sE1 (sD1 q) = q" "sE2 (sD2 q) = q" "sE3 (sD3 q) = q" "sE4 (sD4 q) = q"
  "sE5 (sD5 q) = q" "sE6 (sD6 q) = q" "sE7 (sD7 q) = q" "sE8 (sD8 q) = q"
  by (rule quad_eqI, simp only: sE_nib sD_nib)+

lemma sD_sE_gen:
  assumes "k < 8" and "\<And>n q. n < 32 \<Longrightarrow> nib (E q) n = S_tables ! k ! nib q n"
    and "\<And>n q. n < 32 \<Longrightarrow> S_tables ! k ! nib (D q) n = nib q n"
  shows "D (E q) = q"
proof (rule quad_eqI)
  fix n :: nat assume n: "n < 32"
  have "S_tables ! k ! nib (D (E q)) n = S_tables ! k ! nib q n"
    using n by (simp only: assms(2,3))
  then show "nib (D (E q)) n = nib q n"
    by (rule S_tables_inj [OF assms(1) nib_less nib_less])
qed

lemma sD_sE: "sD1 (sE1 q) = q" "sD2 (sE2 q) = q" "sD3 (sE3 q) = q" "sD4 (sE4 q) = q"
  "sD5 (sE5 q) = q" "sD6 (sE6 q) = q" "sD7 (sE7 q) = q" "sD8 (sE8 q) = q"
  by (rule sD_sE_gen [OF _ sE_nib(1) sD_nib(1)], simp, assumption, assumption,
      rule sD_sE_gen [OF _ sE_nib(2) sD_nib(2)], simp, assumption, assumption,
      rule sD_sE_gen [OF _ sE_nib(3) sD_nib(3)], simp, assumption, assumption,
      rule sD_sE_gen [OF _ sE_nib(4) sD_nib(4)], simp, assumption, assumption,
      rule sD_sE_gen [OF _ sE_nib(5) sD_nib(5)], simp, assumption, assumption,
      rule sD_sE_gen [OF _ sE_nib(6) sD_nib(6)], simp, assumption, assumption,
      rule sD_sE_gen [OF _ sE_nib(7) sD_nib(7)], simp, assumption, assumption,
      rule sD_sE_gen [OF _ sE_nib(8) sD_nib(8)], simp, assumption, assumption)

lemma sp_rounds_inverse:
  "foldl (SP_DEC_ROUND key) (foldl (SP_ENC_ROUND key) s sp_enc_rounds) sp_dec_rounds = s"
  "foldl (SP_ENC_ROUND key) (foldl (SP_DEC_ROUND key) s sp_dec_rounds) sp_enc_rounds = s"
  by (rule foldl_inverse_list;
      simp add: sp_enc_rounds_def sp_dec_rounds_def SP_ENC_ROUND_def SP_DEC_ROUND_def SB_ILT_LT SB_LT_ILT sD_sE sE_sD
        del: sE1.simps sE2.simps sE3.simps sE4.simps sE5.simps sE6.simps sE7.simps sE8.simps
          sD1.simps sD2.simps sD3.simps sD4.simps sD5.simps sD6.simps sD7.simps sD8.simps SB_LT.simps SB_ILT.simps KX.simps)+

lemma sp_load_store [simp]: "sp_load (sp_store x) = x"
  by (cases x rule: prod_cases4) (simp add: sp_load_def)

lemma sp_store_load: "length p = 16 \<Longrightarrow> sp_store (sp_load p) = p"
  by (simp add: sp_load_def store32_block)

lemma length_sp_store [simp, len_simps]: "length (sp_store x) = 16"
  by (cases x rule: prod_cases4) simp

interpretation sp: block_cipher "serpent256_encrypt key" "serpent256_decrypt key" for key
  by unfold_locales
    (simp_all add: serpent256_encrypt_def serpent256_decrypt_def Let_def sp_store_load sD_sE sE_sD sp_rounds_inverse
        del: sE8.simps sD8.simps KX.simps sp_store.simps)

text \<open>
  C7: the gate sequences of \<^verbatim>\<open>serpent_sboxes.h\<close> are correct: at every bit position, each
  forward sequence maps the four bits by its S-box table, and each inverse one maps them back.
\<close>

theorem serpent_sboxes_correct:
  assumes "i < 8" and "n < 32"
  shows "nib (([sE1, sE2, sE3, sE4, sE5, sE6, sE7, sE8] ! i) q) n = S_tables ! i ! nib q n \<and>
    S_tables ! i ! nib (([sD1, sD2, sD3, sD4, sD5, sD6, sD7, sD8] ! i) q) n = nib q n"
proof -
  from assms(1) consider "i = 0" | "i = 1" | "i = 2" | "i = 3" | "i = 4" | "i = 5" | "i = 6" | "i = 7"
    by linarith
  then show ?thesis
    using sE_nib [OF assms(2), of q] sD_nib [OF assms(2), of q] by cases simp_all
qed

theorem serpent_sboxes_correct_witness:
  "(2 :: nat) < 8 \<and> (31 :: nat) < 32 \<and>
   nib (([sE1, sE2, sE3, sE4, sE5, sE6, sE7, sE8] ! 2) (1, 0xFFFFFFFF, 0x80000000, 7)) 31 =
     S_tables ! 2 ! nib (1, 0xFFFFFFFF, 0x80000000, 7) 31"
  using serpent_sboxes_correct [of 2 31 "(1, 0xFFFFFFFF, 0x80000000, 7)"] by (simp only: simp_thms numeral_less_iff) simp

text \<open>C8: for every key schedule, Serpent decryption returns the encrypted block, and is onto.\<close>

theorem serpent256_inverse:
  assumes "length p = 16"
  shows "serpent256_decrypt key (serpent256_encrypt key p) = p \<and>
    serpent256_encrypt key (serpent256_decrypt key p) = p"
  using sp.dec_enc [OF assms] sp.enc_dec [OF assms] by simp

theorem serpent256_inverse_witness:
  "length (replicate 16 3 :: u8 list) = 16 \<and>
   serpent256_decrypt (serpent256_set_key (replicate 32 9)) (serpent256_encrypt (serpent256_set_key (replicate 32 9)) (replicate 16 3)) =
     replicate 16 3"
  using serpent256_inverse [of "replicate 16 3"] by (simp only: length_replicate simp_thms)

end
