(* ===== verification/Xts_Mode.thy ===== *)
theory Xts_Mode
  imports Block Aes_Key Twofish Serpent
begin

unbundle bit_operations_syntax

text \<open>
  \<^verbatim>\<open>ImBox/dc/crypto_lib/xts_fast.c\<close>, the mode: the macro \<^verbatim>\<open>DEF_XTS_PROC\<close> over 512-byte sectors, and
  the key structure of \<^verbatim>\<open>xts_fast.h\<close>. The reference is XTS of IEEE 1619 with the tweak as one
  128-bit number.

  A call reads \<open>len\<close> bytes and writes \<open>len\<close> bytes, block by block, each block read before it is
  written, so \<open>in\<close> and \<open>out\<close> may be the same buffer; the model takes the bytes from \<open>in\<close> on and
  returns the bytes written. Reading behind the end of the buffer is \<open>None\<close>.
\<close>

section \<open>Scalar XTS\<close>

definition XTS_SECTOR_SIZE :: nat where "XTS_SECTOR_SIZE = 512"

text \<open>The tweak \<open>(t0, t1)\<close>, and the multiplication by \<open>\<alpha>\<close> that advances it.\<close>

fun tweak_next :: "u64 \<times> u64 \<Rightarrow> u64 \<times> u64" where
  "tweak_next (t0, t1) =
     (let cf = drop_bit 63 t1 * 135;
          t1 = push_bit 1 t1 OR drop_bit 63 t0;
          t0 = push_bit 1 t0 XOR cf
      in (t0, t1))"

fun xor_tweak :: "u64 \<times> u64 \<Rightarrow> u8 list \<Rightarrow> u8 list" where
  "xor_tweak (t0, t1) b = st64 (ld64 b 0 XOR t0) @ st64 (ld64 b 8 XOR t1)"

text \<open>The inner loop: \<open>n\<close> more blocks of the sector.\<close>

primrec xts_blocks :: "(u8 list \<Rightarrow> u8 list) \<Rightarrow> nat \<Rightarrow> u64 \<times> u64 \<Rightarrow> u8 list \<Rightarrow> u8 list" where
  "xts_blocks crypt 0 t inp = []"
| "xts_blocks crypt (Suc n) t inp =
     (let out = xor_tweak t (take 16 inp);
          out = crypt out;
          out = xor_tweak t out
      in out @ xts_blocks crypt n (tweak_next t) (drop 16 inp))"

definition xts_tweak :: "(u8 list \<Rightarrow> u8 list) \<Rightarrow> u64 \<Rightarrow> u64 \<times> u64" where
  "xts_tweak tweak sector = (let tw = tweak (st64 sector @ st64 0) in (ld64 tw 0, ld64 tw 8))"

text \<open>The loop over the sectors; \<open>len\<close> is unsigned, and reaches 0 only from a multiple of 512.\<close>

function xts_sectors ::
  "(u8 list \<Rightarrow> u8 list) \<Rightarrow> (u8 list \<Rightarrow> u8 list) \<Rightarrow> u64 \<Rightarrow> u64 \<Rightarrow> u8 list \<Rightarrow> u8 list option" where
  "xts_sectors tweak crypt sector len inp =
     (let sector = sector + 1 in
      if length inp < XTS_SECTOR_SIZE then None
      else
        (let out = xts_blocks crypt 32 (xts_tweak tweak sector) inp;
             len = len - 512
         in if len = 0 then Some out
            else map_option ((@) out) (xts_sectors tweak crypt sector len (drop XTS_SECTOR_SIZE inp))))"
  by pat_completeness auto
termination
  by (relation "measure (\<lambda>(tweak, crypt, sector, len, inp). length inp)") (auto simp: XTS_SECTOR_SIZE_def)

declare xts_sectors.simps [simp del]

text \<open>The macro \<^verbatim>\<open>DEF_XTS_PROC\<close>.\<close>

definition DEF_XTS_PROC ::
  "(u8 list \<Rightarrow> u8 list) \<Rightarrow> (u8 list \<Rightarrow> u8 list) \<Rightarrow> u8 list \<Rightarrow> u64 \<Rightarrow> u64 \<Rightarrow> u8 list option" where
  "DEF_XTS_PROC tweak crypt inp len offset = xts_sectors tweak crypt (offset div 512) len inp"

section \<open>The key structure\<close>

record cipher_keys =
  ck_aes :: aes256_key
  ck_twofish :: twofish256_key
  ck_serpent :: serpent256_key

text \<open>The function pointers of a key name the procedure they point to.\<close>

datatype xts_proc =
    XTS_NONE
  | XTS_AES_ENC | XTS_AES_DEC
  | XTS_TWOFISH_ENC | XTS_TWOFISH_DEC
  | XTS_SERPENT_ENC | XTS_SERPENT_DEC
  | XTS_AES_TWOFISH_ENC | XTS_AES_TWOFISH_DEC
  | XTS_TWOFISH_SERPENT_ENC | XTS_TWOFISH_SERPENT_DEC
  | XTS_SERPENT_AES_ENC | XTS_SERPENT_AES_DEC
  | XTS_AES_TWOFISH_SERPENT_ENC | XTS_AES_TWOFISH_SERPENT_DEC

record xts_key =
  crypt_k :: cipher_keys
  tweak_k :: cipher_keys
  xk_encrypt :: xts_proc
  xk_decrypt :: xts_proc

section \<open>IEEE 1619\<close>

text \<open>
  The tweak as a 128-bit number \<open>T\<close>: one block is \<open>crypt (P \<oplus> T) \<oplus> T\<close> with \<open>T\<close> stored
  little-endian, and \<open>\<alpha>\<close> is multiplication by \<open>x\<close> modulo \<open>x\<^sup>1\<^sup>2\<^sup>8 + x\<^sup>7 + x\<^sup>2 + x + 1\<close>.
\<close>

type_synonym u128 = "128 word"

definition alpha_mult :: "u128 \<Rightarrow> u128" where
  "alpha_mult T = push_bit 1 T XOR (if bit T 127 then 0x87 else 0)"

definition xts_ref_block :: "(u8 list \<Rightarrow> u8 list) \<Rightarrow> u128 \<Rightarrow> u8 list \<Rightarrow> u8 list" where
  "xts_ref_block crypt T P =
     xor_bytes (crypt (xor_bytes P (le_bytes 16 (unat T)))) (le_bytes 16 (unat T))"

definition xts_ref_sector ::
  "(u8 list \<Rightarrow> u8 list) \<Rightarrow> (u8 list \<Rightarrow> u8 list) \<Rightarrow> u64 \<Rightarrow> u8 list \<Rightarrow> u8 list" where
  "xts_ref_sector tweak crypt sector P =
     (let T = of_nat (le_val (tweak (le_bytes 16 (unat sector))))
      in concat (map (\<lambda>j. xts_ref_block crypt ((alpha_mult ^^ j) T) (take 16 (drop (16 * j) P))) [0..<32]))"

definition xts_ref ::
  "(u8 list \<Rightarrow> u8 list) \<Rightarrow> (u8 list \<Rightarrow> u8 list) \<Rightarrow> u64 \<Rightarrow> nat \<Rightarrow> u8 list \<Rightarrow> u8 list" where
  "xts_ref tweak crypt offset n P =
     concat (map (\<lambda>i. xts_ref_sector tweak crypt (offset div 512 + 1 + of_nat i) (take 512 (drop (512 * i) P))) [0..<n])"

text \<open>The pair of 64-bit halves and the number.\<close>

fun t128 :: "u64 \<times> u64 \<Rightarrow> u128" where
  "t128 (t0, t1) = ucast t0 OR push_bit 64 (ucast t1)"

lemma bit_t128: "bit (t128 (t0, t1)) n \<longleftrightarrow> (if n < 64 then bit t0 n else bit t1 (n - 64))"
  by (auto simp: bit_simps dest: bit_imp_le_length)

lemma drop_bit_top: "drop_bit 63 (t :: u64) = of_bool (bit t 63)"
proof (rule bit_word_eqI)
  fix i assume i: "i < LENGTH(64)"
  show "bit (drop_bit 63 t) i = bit (of_bool (bit t 63) :: u64) i"
    by (cases "i = 0") (auto simp: bit_simps dest: bit_imp_le_length)
qed

lemma tweak_next_alpha: "t128 (tweak_next t) = alpha_mult (t128 t)"
proof -
  obtain t0 t1 where t: "t = (t0, t1)" by force
  define c where "c = (if bit t1 63 then 0x87 else 0 :: u64)"
  have cf: "drop_bit 63 t1 * 135 = c" by (simp add: drop_bit_top c_def)
  have k: "(if bit (t128 (t0, t1)) 127 then 0x87 else 0) = (ucast c :: u128)"
    by (simp add: bit_t128 c_def del: t128.simps)
  have top: "bit (drop_bit 63 t0) m = (m = 0 \<and> bit t0 63)" for m
    by (auto simp: drop_bit_top bit_simps)
  have m: "n - Suc 64 = n - 64 - Suc 0" for n :: nat by simp
  show ?thesis
  proof (rule bit_word_eqI)
    fix n assume "n < LENGTH(128)"
    then have n: "n < 128" by simp
    have "bit (alpha_mult (t128 t)) n \<longleftrightarrow> (0 < n \<and> bit (t128 (t0, t1)) (n - 1)) \<noteq> bit c n"
      using n unfolding alpha_mult_def t k bit_xor_iff bit_push_bit_iff bit_unsigned_iff
      by (auto dest: bit_imp_le_length)
    moreover have "bit (t128 (tweak_next t)) n \<longleftrightarrow> (0 < n \<and> bit (t128 (t0, t1)) (n - 1)) \<noteq> bit c n"
      unfolding t tweak_next.simps Let_def cf bit_t128 bit_xor_iff bit_or_iff bit_push_bit_iff top
      using n bit_imp_le_length [of c n] bit_imp_le_length [of t0 "n - 1"]
      by (cases "n < 64"; cases "n = 64") (auto simp: m)
    ultimately show "bit (t128 (tweak_next t)) n = bit (alpha_mult (t128 t)) n" by simp
  qed
qed

lemma unat_t128: "unat (t128 (t0, t1)) = unat t0 + 2 ^ 64 * unat t1"
proof -
  have l: "unat t0 < 2 ^ 64" "unat t1 < 2 ^ 64"
    using unsigned_less [of t0] unsigned_less [of t1] by simp_all
  have "t128 (t0, t1) = ucast t0 + push_bit 64 (ucast t1)"
    unfolding t128.simps
    by (rule disjunctive_add [symmetric]) (auto simp: bit_simps dest: bit_imp_le_length)
  also have "\<dots> = of_nat (unat t0 + 2 ^ 64 * unat t1)"
    by (simp add: push_bit_eq_mult mult.commute)
  finally have "t128 (t0, t1) = of_nat (unat t0 + 2 ^ 64 * unat t1)" .
  moreover have "unat t0 + 2 ^ 64 * unat t1 < 2 ^ LENGTH(128)" using l by simp
  ultimately show ?thesis by (simp only: unat_of_nat mod_less)
qed

lemma t128_bytes: "st64 t0 @ st64 t1 = le_bytes 16 (unat (t128 (t0, t1)))"
proof -
  have l: "unat t0 < 256 ^ 8" using unsigned_less [of t0] by simp
  have "le_bytes (8 + 8) (unat (t128 (t0, t1))) = st64 t0 @ st64 t1"
    unfolding le_bytes_add unat_t128 st64_def
    using l le_bytes_mod [of 8 "unat t0 + 2 ^ 64 * unat t1"] by simp
  then show ?thesis by simp
qed

lemma xor_tweak_xor_bytes:
  assumes "length b = 16"
  shows "xor_tweak t b = xor_bytes b (le_bytes 16 (unat (t128 t)))"
proof -
  obtain t0 t1 where t: "t = (t0, t1)" by force
  have "xor_bytes (st64 (ld64 b 0) @ st64 (ld64 b 8)) (st64 t0 @ st64 t1) = xor_tweak t b"
    by (simp add: t xor_bytes_append st64_xor)
  then show ?thesis unfolding t t128_bytes [symmetric] st64_block [OF assms] by (simp only:)
qed

lemma t128_pow: "t128 ((tweak_next ^^ j) t) = (alpha_mult ^^ j) (t128 t)"
  by (induction j) (simp_all add: tweak_next_alpha)

lemma xts_blocks_ref:
  assumes "\<And>b. length b = 16 \<Longrightarrow> length (crypt b) = 16"
  shows "16 * n \<le> length P \<Longrightarrow> xts_blocks crypt n t P =
    concat (map (\<lambda>j. xts_ref_block crypt ((alpha_mult ^^ j) (t128 t)) (take 16 (drop (16 * j) P))) [0..<n])"
proof (induction n arbitrary: t P)
  case (Suc n)
  have len: "length (take 16 P) = 16" using Suc.prems by simp
  have "xor_tweak t (crypt (xor_tweak t (take 16 P))) = xts_ref_block crypt (t128 t) (take 16 P)"
    using len assms by (simp add: xor_tweak_xor_bytes xts_ref_block_def)
  moreover have "xts_blocks crypt n (tweak_next t) (drop 16 P) =
      concat (map (\<lambda>j. xts_ref_block crypt ((alpha_mult ^^ Suc j) (t128 t)) (take 16 (drop (16 * Suc j) P))) [0..<n])"
    using Suc.IH [of "drop 16 P" "tweak_next t"] Suc.prems
    by (simp add: tweak_next_alpha funpow_swap1 add.commute)
  ultimately show ?case
    by (simp add: upt_conv_Cons [of 0 "Suc n"] map_Suc_upt [symmetric] o_def Let_def del: upt_Suc xor_tweak.simps funpow.simps)
qed simp

lemma length_xts_blocks:
  assumes "\<And>b. length b = 16 \<Longrightarrow> length (crypt b) = 16"
  shows "16 * n \<le> length P \<Longrightarrow> length (xts_blocks crypt n t P) = 16 * n"
proof (induction n arbitrary: t P)
  case (Suc n)
  obtain t0 t1 where "t = (t0, t1)" by force
  with Suc show ?case by (simp add: Let_def)
qed simp

text \<open>What a valid request is: a positive multiple of 512 bytes that the buffer holds.\<close>

definition xts_len_ok :: "u64 \<Rightarrow> u8 list \<Rightarrow> bool" where
  "xts_len_ok len P \<longleftrightarrow> len \<noteq> 0 \<and> 512 dvd unat len \<and> unat len \<le> length P"

lemma xts_len_step:
  assumes "xts_len_ok len P"
  shows "512 \<le> length P" and "len - 512 \<noteq> 0 \<Longrightarrow> xts_len_ok (len - 512) (drop 512 P)"
    and "unat (len - 512) = unat len - 512" and "512 \<le> unat len"
proof -
  have pos: "0 < unat len" using assms by (simp add: xts_len_ok_def unat_gt_0)
  then show le: "512 \<le> unat len"
    using assms dvd_imp_le [of 512 "unat len"] by (simp add: xts_len_ok_def)
  then show "512 \<le> length P" using assms by (simp add: xts_len_ok_def)
  have "512 \<le> len" using le by (simp add: word_le_nat_alt)
  then show u: "unat (len - 512) = unat len - 512" by (simp add: unat_sub)
  show "xts_len_ok (len - 512) (drop 512 P)" if "len - 512 \<noteq> 0"
    using assms that le unfolding xts_len_ok_def u by (auto simp: dvd_minus_self)
qed

text \<open>An induction over the sectors of a valid request.\<close>

lemma xts_len_induct [consumes 1, case_names last more]:
  assumes "xts_len_ok len P"
    and "\<And>sector len P. xts_len_ok len P \<Longrightarrow> 512 \<le> length P \<Longrightarrow> unat len = 512 \<Longrightarrow> len - 512 = 0 \<Longrightarrow> R sector len P"
    and "\<And>sector len P. xts_len_ok len P \<Longrightarrow> 512 \<le> length P \<Longrightarrow> len - 512 \<noteq> 0 \<Longrightarrow>
       xts_len_ok (len - 512) (drop 512 P) \<Longrightarrow> unat len = 512 + unat (len - 512) \<Longrightarrow>
       R (sector + 1) (len - 512) (drop 512 P) \<Longrightarrow> R sector len P"
  shows "R (sector :: u64) len P"
  using assms(1)
proof (induction "length P" arbitrary: sector len P rule: less_induct)
  case less
  note s = xts_len_step [OF less.prems]
  show ?case
  proof (cases "len - 512 = 0")
    case True
    then have "unat len = 512" using s(3,4) by simp
    with True show ?thesis using less.prems s(1) by (intro assms(2))
  next
    case False
    have "R (sector + 1) (len - 512) (drop 512 P)"
    proof (rule less.hyps)
      show "length (drop 512 P) < length P" using s(1) by (simp only: length_drop)
      show "xts_len_ok (len - 512) (drop 512 P)" using False by (rule s(2))
    qed
    moreover have "unat len = 512 + unat (len - 512)" using s(3,4) by (simp only: le_add_diff_inverse)
    ultimately show ?thesis by (intro assms(3) [OF less.prems s(1) False s(2) [OF False]])
  qed
qed

lemma xts_tweak_t128:
  assumes "\<And>b. length b = 16 \<Longrightarrow> length (tweak b) = 16"
  shows "t128 (xts_tweak tweak sector) = of_nat (le_val (tweak (le_bytes 16 (unat sector))))"
proof -
  have "st64 sector @ st64 0 = le_bytes 16 (unat (t128 (sector, 0)))" by (rule t128_bytes)
  also have "unat (t128 (sector, 0)) = unat sector" unfolding unat_t128 by simp
  finally have i: "st64 sector @ st64 0 = le_bytes 16 (unat sector)" .
  let ?b = "tweak (le_bytes 16 (unat sector))"
  have lb: "length ?b = 16" by (simp add: assms)
  have "le_bytes 16 (unat (t128 (ld64 ?b 0, ld64 ?b 8))) = ?b"
    using st64_block [OF lb] by (simp only: t128_bytes)
  then have "le_val (le_bytes 16 (unat (t128 (ld64 ?b 0, ld64 ?b 8)))) = le_val ?b" by simp
  moreover have "unat (t128 (ld64 ?b 0, ld64 ?b 8)) < 256 ^ 16"
    using unsigned_less [of "t128 (ld64 ?b 0, ld64 ?b 8)"] by simp
  ultimately have "unat (t128 (ld64 ?b 0, ld64 ?b 8)) = le_val ?b"
    by (simp only: le_val_le_bytes)
  then show ?thesis unfolding xts_tweak_def Let_def i by (metis of_nat_unat ucast_id)
qed

lemma xts_sector_ref:
  assumes "\<And>b. length b = 16 \<Longrightarrow> length (tweak b) = 16" and "\<And>b. length b = 16 \<Longrightarrow> length (crypt b) = 16"
    and "512 \<le> length P"
  shows "xts_blocks crypt 32 (xts_tweak tweak sector) P = xts_ref_sector tweak crypt sector (take 512 P)"
proof -
  have "take 16 (drop (16 * j) (take 512 P)) = take 16 (drop (16 * j) P)" if "j < 32" for j
    using that by (simp add: take_drop min_def add.commute)
  then have "map (\<lambda>j. xts_ref_block crypt ((alpha_mult ^^ j) T) (take 16 (drop (16 * j) (take 512 P)))) [0..<32] =
      map (\<lambda>j. xts_ref_block crypt ((alpha_mult ^^ j) T) (take 16 (drop (16 * j) P))) [0..<32]" for T
    by (intro map_cong refl) auto
  then show ?thesis
    using xts_blocks_ref [of crypt 32 P "xts_tweak tweak sector", OF assms(2)] assms(3)
    by (simp only: xts_ref_sector_def xts_tweak_t128 [OF assms(1)] Let_def)
qed

definition xts_ref_from ::
  "(u8 list \<Rightarrow> u8 list) \<Rightarrow> (u8 list \<Rightarrow> u8 list) \<Rightarrow> u64 \<Rightarrow> nat \<Rightarrow> u8 list \<Rightarrow> u8 list" where
  "xts_ref_from tweak crypt sector n P =
     concat (map (\<lambda>i. xts_ref_sector tweak crypt (sector + 1 + of_nat i) (take 512 (drop (512 * i) P))) [0..<n])"

lemma xts_sectors_ref:
  assumes t: "\<And>b. length b = 16 \<Longrightarrow> length (tweak b) = 16" and c: "\<And>b. length b = 16 \<Longrightarrow> length (crypt b) = 16"
    and "xts_len_ok len P"
  shows "xts_sectors tweak crypt sector len P = Some (xts_ref_from tweak crypt sector (unat len div 512) P)"
proof -
  have sec: "xts_blocks crypt 32 (xts_tweak tweak s) Q = xts_ref_sector tweak crypt s (take 512 Q)"
    if "512 \<le> length Q" for s Q
    using t c that by (rule xts_sector_ref)
  show ?thesis using assms(3)
proof (induction sector len P rule: xts_len_induct)
  case (last sector len P)
  then show ?case
    using sec [OF last(2), of "sector + 1"]
    by (subst xts_sectors.simps) (simp add: XTS_SECTOR_SIZE_def Let_def xts_ref_from_def)
next
  case (more sector len P)
  have d: "unat len div 512 = Suc (unat (len - 512) div 512)" using more.hyps(5) by simp
  have "xts_ref_from tweak crypt sector (Suc n) P =
      xts_ref_sector tweak crypt (sector + 1) (take 512 P) @ xts_ref_from tweak crypt (sector + 1) n (drop 512 P)" for n
    by (simp add: xts_ref_from_def upt_conv_Cons [of 0 "Suc n"] map_Suc_upt [symmetric] o_def add.commute add.left_commute
        del: upt_Suc)
  then have r: "xts_ref_from tweak crypt sector (unat len div 512) P =
      xts_ref_sector tweak crypt (sector + 1) (take 512 P) @
      xts_ref_from tweak crypt (sector + 1) (unat (len - 512) div 512) (drop 512 P)"
    by (simp only: d)
  show ?case
    unfolding r using more(2,3,6) sec [OF more(2), of "sector + 1"]
    by (subst xts_sectors.simps) (simp add: XTS_SECTOR_SIZE_def Let_def)
qed
qed

section \<open>Sector ciphers\<close>

text \<open>
  The interface of an encryption of whole sectors: it answers every valid request with as many
  bytes, and decryption at the same offset takes them back.
\<close>

locale sector_cipher =
  fixes enc :: "u8 list \<Rightarrow> u64 \<Rightarrow> u64 \<Rightarrow> u8 list option"
    and dec :: "u8 list \<Rightarrow> u64 \<Rightarrow> u64 \<Rightarrow> u8 list option"
  assumes enc_dec: "xts_len_ok len P \<Longrightarrow> unat len = length P \<Longrightarrow>
      \<exists>C. enc P len off = Some C \<and> length C = length P \<and> dec C len off = Some P"
begin

lemma encE:
  assumes "xts_len_ok len P" and "unat len = length P"
  obtains C where "enc P len off = Some C" and "length C = length P" and "dec C len off = Some P"
  using enc_dec [OF assms] by blast

lemma enc_bind_dec:
  assumes "xts_len_ok len P" and "unat len = length P"
  shows "enc P len off \<bind> (\<lambda>C. dec C len off) = Some P"
  using encE [OF assms, of off] by (metis bind.bind_lunit)

end

text \<open>Two sector ciphers one after the other are a sector cipher again.\<close>

locale sector_cascade = a: sector_cipher enc1 dec1 + b: sector_cipher enc2 dec2
  for enc1 dec1 enc2 dec2

sublocale sector_cascade \<subseteq> sector_cipher
  "\<lambda>P len off. enc1 P len off \<bind> (\<lambda>C. enc2 C len off)"
  "\<lambda>C len off. dec2 C len off \<bind> (\<lambda>P. dec1 P len off)"
proof
  fix len P off
  assume ok: "xts_len_ok len P" and l: "unat len = length P"
  obtain C where C: "enc1 P len off = Some C" "length C = length P" "dec1 C len off = Some P"
    using ok l by (rule a.encE)
  have "xts_len_ok len C" and "unat len = length C"
    using ok l C(2) by (simp_all add: xts_len_ok_def)
  then obtain D where D: "enc2 C len off = Some D" "length D = length C" "dec2 D len off = Some C"
    by (rule b.encE)
  with C show "\<exists>C. (enc1 P len off \<bind> (\<lambda>C. enc2 C len off)) = Some C \<and> length C = length P \<and>
      (dec2 C len off \<bind> (\<lambda>P. dec1 P len off)) = Some P"
    by auto
qed

context sector_cascade
begin

lemma cascade_cipher:
  "sector_cipher (\<lambda>P len off. enc1 P len off \<bind> (\<lambda>C. enc2 C len off))
     (\<lambda>C len off. dec2 C len off \<bind> (\<lambda>P. dec1 P len off))"
  by unfold_locales

end

text \<open>XTS over a block cipher is a sector cipher, whatever derives the tweaks.\<close>

lemma xor_tweak_involutive: "length b = 16 \<Longrightarrow> xor_tweak t (xor_tweak t b) = b"
  by (cases t) (simp add: xor.assoc st64_block)

lemma length_xor_tweak [simp, len_simps]: "length (xor_tweak t b) = 16"
  by (cases t) simp

context block_cipher
begin

lemma xts_blocks_inverse:
  "16 * n \<le> length P \<Longrightarrow> xts_blocks dec n t (xts_blocks enc n t P @ Q) = take (16 * n) P"
proof (induction n arbitrary: t P)
  case (Suc n)
  let ?b = "xor_tweak t (take 16 P)" and ?out = "xor_tweak t (enc (xor_tweak t (take 16 P)))"
  have "xor_tweak t (dec (xor_tweak t ?out)) = take 16 P"
    using Suc.prems by (simp add: xor_tweak_involutive length_enc dec_enc)
  moreover have "take (16 + 16 * n) P = take 16 P @ take (16 * n) (drop 16 P)"
    by (rule take_add)
  ultimately show ?case
    using Suc by (simp add: Let_def)
qed simp

lemma xts_sectors_inverse:
  "xts_len_ok len P \<Longrightarrow> \<exists>C. xts_sectors tweak enc sector len P = Some C \<and> length C = unat len \<and>
     xts_sectors tweak dec sector len C = Some (take (unat len) P)"
proof (induction sector len P rule: xts_len_induct)
  case (last sector len P)
  then show ?case
    using xts_blocks_inverse [of 32 P "xts_tweak tweak (sector + 1)" "[]"]
      length_xts_blocks [of enc 32 P "xts_tweak tweak (sector + 1)"]
    by (subst xts_sectors.simps, subst (2) xts_sectors.simps) (simp add: XTS_SECTOR_SIZE_def Let_def length_enc)
next
  case (more sector len P)
  let ?C1 = "xts_blocks enc 32 (xts_tweak tweak (sector + 1)) P"
  obtain C where C: "xts_sectors tweak enc (sector + 1) (len - 512) (drop 512 P) = Some C"
    "length C = unat (len - 512)" "xts_sectors tweak dec (sector + 1) (len - 512) C = Some (take (unat (len - 512)) (drop 512 P))"
    using more(6) by blast
  have l1: "length ?C1 = 512"
    using more(2) length_xts_blocks [of enc 32 P "xts_tweak tweak (sector + 1)"] by (simp add: length_enc)
  have "xts_sectors tweak enc sector len P = Some (?C1 @ C)"
    using more(2,3) C(1) by (subst xts_sectors.simps) (simp add: XTS_SECTOR_SIZE_def Let_def)
  moreover have "xts_sectors tweak dec sector len (?C1 @ C) = Some (take 512 P @ take (unat (len - 512)) (drop 512 P))"
    using more(2,3) C(3) l1 xts_blocks_inverse [of 32 P "xts_tweak tweak (sector + 1)" C]
    by (subst xts_sectors.simps) (simp add: XTS_SECTOR_SIZE_def Let_def)
  moreover have "take 512 P @ take (unat (len - 512)) (drop 512 P) = take (unat len) P"
    unfolding more(5) by (rule take_add [symmetric])
  ultimately show ?case using C(2) l1 more(5) by (intro exI [of _ "?C1 @ C"]) simp
qed

lemma sector_cipher_xts: "sector_cipher (DEF_XTS_PROC tweak enc) (DEF_XTS_PROC tweak dec)"
proof
  fix len P off
  assume "xts_len_ok len P" and "unat len = length P"
  then show "\<exists>C. DEF_XTS_PROC tweak enc P len off = Some C \<and> length C = length P \<and> DEF_XTS_PROC tweak dec C len off = Some P"
    using xts_sectors_inverse [of len P tweak "off div 512"] by (auto simp: DEF_XTS_PROC_def)
qed

end

text \<open>
  C10: the XTS procedure of the code is XTS of IEEE 1619 over the sectors from \<open>offset / 512 + 1\<close> on:
  tweak key, block order and the multiplication by \<open>\<alpha>\<close> across the two halves.
\<close>

theorem xts_proc_ieee1619:
  assumes "\<And>b. length b = 16 \<Longrightarrow> length (tweak b) = 16" and "\<And>b. length b = 16 \<Longrightarrow> length (crypt b) = 16"
    and "xts_len_ok len P"
  shows "DEF_XTS_PROC tweak crypt P len offset = Some (xts_ref tweak crypt offset (unat len div 512) P)"
  using xts_sectors_ref [OF assms, where sector = "offset div 512"]
  by (simp add: DEF_XTS_PROC_def xts_ref_from_def xts_ref_def)

theorem xts_proc_ieee1619_witness:
  "xts_len_ok 1024 (replicate 1500 7) \<and>
   (\<forall>k1 k2. DEF_XTS_PROC (twofish256_encrypt k1) (twofish256_encrypt k2) (replicate 1500 7) 1024 4096 =
     Some (xts_ref (twofish256_encrypt k1) (twofish256_encrypt k2) 4096 2 (replicate 1500 7)))"
proof (intro conjI allI)
  show ok: "xts_len_ok 1024 (replicate 1500 7)" by (simp add: xts_len_ok_def)
  fix k1 k2
  show "DEF_XTS_PROC (twofish256_encrypt k1) (twofish256_encrypt k2) (replicate 1500 7) 1024 4096 =
     Some (xts_ref (twofish256_encrypt k1) (twofish256_encrypt k2) 4096 2 (replicate 1500 7))"
    using xts_proc_ieee1619 [of "twofish256_encrypt k1" "twofish256_encrypt k2" 1024 "replicate 1500 7" 4096] ok
    by simp
qed

end
