(* ===== verification/Xts_Twofish.thy ===== *)
theory Xts_Twofish
  imports Xts_Mode
begin

unbundle bit_operations_syntax

text \<open>
  \<^verbatim>\<open>ImBox/dc/crypto_lib/xts_twofish.c\<close>: XTS-Twofish with four blocks interleaved and the tweak of
  the next sector derived ahead. Shown here: the same bytes as the scalar procedure.
\<close>

section \<open>Four interleaved Twofish blocks\<close>

text \<open>A round macro works on four lanes, each of its operations on all of them in turn.\<close>

type_synonym quad4 = "quad \<times> quad \<times> quad \<times> quad"

fun ER4 :: "twofish256_key \<Rightarrow> nat \<Rightarrow> quad4 \<Rightarrow> quad4" where
  "ER4 key n ((A0, B0, C0, D0), (A1, B1, C1, D1), (A2, B2, C2, D2), (A3, B3, C3, D3)) =
     (let s = tf_s key; k = tf_k key;
          x0 = G1 s A0; y0 = G2 s B0; x1 = G1 s A1; y1 = G2 s B1;
          x2 = G1 s A2; y2 = G2 s B2; x3 = G1 s A3; y3 = G2 s B3;
          x0 = x0 + y0; x1 = x1 + y1; x2 = x2 + y2; x3 = x3 + y3;
          y0 = y0 + (x0 + k ! (2 * n + 1)); y1 = y1 + (x1 + k ! (2 * n + 1));
          y2 = y2 + (x2 + k ! (2 * n + 1)); y3 = y3 + (x3 + k ! (2 * n + 1));
          x0 = x0 + k ! (2 * n); x1 = x1 + k ! (2 * n); x2 = x2 + k ! (2 * n); x3 = x3 + k ! (2 * n);
          C0 = C0 XOR x0; C0 = ROR32 C0 1; C1 = C1 XOR x1; C1 = ROR32 C1 1;
          C2 = C2 XOR x2; C2 = ROR32 C2 1; C3 = C3 XOR x3; C3 = ROR32 C3 1;
          D0 = ROL32 D0 1; D0 = D0 XOR y0; D1 = ROL32 D1 1; D1 = D1 XOR y1;
          D2 = ROL32 D2 1; D2 = D2 XOR y2; D3 = ROL32 D3 1; D3 = D3 XOR y3
      in ((A0, B0, C0, D0), (A1, B1, C1, D1), (A2, B2, C2, D2), (A3, B3, C3, D3)))"

fun DR4 :: "twofish256_key \<Rightarrow> nat \<Rightarrow> quad4 \<Rightarrow> quad4" where
  "DR4 key n ((A0, B0, C0, D0), (A1, B1, C1, D1), (A2, B2, C2, D2), (A3, B3, C3, D3)) =
     (let s = tf_s key; k = tf_k key;
          x0 = G1 s A0; y0 = G2 s B0; x1 = G1 s A1; y1 = G2 s B1;
          x2 = G1 s A2; y2 = G2 s B2; x3 = G1 s A3; y3 = G2 s B3;
          x0 = x0 + y0; x1 = x1 + y1; x2 = x2 + y2; x3 = x3 + y3;
          y0 = y0 + (x0 + k ! (2 * n + 1)); y1 = y1 + (x1 + k ! (2 * n + 1));
          y2 = y2 + (x2 + k ! (2 * n + 1)); y3 = y3 + (x3 + k ! (2 * n + 1));
          x0 = x0 + k ! (2 * n); x1 = x1 + k ! (2 * n); x2 = x2 + k ! (2 * n); x3 = x3 + k ! (2 * n);
          D0 = D0 XOR y0; D0 = ROR32 D0 1; D1 = D1 XOR y1; D1 = ROR32 D1 1;
          D2 = D2 XOR y2; D2 = ROR32 D2 1; D3 = D3 XOR y3; D3 = ROR32 D3 1;
          C0 = ROL32 C0 1; C0 = C0 XOR x0; C1 = ROL32 C1 1; C1 = C1 XOR x1;
          C2 = ROL32 C2 1; C2 = C2 XOR x2; C3 = ROL32 C3 1; C3 = C3 XOR x3
      in ((A0, B0, C0, D0), (A1, B1, C1, D1), (A2, B2, C2, D2), (A3, B3, C3, D3)))"

text \<open>\<^verbatim>\<open>ROUNDS_A\<close> gives a macro the words as they are, \<^verbatim>\<open>ROUNDS_B\<close> with the halves exchanged.\<close>

fun swap_halves :: "quad4 \<Rightarrow> quad4" where
  "swap_halves ((a0, b0, c0, d0), (a1, b1, c1, d1), (a2, b2, c2, d2), (a3, b3, c3, d3)) =
     ((c0, d0, a0, b0), (c1, d1, a1, b1), (c2, d2, a2, b2), (c3, d3, a3, b3))"

definition ROUNDS_A :: "(nat \<Rightarrow> quad4 \<Rightarrow> quad4) \<Rightarrow> nat \<Rightarrow> quad4 \<Rightarrow> quad4" where
  "ROUNDS_A M n v = M n v"

definition ROUNDS_B :: "(nat \<Rightarrow> quad4 \<Rightarrow> quad4) \<Rightarrow> nat \<Rightarrow> quad4 \<Rightarrow> quad4" where
  "ROUNDS_B M n v = swap_halves (M n (swap_halves v))"

definition ENCRYPT_16 :: "twofish256_key \<Rightarrow> quad4 \<Rightarrow> quad4" where
  "ENCRYPT_16 key v =
     foldl (\<lambda>v n. ROUNDS_B (ER4 key) (n + 1) (ROUNDS_A (ER4 key) n v)) v [0, 2, 4, 6, 8, 10, 12, 14]"

definition DECRYPT_16 :: "twofish256_key \<Rightarrow> quad4 \<Rightarrow> quad4" where
  "DECRYPT_16 key v =
     foldl (\<lambda>v n. ROUNDS_A (DR4 key) n (ROUNDS_B (DR4 key) (n + 1) v)) v [14, 12, 10, 8, 6, 4, 2, 0]"

definition LO32 :: "u64 \<Rightarrow> u32" where "LO32 v = ucast v"
definition HI32 :: "u64 \<Rightarrow> u32" where "HI32 v = ucast (drop_bit 32 v)"

text \<open>\<^verbatim>\<open>XTS_TF_LOAD_TWEAKS\<close>: the tweaks of four blocks, and the tweak of the next.\<close>

definition tf_load_tweaks :: "u64 \<times> u64 \<Rightarrow> u64 list \<times> (u64 \<times> u64)" where
  "tf_load_tweaks t =
     foldl (\<lambda>(kt, t) j. (kt @ [fst t, snd t], tweak_next t)) ([], t) [0..<4]"

text \<open>Loading lane \<open>j\<close> with the input whitening, storing it with the output whitening.\<close>

definition tf_lane_in :: "twofish256_key \<Rightarrow> u64 list \<Rightarrow> u8 list \<Rightarrow> nat \<Rightarrow> quad" where
  "tf_lane_in key kt inp j =
     (load32 inp (16 * j) XOR LO32 (kt ! (2 * j)) XOR tf_w key ! 0,
      load32 inp (16 * j + 4) XOR HI32 (kt ! (2 * j)) XOR tf_w key ! 1,
      load32 inp (16 * j + 8) XOR LO32 (kt ! (2 * j + 1)) XOR tf_w key ! 2,
      load32 inp (16 * j + 12) XOR HI32 (kt ! (2 * j + 1)) XOR tf_w key ! 3)"

fun tf_lane_out :: "twofish256_key \<Rightarrow> u64 list \<Rightarrow> nat \<Rightarrow> quad \<Rightarrow> u8 list" where
  "tf_lane_out key kt j (a, b, c, d) =
     store32 (c XOR tf_w key ! 4 XOR LO32 (kt ! (2 * j))) @
     store32 (d XOR tf_w key ! 5 XOR HI32 (kt ! (2 * j))) @
     store32 (a XOR tf_w key ! 6 XOR LO32 (kt ! (2 * j + 1))) @
     store32 (b XOR tf_w key ! 7 XOR HI32 (kt ! (2 * j + 1)))"

definition tf_lane_in_dec :: "twofish256_key \<Rightarrow> u64 list \<Rightarrow> u8 list \<Rightarrow> nat \<Rightarrow> quad" where
  "tf_lane_in_dec key kt inp j =
     (load32 inp (16 * j + 8) XOR LO32 (kt ! (2 * j + 1)) XOR tf_w key ! 6,
      load32 inp (16 * j + 12) XOR HI32 (kt ! (2 * j + 1)) XOR tf_w key ! 7,
      load32 inp (16 * j) XOR LO32 (kt ! (2 * j)) XOR tf_w key ! 4,
      load32 inp (16 * j + 4) XOR HI32 (kt ! (2 * j)) XOR tf_w key ! 5)"

fun tf_lane_out_dec :: "twofish256_key \<Rightarrow> u64 list \<Rightarrow> nat \<Rightarrow> quad \<Rightarrow> u8 list" where
  "tf_lane_out_dec key kt j (a, b, c, d) =
     store32 (a XOR tf_w key ! 0 XOR LO32 (kt ! (2 * j))) @
     store32 (b XOR tf_w key ! 1 XOR HI32 (kt ! (2 * j))) @
     store32 (c XOR tf_w key ! 2 XOR LO32 (kt ! (2 * j + 1))) @
     store32 (d XOR tf_w key ! 3 XOR HI32 (kt ! (2 * j + 1)))"

text \<open>One iteration of the block loop: 64 bytes.\<close>

definition tf_quad_encrypt :: "twofish256_key \<Rightarrow> u64 list \<Rightarrow> u8 list \<Rightarrow> u8 list" where
  "tf_quad_encrypt key kt inp =
     (case ENCRYPT_16 key (tf_lane_in key kt inp 0, tf_lane_in key kt inp 1, tf_lane_in key kt inp 2, tf_lane_in key kt inp 3) of
        (v0, v1, v2, v3) \<Rightarrow>
          tf_lane_out key kt 0 v0 @ tf_lane_out key kt 1 v1 @ tf_lane_out key kt 2 v2 @ tf_lane_out key kt 3 v3)"

definition tf_quad_decrypt :: "twofish256_key \<Rightarrow> u64 list \<Rightarrow> u8 list \<Rightarrow> u8 list" where
  "tf_quad_decrypt key kt inp =
     (case DECRYPT_16 key (tf_lane_in_dec key kt inp 0, tf_lane_in_dec key kt inp 1,
                           tf_lane_in_dec key kt inp 2, tf_lane_in_dec key kt inp 3) of
        (v0, v1, v2, v3) \<Rightarrow>
          tf_lane_out_dec key kt 0 v0 @ tf_lane_out_dec key kt 1 v1 @
          tf_lane_out_dec key kt 2 v2 @ tf_lane_out_dec key kt 3 v3)"

primrec tf_sector :: "(u64 list \<Rightarrow> u8 list \<Rightarrow> u8 list) \<Rightarrow> nat \<Rightarrow> u64 \<times> u64 \<Rightarrow> u8 list \<Rightarrow> u8 list" where
  "tf_sector quad 0 t inp = []"
| "tf_sector quad (Suc i) t inp =
     (let (kt, t) = tf_load_tweaks t in quad kt inp @ tf_sector quad i t (drop 64 inp))"

text \<open>
  The outer loop. \<open>t\<close> is the tweak of the sector at hand; the tweak \<open>nx\<close> of the next one is derived
  before the blocks of this one, and only when there is a next one.
\<close>

function tf_sectors ::
  "twofish256_key \<Rightarrow> (u64 list \<Rightarrow> u8 list \<Rightarrow> u8 list) \<Rightarrow> u64 \<times> u64 \<Rightarrow> u64 \<Rightarrow> u64 \<Rightarrow> u8 list \<Rightarrow> u8 list option" where
  "tf_sectors tkey quad t sector len inp =
     (let len = len - 512;
          more = len \<noteq> 0;
          nx = (if more then xts_tweak (twofish256_encrypt tkey) (sector + 1) else t);
          sector = sector + 1
      in if length inp < XTS_SECTOR_SIZE then None
         else
           (let out = tf_sector quad 8 t inp in
            if more
            then map_option ((@) out) (tf_sectors tkey quad nx sector len (drop XTS_SECTOR_SIZE inp))
            else Some out))"
  by pat_completeness auto
termination
  by (relation "measure (\<lambda>(tkey, quad, t, sector, len, inp). length inp)") (auto simp: XTS_SECTOR_SIZE_def)

declare tf_sectors.simps [simp del]


text \<open>The two entry points.\<close>

type_synonym xts_fn = "u8 list \<Rightarrow> u64 \<Rightarrow> u64 \<Rightarrow> xts_key \<Rightarrow> u8 list option"

definition xts_twofish_encrypt :: xts_fn where
  "xts_twofish_encrypt inp len offset key =
     (let sector = offset div 512 + 1
      in tf_sectors (ck_twofish (tweak_k key)) (tf_quad_encrypt (ck_twofish (crypt_k key)))
           (xts_tweak (twofish256_encrypt (ck_twofish (tweak_k key))) sector) sector len inp)"

definition xts_twofish_decrypt :: xts_fn where
  "xts_twofish_decrypt inp len offset key =
     (let sector = offset div 512 + 1
      in tf_sectors (ck_twofish (tweak_k key)) (tf_quad_decrypt (ck_twofish (crypt_k key)))
           (xts_tweak (twofish256_encrypt (ck_twofish (tweak_k key))) sector) sector len inp)"

section \<open>The interleaved core is scalar XTS-Twofish\<close>

text \<open>One lane of a round macro.\<close>

fun er :: "twofish256_key \<Rightarrow> nat \<Rightarrow> quad \<Rightarrow> quad" where
  "er key n (a, b, c, d) = (let (c, d) = TF_ENC_ROUND key n a b c d in (a, b, c, d))"

fun dr :: "twofish256_key \<Rightarrow> nat \<Rightarrow> quad \<Rightarrow> quad" where
  "dr key n (a, b, c, d) = (let (c, d) = TF_DEC_ROUND key n a b c d in (a, b, c, d))"

fun swap_quad :: "quad \<Rightarrow> quad" where
  "swap_quad (a, b, c, d) = (c, d, a, b)"

fun map_lanes :: "(quad \<Rightarrow> quad) \<Rightarrow> quad4 \<Rightarrow> quad4" where
  "map_lanes f (v0, v1, v2, v3) = (f v0, f v1, f v2, f v3)"

lemma ER4_lanes: "ER4 key n v = map_lanes (er key n) v"
proof -
  obtain v0 v1 v2 v3 where v: "v = (v0, v1, v2, v3)" by (metis prod_cases4)
  show ?thesis
    unfolding v by (cases v0 rule: prod_cases4; cases v1 rule: prod_cases4; cases v2 rule: prod_cases4; cases v3 rule: prod_cases4)
      (simp add: Let_def TF_ENC_ROUND_def)
qed

lemma DR4_lanes: "DR4 key n v = map_lanes (dr key n) v"
proof -
  obtain v0 v1 v2 v3 where v: "v = (v0, v1, v2, v3)" by (metis prod_cases4)
  show ?thesis
    unfolding v by (cases v0 rule: prod_cases4; cases v1 rule: prod_cases4; cases v2 rule: prod_cases4; cases v3 rule: prod_cases4)
      (simp add: Let_def TF_DEC_ROUND_def)
qed

lemma swap_halves_lanes: "swap_halves v = map_lanes swap_quad v"
proof -
  obtain v0 v1 v2 v3 where v: "v = (v0, v1, v2, v3)" by (metis prod_cases4)
  show ?thesis
    unfolding v by (cases v0 rule: prod_cases4; cases v1 rule: prod_cases4; cases v2 rule: prod_cases4; cases v3 rule: prod_cases4) simp
qed

lemma map_lanes_comp: "map_lanes f (map_lanes g v) = map_lanes (f \<circ> g) v"
  by (cases v rule: prod_cases4) simp

lemma foldl_lanes: "foldl (\<lambda>v n. map_lanes (f n) v) (v0, v1, v2, v3) ns =
    (foldl (\<lambda>v n. f n v) v0 ns, foldl (\<lambda>v n. f n v) v1 ns, foldl (\<lambda>v n. f n v) v2 ns, foldl (\<lambda>v n. f n v) v3 ns)"
  by (induction ns arbitrary: v0 v1 v2 v3) auto

lemma er_pair: "(swap_quad \<circ> er key (2 * p + 1) \<circ> swap_quad \<circ> er key (2 * p)) v = tf_enc_pair key v p"
  by (cases v rule: prod_cases4) (simp add: Let_def split: prod.splits)

lemma dr_pair: "(dr key (2 * p) \<circ> swap_quad \<circ> dr key (2 * p + 1) \<circ> swap_quad) v = tf_dec_pair key v p"
  by (cases v rule: prod_cases4) (simp add: Let_def split: prod.splits)

lemma foldl_double: "foldl (\<lambda>v n. f n v) v (map ((*) 2) ps) = foldl (\<lambda>v p. f (2 * p) v) v ps"
  by (induction ps arbitrary: v) auto

lemma ENCRYPT_16_lanes:
  "ENCRYPT_16 key (v0, v1, v2, v3) =
     (let r = (\<lambda>v. foldl (tf_enc_pair key) v [0, 1, 2, 3, 4, 5, 6, 7]) in (r v0, r v1, r v2, r v3))"
proof -
  have l: "[0, 2, 4, 6, 8, 10, 12, 14] = map ((*) 2) [0, 1, 2, 3, 4, 5, 6, 7 :: nat]" by simp
  have "ROUNDS_B (ER4 key) (n + 1) (ROUNDS_A (ER4 key) n v) =
      map_lanes (swap_quad \<circ> er key (n + 1) \<circ> swap_quad \<circ> er key n) v" for n v
    by (simp add: ROUNDS_A_def ROUNDS_B_def ER4_lanes swap_halves_lanes map_lanes_comp o_assoc)
  then show ?thesis
    unfolding ENCRYPT_16_def l foldl_lanes Let_def
    by (simp only: foldl_lanes foldl_double er_pair)
qed

lemma DECRYPT_16_lanes:
  "DECRYPT_16 key (v0, v1, v2, v3) =
     (let r = (\<lambda>v. foldl (tf_dec_pair key) v [7, 6, 5, 4, 3, 2, 1, 0]) in (r v0, r v1, r v2, r v3))"
proof -
  have l: "[14, 12, 10, 8, 6, 4, 2, 0] = map ((*) 2) [7, 6, 5, 4, 3, 2, 1, 0 :: nat]" by simp
  have "ROUNDS_A (DR4 key) n (ROUNDS_B (DR4 key) (n + 1) v) =
      map_lanes (dr key n \<circ> swap_quad \<circ> dr key (n + 1) \<circ> swap_quad) v" for n v
    by (simp add: ROUNDS_A_def ROUNDS_B_def DR4_lanes swap_halves_lanes map_lanes_comp o_assoc)
  then show ?thesis
    unfolding DECRYPT_16_def l foldl_lanes Let_def
    by (simp only: foldl_lanes foldl_double dr_pair)
qed

text \<open>The halves of a 64-bit tweak and the words of a block.\<close>

lemma st64_halves: "st64 v = store32 (LO32 v) @ store32 (HI32 v)"
proof -
  have lo: "unat (LO32 v) = unat v mod 256 ^ 4"
    by (simp add: LO32_def unsigned_ucast_eq take_bit_eq_mod)
  have "unat v < 2 ^ LENGTH(64)" by (rule unsigned_less)
  then have "unat v div 256 ^ 4 < 2 ^ 32" by (simp add: less_mult_imp_div_less)
  then have hi: "unat (HI32 v) = unat v div 256 ^ 4"
    by (simp add: HI32_def unsigned_ucast_eq take_bit_eq_mod unat_drop_bit_div)
  have "le_bytes (4 + 4) (unat v) = store32 (LO32 v) @ store32 (HI32 v)"
    unfolding le_bytes_add store32_def lo hi le_bytes_mod ..
  then show ?thesis by (simp add: st64_def)
qed

lemma xor_tweak_store32:
  "xor_tweak (t0, t1) (store32 a @ store32 b @ store32 c @ store32 d) =
     store32 (a XOR LO32 t0) @ store32 (b XOR HI32 t0) @ store32 (c XOR LO32 t1) @ store32 (d XOR HI32 t1)"
proof -
  let ?p = "store32 a @ store32 b @ store32 c @ store32 d"
  have "xor_tweak (t0, t1) ?p = xor_bytes ?p (st64 t0 @ st64 t1)"
    unfolding t128_bytes by (rule xor_tweak_xor_bytes) simp
  then show ?thesis
    by (simp only: st64_halves append_assoc) (simp only: xor_bytes_append length_store32 store32_xor)
qed

lemma tf_lane_eq:
  assumes "16 * j + 16 \<le> length inp"
  shows "tf_lane_out key kt j (foldl (tf_enc_pair key) (tf_lane_in key kt inp j) [0, 1, 2, 3, 4, 5, 6, 7]) =
      (let t = (kt ! (2 * j), kt ! (2 * j + 1)) in
       xor_tweak t (twofish256_encrypt key (xor_tweak t (take 16 (drop (16 * j) inp)))))"
    and "tf_lane_out_dec key kt j (foldl (tf_dec_pair key) (tf_lane_in_dec key kt inp j) [7, 6, 5, 4, 3, 2, 1, 0]) =
      (let t = (kt ! (2 * j), kt ! (2 * j + 1)) in
       xor_tweak t (twofish256_decrypt key (xor_tweak t (take 16 (drop (16 * j) inp)))))"
proof -
  have len: "length (take 16 (drop (16 * j) inp)) = 16" using assms by simp
  obtain a b c d where p: "take 16 (drop (16 * j) inp) = store32 a @ store32 b @ store32 c @ store32 d"
    using len by (rule block_words)
  have ld: "load32 inp (16 * j + i) = load32 (take 16 (drop (16 * j) inp)) i" if "i + 4 \<le> 16" for i
    using that by (simp add: load32_def take_drop min_def add.commute)
  have l: "load32 inp (16 * j) = a" "load32 inp (16 * j + 4) = b" "load32 inp (16 * j + 8) = c" "load32 inp (16 * j + 12) = d"
    using ld [of 0] ld [of 4] ld [of 8] ld [of 12] by (simp_all add: p del: take_drop drop_drop)
  show "tf_lane_out key kt j (foldl (tf_enc_pair key) (tf_lane_in key kt inp j) [0, 1, 2, 3, 4, 5, 6, 7]) =
      (let t = (kt ! (2 * j), kt ! (2 * j + 1)) in
       xor_tweak t (twofish256_encrypt key (xor_tweak t (take 16 (drop (16 * j) inp)))))"
    unfolding p Let_def xor_tweak_store32 twofish256_encrypt_def tf_lane_in_def l
    by (simp add: xor_tweak_store32 xor.assoc del: foldl_Cons xor_tweak.simps split: prod.splits)
  show "tf_lane_out_dec key kt j (foldl (tf_dec_pair key) (tf_lane_in_dec key kt inp j) [7, 6, 5, 4, 3, 2, 1, 0]) =
      (let t = (kt ! (2 * j), kt ! (2 * j + 1)) in
       xor_tweak t (twofish256_decrypt key (xor_tweak t (take 16 (drop (16 * j) inp)))))"
    unfolding p Let_def xor_tweak_store32 twofish256_decrypt_def tf_lane_in_dec_def l
    by (simp add: xor_tweak_store32 xor.assoc del: foldl_Cons xor_tweak.simps split: prod.splits)
qed


lemma tf_load_tweaks_eq:
  "tf_load_tweaks t = ([fst t, snd t, fst (tweak_next t), snd (tweak_next t),
      fst (tweak_next (tweak_next t)), snd (tweak_next (tweak_next t)),
      fst (tweak_next (tweak_next (tweak_next t))), snd (tweak_next (tweak_next (tweak_next t)))],
    (tweak_next ^^ 4) t)"
proof -
  have "[0..<4] = [0, 1, 2, 3 :: nat]" by (simp add: upt_rec)
  then show ?thesis by (simp add: tf_load_tweaks_def numeral_eq_Suc)
qed

lemma tf_quad_blocks:
  assumes "64 \<le> length inp"
  shows "tf_quad_encrypt key (fst (tf_load_tweaks t)) inp = xts_blocks (twofish256_encrypt key) 4 t inp"
    and "tf_quad_decrypt key (fst (tf_load_tweaks t)) inp = xts_blocks (twofish256_decrypt key) 4 t inp"
proof -
  let ?kt = "fst (tf_load_tweaks t)"
  have l: "16 * j + 16 \<le> length inp" if "j < 4" for j using assms that by simp
  have four: "(4 :: nat) = Suc (Suc (Suc (Suc 0)))" by simp
  note lanes = tf_lane_eq [OF l [of 0], of key ?kt] tf_lane_eq [OF l [of 1], of key ?kt]
    tf_lane_eq [OF l [of 2], of key ?kt] tf_lane_eq [OF l [of 3], of key ?kt]
  show "tf_quad_encrypt key ?kt inp = xts_blocks (twofish256_encrypt key) 4 t inp"
    using lanes
    by (simp add: tf_quad_encrypt_def ENCRYPT_16_lanes four tf_load_tweaks_eq Let_def
        del: foldl_Cons xor_tweak.simps tweak_next.simps)
  show "tf_quad_decrypt key ?kt inp = xts_blocks (twofish256_decrypt key) 4 t inp"
    using lanes
    by (simp add: tf_quad_decrypt_def DECRYPT_16_lanes four tf_load_tweaks_eq Let_def
        del: foldl_Cons xor_tweak.simps tweak_next.simps)
qed

lemma xts_blocks_add:
  "xts_blocks crypt (m + n) t P = xts_blocks crypt m t P @ xts_blocks crypt n ((tweak_next ^^ m) t) (drop (16 * m) P)"
  by (induction m arbitrary: t P) (simp_all add: Let_def funpow_swap1 add.commute)

lemma tf_sector_blocks:
  assumes "\<And>t inp. 64 \<le> length inp \<Longrightarrow> quad (fst (tf_load_tweaks t)) inp = xts_blocks crypt 4 t inp"
  shows "64 * i \<le> length inp \<Longrightarrow> tf_sector quad i t inp = xts_blocks crypt (4 * i) t inp"
proof (induction i arbitrary: t inp)
  case (Suc i)
  have "snd (tf_load_tweaks t) = (tweak_next ^^ 4) t" by (simp only: tf_load_tweaks_eq snd_conv)
  then show ?case
    using Suc assms [of inp t] xts_blocks_add [of crypt 4 "4 * i" t inp]
    by (cases "tf_load_tweaks t") (simp add: Let_def)
qed simp

lemma tf_sectors_xts:
  assumes "\<And>t inp. 64 \<le> length inp \<Longrightarrow> quad (fst (tf_load_tweaks t)) inp = xts_blocks crypt 4 t inp"
  shows "tf_sectors tkey quad (xts_tweak (twofish256_encrypt tkey) (sector + 1)) (sector + 1) len inp =
    xts_sectors (twofish256_encrypt tkey) crypt sector len inp"
proof (induction "length inp" arbitrary: sector len inp rule: less_induct)
  case less
  show ?case
  proof (cases "length inp < 512")
    case True
    then show ?thesis by (subst tf_sectors.simps, subst xts_sectors.simps) (simp add: XTS_SECTOR_SIZE_def Let_def)
  next
    case False
    have s: "tf_sector quad 8 t inp = xts_blocks crypt 32 t inp" for t
      using tf_sector_blocks [OF assms, of 8 inp t] False by simp
    have "tf_sectors tkey quad (xts_tweak (twofish256_encrypt tkey) (sector + 1 + 1)) (sector + 1 + 1) (len - 512) (drop 512 inp) =
        xts_sectors (twofish256_encrypt tkey) crypt (sector + 1) (len - 512) (drop 512 inp)"
      using False by (intro less.hyps) simp
    with False s show ?thesis
      by (subst tf_sectors.simps, subst xts_sectors.simps) (simp add: XTS_SECTOR_SIZE_def Let_def)
  qed
qed

lemma xts_twofish_eq:
  "xts_twofish_encrypt inp len offset key =
     DEF_XTS_PROC (twofish256_encrypt (ck_twofish (tweak_k key))) (twofish256_encrypt (ck_twofish (crypt_k key))) inp len offset"
  "xts_twofish_decrypt inp len offset key =
     DEF_XTS_PROC (twofish256_encrypt (ck_twofish (tweak_k key))) (twofish256_decrypt (ck_twofish (crypt_k key))) inp len offset"
  unfolding xts_twofish_encrypt_def xts_twofish_decrypt_def DEF_XTS_PROC_def Let_def
  by (rule tf_sectors_xts, erule tf_quad_blocks)+

interpretation xts_tf: sector_cipher
  "\<lambda>P len off. xts_twofish_encrypt P len off key" "\<lambda>C len off. xts_twofish_decrypt C len off key" for key
  unfolding xts_twofish_eq by (rule tf.sector_cipher_xts)

text \<open>
  C9: the four-block interleaved Twofish core, with its tweak derived one sector ahead, computes the
  same bytes as the scalar XTS procedure over the Twofish block transform, errors included.
\<close>

theorem xts_twofish_scalar:
  "xts_twofish_encrypt inp len offset key =
     DEF_XTS_PROC (twofish256_encrypt (ck_twofish (tweak_k key))) (twofish256_encrypt (ck_twofish (crypt_k key))) inp len offset \<and>
   xts_twofish_decrypt inp len offset key =
     DEF_XTS_PROC (twofish256_encrypt (ck_twofish (tweak_k key))) (twofish256_decrypt (ck_twofish (crypt_k key))) inp len offset"
  by (simp add: xts_twofish_eq)

end
