(* ===== verification/Xts_Fast.thy ===== *)
theory Xts_Fast
  imports Xts_Twofish
begin

unbundle bit_operations_syntax

text \<open>
  \<^verbatim>\<open>ImBox/dc/crypto_lib/xts_fast.c\<close>, the dispatch: one procedure per cipher and cascade, the key
  setup that selects them, and calls through the pointers of the key. \<^verbatim>\<open>xts_init\<close> selects among cores
  that compute the same function; the model has the portable ones. The AES block transform is not
  C code: encryption and decryption under a schedule are the parameter \<open>aes\<close>.
\<close>

section \<open>Procedures and dispatch\<close>

text \<open>The block transform of the AES core the library is linked with.\<close>

record aes_core =
  aes_enc :: "aes256_key \<Rightarrow> u8 list \<Rightarrow> u8 list"
  aes_dec :: "aes256_key \<Rightarrow> u8 list \<Rightarrow> u8 list"

definition xts_aes_encrypt :: "aes_core \<Rightarrow> xts_fn" where
  "xts_aes_encrypt aes inp len offset key =
     DEF_XTS_PROC (aes_enc aes (ck_aes (tweak_k key))) (aes_enc aes (ck_aes (crypt_k key))) inp len offset"

definition xts_aes_decrypt :: "aes_core \<Rightarrow> xts_fn" where
  "xts_aes_decrypt aes inp len offset key =
     DEF_XTS_PROC (aes_enc aes (ck_aes (tweak_k key))) (aes_dec aes (ck_aes (crypt_k key))) inp len offset"

definition xts_serpent_encrypt :: xts_fn where
  "xts_serpent_encrypt inp len offset key =
     DEF_XTS_PROC (serpent256_encrypt (ck_serpent (tweak_k key))) (serpent256_encrypt (ck_serpent (crypt_k key))) inp len offset"

definition xts_serpent_decrypt :: xts_fn where
  "xts_serpent_decrypt inp len offset key =
     DEF_XTS_PROC (serpent256_encrypt (ck_serpent (tweak_k key))) (serpent256_decrypt (ck_serpent (crypt_k key))) inp len offset"

fun xts_call :: "aes_core \<Rightarrow> xts_proc \<Rightarrow> xts_fn" where
  "xts_call aes XTS_NONE inp len offset key = None"
| "xts_call aes XTS_AES_ENC inp len offset key = xts_aes_encrypt aes inp len offset key"
| "xts_call aes XTS_AES_DEC inp len offset key = xts_aes_decrypt aes inp len offset key"
| "xts_call aes XTS_TWOFISH_ENC inp len offset key = xts_twofish_encrypt inp len offset key"
| "xts_call aes XTS_TWOFISH_DEC inp len offset key = xts_twofish_decrypt inp len offset key"
| "xts_call aes XTS_SERPENT_ENC inp len offset key = xts_serpent_encrypt inp len offset key"
| "xts_call aes XTS_SERPENT_DEC inp len offset key = xts_serpent_decrypt inp len offset key"
| "xts_call aes XTS_AES_TWOFISH_ENC inp len offset key = do {
     out \<leftarrow> xts_twofish_encrypt inp len offset key;
     xts_aes_encrypt aes out len offset key }"
| "xts_call aes XTS_AES_TWOFISH_DEC inp len offset key = do {
     out \<leftarrow> xts_aes_decrypt aes inp len offset key;
     xts_twofish_decrypt out len offset key }"
| "xts_call aes XTS_TWOFISH_SERPENT_ENC inp len offset key = do {
     out \<leftarrow> xts_serpent_encrypt inp len offset key;
     xts_twofish_encrypt out len offset key }"
| "xts_call aes XTS_TWOFISH_SERPENT_DEC inp len offset key = do {
     out \<leftarrow> xts_twofish_decrypt inp len offset key;
     xts_serpent_decrypt out len offset key }"
| "xts_call aes XTS_SERPENT_AES_ENC inp len offset key = do {
     out \<leftarrow> xts_aes_encrypt aes inp len offset key;
     xts_serpent_encrypt out len offset key }"
| "xts_call aes XTS_SERPENT_AES_DEC inp len offset key = do {
     out \<leftarrow> xts_serpent_decrypt inp len offset key;
     xts_aes_decrypt aes out len offset key }"
| "xts_call aes XTS_AES_TWOFISH_SERPENT_ENC inp len offset key = do {
     out \<leftarrow> xts_serpent_encrypt inp len offset key;
     out \<leftarrow> xts_twofish_encrypt out len offset key;
     xts_aes_encrypt aes out len offset key }"
| "xts_call aes XTS_AES_TWOFISH_SERPENT_DEC inp len offset key = do {
     out \<leftarrow> xts_aes_decrypt aes inp len offset key;
     out \<leftarrow> xts_twofish_decrypt out len offset key;
     xts_serpent_decrypt out len offset key }"

text \<open>The macros \<^verbatim>\<open>xts_encrypt\<close> and \<^verbatim>\<open>xts_decrypt\<close>: a call through the pointer of the key.\<close>

definition xts_encrypt :: "aes_core \<Rightarrow> xts_fn" where
  "xts_encrypt aes inp len offset key = xts_call aes (xk_encrypt key) inp len offset key"

definition xts_decrypt :: "aes_core \<Rightarrow> xts_fn" where
  "xts_decrypt aes inp len offset key = xts_call aes (xk_decrypt key) inp len offset key"

text \<open>
  \<^verbatim>\<open>xts_set_key\<close>: which 32 bytes of the key go to which schedule, and the two pointers. The result 0
  leaves the key as it was. Reading behind the key bytes is \<open>None\<close>.
\<close>

definition set_aes :: "u8 list \<Rightarrow> nat \<Rightarrow> cipher_keys \<Rightarrow> cipher_keys option" where
  "set_aes key i ck = map_option (\<lambda>k. ck\<lparr>ck_aes := aes256_set_key k\<rparr>) (rd key (32 * i) 32)"

definition set_twofish :: "u8 list \<Rightarrow> nat \<Rightarrow> cipher_keys \<Rightarrow> cipher_keys option" where
  "set_twofish key i ck = map_option (\<lambda>k. ck\<lparr>ck_twofish := twofish256_set_key k\<rparr>) (rd key (32 * i) 32)"

definition set_serpent :: "u8 list \<Rightarrow> nat \<Rightarrow> cipher_keys \<Rightarrow> cipher_keys option" where
  "set_serpent key i ck = map_option (\<lambda>k. ck\<lparr>ck_serpent := serpent256_set_key k\<rparr>) (rd key (32 * i) 32)"

definition xts_set_key :: "u8 list \<Rightarrow> int \<Rightarrow> xts_key \<Rightarrow> (int \<times> xts_key) option" where
  "xts_set_key key alg skey =
     (let c = crypt_k skey; t = tweak_k skey;
          ret = (\<lambda>c t e d. Some (1, skey\<lparr>crypt_k := c, tweak_k := t, xk_encrypt := e, xk_decrypt := d\<rparr>))
      in
      if alg = 0 then do {
        c \<leftarrow> set_aes key 0 c; t \<leftarrow> set_aes key 1 t;
        ret c t XTS_AES_ENC XTS_AES_DEC }
      else if alg = 1 then do {
        c \<leftarrow> set_twofish key 0 c; t \<leftarrow> set_twofish key 1 t;
        ret c t XTS_TWOFISH_ENC XTS_TWOFISH_DEC }
      else if alg = 2 then do {
        c \<leftarrow> set_serpent key 0 c; t \<leftarrow> set_serpent key 1 t;
        ret c t XTS_SERPENT_ENC XTS_SERPENT_DEC }
      else if alg = 3 then do {
        c \<leftarrow> set_twofish key 0 c; c \<leftarrow> set_aes key 1 c;
        t \<leftarrow> set_twofish key 2 t; t \<leftarrow> set_aes key 3 t;
        ret c t XTS_AES_TWOFISH_ENC XTS_AES_TWOFISH_DEC }
      else if alg = 4 then do {
        c \<leftarrow> set_serpent key 0 c; c \<leftarrow> set_twofish key 1 c;
        t \<leftarrow> set_serpent key 2 t; t \<leftarrow> set_twofish key 3 t;
        ret c t XTS_TWOFISH_SERPENT_ENC XTS_TWOFISH_SERPENT_DEC }
      else if alg = 5 then do {
        c \<leftarrow> set_aes key 0 c; c \<leftarrow> set_serpent key 1 c;
        t \<leftarrow> set_aes key 2 t; t \<leftarrow> set_serpent key 3 t;
        ret c t XTS_SERPENT_AES_ENC XTS_SERPENT_AES_DEC }
      else if alg = 6 then do {
        c \<leftarrow> set_serpent key 0 c; c \<leftarrow> set_twofish key 1 c; c \<leftarrow> set_aes key 2 c;
        t \<leftarrow> set_serpent key 3 t; t \<leftarrow> set_twofish key 4 t; t \<leftarrow> set_aes key 5 t;
        ret c t XTS_AES_TWOFISH_SERPENT_ENC XTS_AES_TWOFISH_SERPENT_DEC }
      else Some (0, skey))"

section \<open>Decryption inverts encryption\<close>

text \<open>The procedures as sector ciphers.\<close>

interpretation xts_sp: sector_cipher
  "\<lambda>P len off. xts_serpent_encrypt P len off key" "\<lambda>C len off. xts_serpent_decrypt C len off key" for key
  unfolding xts_serpent_encrypt_def xts_serpent_decrypt_def by (rule sp.sector_cipher_xts)

text \<open>What is asked of the AES core: under each schedule it is a block cipher.\<close>

definition aes_core_ok :: "aes_core \<Rightarrow> bool" where
  "aes_core_ok aes \<longleftrightarrow> (\<forall>k. block_cipher (aes_enc aes k) (aes_dec aes k))"

lemma xts_aes_sector_cipher:
  "aes_core_ok aes \<Longrightarrow> sector_cipher (\<lambda>P len off. xts_aes_encrypt aes P len off key) (\<lambda>C len off. xts_aes_decrypt aes C len off key)"
  unfolding xts_aes_encrypt_def xts_aes_decrypt_def aes_core_ok_def by (rule block_cipher.sector_cipher_xts) simp

lemma sector_cascade_cipher:
  "sector_cipher e1 d1 \<Longrightarrow> sector_cipher e2 d2 \<Longrightarrow>
   sector_cipher (\<lambda>P len off. e1 P len off \<bind> (\<lambda>C. e2 C len off)) (\<lambda>C len off. d2 C len off \<bind> (\<lambda>P. d1 P len off))"
  by (rule sector_cascade.cascade_cipher) (rule sector_cascade.intro)


text \<open>The pair of procedures a key selects.\<close>

definition xts_pairs :: "(xts_proc \<times> xts_proc) list" where
  "xts_pairs = [
    (XTS_AES_ENC, XTS_AES_DEC), (XTS_TWOFISH_ENC, XTS_TWOFISH_DEC), (XTS_SERPENT_ENC, XTS_SERPENT_DEC),
    (XTS_AES_TWOFISH_ENC, XTS_AES_TWOFISH_DEC), (XTS_TWOFISH_SERPENT_ENC, XTS_TWOFISH_SERPENT_DEC),
    (XTS_SERPENT_AES_ENC, XTS_SERPENT_AES_DEC), (XTS_AES_TWOFISH_SERPENT_ENC, XTS_AES_TWOFISH_SERPENT_DEC)]"

lemma xts_call_sector_cipher:
  assumes aes: "aes_core_ok aes" and "(e, d) \<in> set xts_pairs"
  shows "sector_cipher (\<lambda>P len off. xts_call aes e P len off key) (\<lambda>C len off. xts_call aes d C len off key)"
proof -
  note a = xts_aes_sector_cipher [OF aes, of key]
  note t = xts_tf.sector_cipher_axioms [of key]
  note s = xts_sp.sector_cipher_axioms [of key]
  note ts = sector_cascade_cipher [OF s t]
  from assms(2) consider "(e, d) = xts_pairs ! 0" | "(e, d) = xts_pairs ! 1" | "(e, d) = xts_pairs ! 2"
    | "(e, d) = xts_pairs ! 3" | "(e, d) = xts_pairs ! 4" | "(e, d) = xts_pairs ! 5" | "(e, d) = xts_pairs ! 6"
    by (auto simp: xts_pairs_def)
  then show ?thesis
    by cases (use a t s sector_cascade_cipher [OF t a] ts sector_cascade_cipher [OF a s] sector_cascade_cipher [OF ts a]
      in \<open>simp_all add: xts_pairs_def\<close>)
qed

lemma set_key_ret:
  "Some (1, skey\<lparr>crypt_k := c, tweak_k := t, xk_encrypt := e, xk_decrypt := d\<rparr>) = Some (1 :: int, skey') \<Longrightarrow>
   (xk_encrypt skey', xk_decrypt skey') = (e, d)"
  by auto

lemma xts_set_key_pairs:
  assumes "xts_set_key key alg skey = Some (1, skey')"
  shows "(xk_encrypt skey', xk_decrypt skey') \<in> set xts_pairs"
  using assms unfolding xts_set_key_def Let_def
  apply (simp only: split: if_split_asm)
  apply (elim bind_SomeE; drule set_key_ret; simp add: xts_pairs_def)+
  apply simp
  done

lemma xts_set_key_defined:
  assumes "length key = 192" and "0 \<le> alg" and "alg \<le> 6"
  shows "\<exists>skey'. xts_set_key key alg skey = Some (1, skey')"
proof -
  have "alg = 0 \<or> alg = 1 \<or> alg = 2 \<or> alg = 3 \<or> alg = 4 \<or> alg = 5 \<or> alg = 6" using assms(2,3) by linarith
  then show ?thesis
    by (elim disjE) (simp_all add: xts_set_key_def Let_def set_aes_def set_twofish_def set_serpent_def rd_Some assms(1))
qed


text \<open>A cipher core for the witnesses: each byte is combined with the first byte of the schedule.\<close>

definition toy_core :: aes_core where
  "toy_core = \<lparr>aes_enc = \<lambda>k. map (\<lambda>b. b XOR ucast (enc_key k ! 0)), aes_dec = \<lambda>k. map (\<lambda>b. b XOR ucast (enc_key k ! 0))\<rparr>"

lemma toy_core_ok: "aes_core_ok toy_core"
  unfolding aes_core_ok_def toy_core_def by (intro allI block_cipher.intro) (simp_all add: o_def xor.assoc)


end
