(* ===== verification/Xts_Sectors.thy ===== *)
theory Xts_Sectors
  imports Xts_Fast
begin

text \<open>
  What the volume library needs of the XTS procedures beside the round trip: a valid request is
  always answered with as many bytes as were asked for, and a request over several sectors is the
  concatenation of requests over its parts (the header is sealed in one call and opened in two).
\<close>

section \<open>Length and locality\<close>

text \<open>The output of a procedure has the requested length whatever the cipher does.\<close>

lemma length_xts_blocks_any: "length (xts_blocks crypt n t P) = 16 * n"
proof (induction n arbitrary: t P)
  case (Suc n)
  obtain t0 t1 where "t = (t0, t1)" by force
  with Suc show ?case by (simp add: Let_def)
qed simp

lemma xts_blocks_take: "16 * n \<le> k \<Longrightarrow> xts_blocks crypt n t (take k P) = xts_blocks crypt n t P"
proof (induction n arbitrary: t P k)
  case (Suc n)
  have "take 16 (take k P) = take 16 P" using Suc.prems by (simp add: min_def)
  moreover have "drop 16 (take k P) = take (k - 16) (drop 16 P)" by (simp add: drop_take)
  ultimately show ?case using Suc by (simp add: Let_def)
qed simp

lemma xts_blocks_append: "16 * n \<le> length P \<Longrightarrow> xts_blocks crypt n t (P @ Q) = xts_blocks crypt n t P"
  using xts_blocks_take [of n "length P" crypt t "P @ Q"] by simp

lemma xts_sectors_total:
  "xts_len_ok len P \<Longrightarrow> \<exists>C. xts_sectors tweak crypt sector len P = Some C \<and> length C = unat len"
proof (induction sector len P rule: xts_len_induct)
  case (last sector len P)
  then show ?case
    by (subst xts_sectors.simps) (simp add: XTS_SECTOR_SIZE_def Let_def length_xts_blocks_any)
next
  case (more sector len P)
  then obtain C where "xts_sectors tweak crypt (sector + 1) (len - 512) (drop 512 P) = Some C"
    and "length C = unat (len - 512)" by auto
  with more show ?case
    by (subst xts_sectors.simps) (simp add: XTS_SECTOR_SIZE_def Let_def length_xts_blocks_any)
qed

text \<open>A request is its first sectors and the rest at the following sector number.\<close>

lemma xts_sectors_append:
  assumes "0 < k" and "length A = 512 * k" and "xts_len_ok len2 B" and "unat len = 512 * k + unat len2"
    and "512 * k < 2 ^ 64"
  shows "xts_sectors tweak crypt sector len (A @ B) = do {
    a \<leftarrow> xts_sectors tweak crypt sector (of_nat (512 * k)) A;
    b \<leftarrow> xts_sectors tweak crypt (sector + of_nat k) len2 B;
    Some (a @ b) }"
  using assms
proof (induction k arbitrary: sector A len)
  case (Suc k)
  have l2: "len2 \<noteq> 0" using Suc.prems(3) by (simp add: xts_len_ok_def)
  then have u2: "0 < unat len2" by (simp add: unat_gt_0)
  have "512 \<le> len" using Suc.prems(4) by (simp add: word_le_nat_alt)
  then have ul: "unat (len - 512) = 512 * k + unat len2" using Suc.prems(4) by (simp add: unat_sub)
  have nz: "len - 512 \<noteq> 0" using ul u2 by (metis add_is_0 less_irrefl unat_0)
  let ?o = "xts_blocks crypt 32 (xts_tweak tweak (sector + 1))"
  have o: "?o (A @ B) = ?o A" using Suc.prems(2) by (intro xts_blocks_append) simp
  have la: "512 \<le> length A" using Suc.prems(2) by simp
  have lhs: "xts_sectors tweak crypt sector len (A @ B) =
      map_option ((@) (?o A)) (xts_sectors tweak crypt (sector + 1) (len - 512) (drop 512 A @ B))"
    using la nz by (subst xts_sectors.simps) (simp add: XTS_SECTOR_SIZE_def Let_def o)
  show ?case
  proof (cases "k = 0")
    case True
    then have A: "length A = 512" using Suc.prems(2) by simp
    have "xts_sectors tweak crypt sector 512 A = Some (?o A)"
      using A by (subst xts_sectors.simps) (simp add: XTS_SECTOR_SIZE_def Let_def)
    moreover have "len - 512 = len2" using ul True by (simp add: word_unat_eq_iff)
    ultimately show ?thesis
      using A lhs True by (cases "xts_sectors tweak crypt (sector + 1) len2 B") simp_all
  next
    case False
    have k: "unat (of_nat (512 * Suc k) :: u64) = 512 * Suc k"
      using Suc.prems(5) by (simp only: unat_of_nat) (simp add: mod_less)
    have km: "of_nat (512 * Suc k) - 512 = (of_nat (512 * k) :: u64)" by simp
    have kz: "(of_nat (512 * k) :: u64) \<noteq> 0"
    proof -
      have "unat (of_nat (512 * k) :: u64) = 512 * k"
        using Suc.prems(5) by (simp only: unat_of_nat) (simp add: mod_less)
      with False show ?thesis by (metis mult_is_0 unat_0 zero_neq_numeral)
    qed
    have "xts_sectors tweak crypt (sector + 1) (len - 512) (drop 512 A @ B) = do {
        a \<leftarrow> xts_sectors tweak crypt (sector + 1) (of_nat (512 * k)) (drop 512 A);
        b \<leftarrow> xts_sectors tweak crypt (sector + 1 + of_nat k) len2 B;
        Some (a @ b) }"
      using Suc.prems False ul by (intro Suc.IH) simp_all
    moreover have "xts_sectors tweak crypt sector (of_nat (512 * Suc k)) A =
        map_option ((@) (?o A)) (xts_sectors tweak crypt (sector + 1) (of_nat (512 * k)) (drop 512 A))"
      using la kz unfolding km [symmetric]
      by (subst xts_sectors.simps) (simp add: XTS_SECTOR_SIZE_def Let_def del: of_nat_mult of_nat_Suc)
    ultimately show ?thesis
      unfolding lhs
      by (cases "xts_sectors tweak crypt (sector + 1) (of_nat (512 * k)) (drop 512 A)";
          cases "xts_sectors tweak crypt (sector + 1 + of_nat k) len2 B")
        (simp_all add: add.assoc del: of_nat_mult)
  qed
qed simp

text \<open>A block of the output depends on the same block of the input only.\<close>

lemma xts_blocks_local:
  "j < n \<Longrightarrow> take 16 (drop (16 * j) P) = take 16 (drop (16 * j) P') \<Longrightarrow>
   take 16 (drop (16 * j) (xts_blocks crypt n t P)) = take 16 (drop (16 * j) (xts_blocks crypt n t P'))"
proof (induction n arbitrary: t P P' j)
  case (Suc n)
  let ?o = "\<lambda>P. xor_tweak t (crypt (xor_tweak t (take 16 P)))"
  have l: "length (?o P) = 16" for P by (cases t) simp
  have s: "xts_blocks crypt (Suc n) t P = ?o P @ xts_blocks crypt n (tweak_next t) (drop 16 P)" for P
    by (simp add: Let_def)
  show ?case
  proof (cases j)
    case 0
    with Suc.prems(2) l [of P] l [of P'] show ?thesis unfolding s by simp
  next
    case (Suc i)
    have "take 16 (drop (16 * i) (drop 16 P)) = take 16 (drop (16 * i) (drop 16 P'))"
      using Suc.prems(2) Suc by (simp add: add.commute)
    with Suc.IH [of i "drop 16 P" "drop 16 P'" "tweak_next t"] Suc.prems(1) Suc l [of P] l [of P']
    show ?thesis unfolding s by simp
  qed
qed simp

lemma xts_sectors_local:
  "xts_len_ok len P \<Longrightarrow> xts_len_ok len P' \<Longrightarrow>
   xts_sectors tweak crypt sector len P = Some C \<Longrightarrow> xts_sectors tweak crypt sector len P' = Some C' \<Longrightarrow>
   16 * j < unat len \<Longrightarrow> take 16 (drop (16 * j) P) = take 16 (drop (16 * j) P') \<Longrightarrow>
   take 16 (drop (16 * j) C) = take 16 (drop (16 * j) C')"
proof (induction sector len P arbitrary: P' C C' j rule: xts_len_induct)
  case (last sector len P)
  have l: "512 \<le> length P" "512 \<le> length P'" using xts_len_step(1) last.prems(1) last.hyps(1) by blast+
  have C: "C = xts_blocks crypt 32 (xts_tweak tweak (sector + 1)) P"
    and C': "C' = xts_blocks crypt 32 (xts_tweak tweak (sector + 1)) P'"
    using last l by (subst (asm) xts_sectors.simps; simp add: XTS_SECTOR_SIZE_def Let_def)+
  show ?case unfolding C C'
    using last.prems(4,5) last.hyps(3) by (intro xts_blocks_local) auto
next
  case (more sector len P)
  let ?b = "\<lambda>P. xts_blocks crypt 32 (xts_tweak tweak (sector + 1)) P"
  have l: "512 \<le> length P" "512 \<le> length P'" using xts_len_step(1) more.prems(1) more.hyps(1) by blast+
  obtain D where D: "xts_sectors tweak crypt (sector + 1) (len - 512) (drop 512 P) = Some D" "C = ?b P @ D"
    using more.prems(2) l(1) more.hyps(3) by (subst (asm) xts_sectors.simps) (auto simp: XTS_SECTOR_SIZE_def Let_def)
  obtain D' where D': "xts_sectors tweak crypt (sector + 1) (len - 512) (drop 512 P') = Some D'" "C' = ?b P' @ D'"
    using more.prems(3) l(2) more.hyps(3) by (subst (asm) xts_sectors.simps) (auto simp: XTS_SECTOR_SIZE_def Let_def)
  have lb: "length (?b P) = 512" for P by (simp add: length_xts_blocks_any)
  show ?case
  proof (cases "j < 32")
    case True
    then have "16 * j + 16 \<le> 512" by simp
    then show ?thesis
      using xts_blocks_local [OF True more.prems(5)] lb [of P] lb [of P'] unfolding D(2) D'(2) by simp
  next
    case False
    then obtain i where i: "j = 32 + i" by (metis le_Suc_ex not_le)
    have "take 16 (drop (16 * i) D) = take 16 (drop (16 * i) D')"
    proof (rule more.IH [OF _ D(1) D'(1)])
      show "xts_len_ok (len - 512) (drop 512 P')" using xts_len_step(2) more.prems(1) more.hyps(3) by blast
      show "16 * i < unat (len - 512)" using more.prems(4) more.hyps(5) i by simp
      show "take 16 (drop (16 * i) (drop 512 P)) = take 16 (drop (16 * i) (drop 512 P'))"
        using more.prems(5) i by (simp add: add.commute)
    qed
    then show ?thesis unfolding D(2) D'(2) i using lb [of P] lb [of P'] by simp
  qed
qed

text \<open>
  A procedure over sectors: total on valid requests, of the requested length, cut at any sector
  boundary, and block by block. Cascades of such procedures are such procedures.
\<close>

locale sector_fun =
  fixes f :: "u8 list \<Rightarrow> u64 \<Rightarrow> u64 \<Rightarrow> u8 list option"
  assumes f_total: "xts_len_ok len P \<Longrightarrow> \<exists>C. f P len off = Some C \<and> length C = unat len"
    and f_append_at: "0 < k \<Longrightarrow> length A = 512 * k \<Longrightarrow> xts_len_ok len2 B \<Longrightarrow>
      unat len = 512 * k + unat len2 \<Longrightarrow> 512 dvd unat off \<Longrightarrow> unat off + 512 * k < 2 ^ 64 \<Longrightarrow>
      f (A @ B) len off = do {
        a \<leftarrow> f A (of_nat (512 * k)) off;
        b \<leftarrow> f B len2 (off + of_nat (512 * k));
        Some (a @ b) }"
    and f_local: "xts_len_ok len P \<Longrightarrow> xts_len_ok len P' \<Longrightarrow> f P len off = Some C \<Longrightarrow> f P' len off = Some C' \<Longrightarrow>
      16 * j < unat len \<Longrightarrow> take 16 (drop (16 * j) P) = take 16 (drop (16 * j) P') \<Longrightarrow>
      take 16 (drop (16 * j) C) = take 16 (drop (16 * j) C')"
begin

lemma f_append:
  "0 < k \<Longrightarrow> length A = 512 * k \<Longrightarrow> xts_len_ok len2 B \<Longrightarrow> unat len = 512 * k + unat len2 \<Longrightarrow> 512 * k < 2 ^ 64 \<Longrightarrow>
   f (A @ B) len 0 = do {
     a \<leftarrow> f A (of_nat (512 * k)) 0;
     b \<leftarrow> f B len2 (of_nat (512 * k));
     Some (a @ b) }"
  using f_append_at [of k A len2 B len 0] by simp

lemma len_ok_again: "xts_len_ok len P \<Longrightarrow> length C = unat len \<Longrightarrow> xts_len_ok len C"
  by (simp add: xts_len_ok_def)

lemma len_ok_front: "0 < k \<Longrightarrow> length (A :: u8 list) = 512 * k \<Longrightarrow> 512 * k < 2 ^ 64 \<Longrightarrow> xts_len_ok (of_nat (512 * k)) A"
proof -
  assume k: "0 < k" "length (A :: u8 list) = 512 * k" "512 * k < 2 ^ 64"
  then have u: "unat (of_nat (512 * k) :: u64) = 512 * k" by (simp only: unat_of_nat) (simp add: mod_less)
  then have "(of_nat (512 * k) :: u64) \<noteq> 0" using k(1) by (metis mult_is_0 not_gr0 unat_0 zero_neq_numeral)
  with u k(2) show ?thesis by (simp add: xts_len_ok_def del: of_nat_mult)
qed

end

lemma sector_fun_cascade:
  assumes f: "sector_fun f" and g: "sector_fun g"
  shows "sector_fun (\<lambda>P len off. f P len off \<bind> (\<lambda>C. g C len off))"
proof
  fix len P off
  assume l: "xts_len_ok len P"
  then obtain C where "f P len off = Some C" "length C = unat len" using sector_fun.f_total [OF f] by blast
  moreover have "xts_len_ok len C" using sector_fun.len_ok_again [OF f l \<open>length C = unat len\<close>] .
  ultimately show "\<exists>C. f P len off \<bind> (\<lambda>C. g C len off) = Some C \<and> length C = unat len"
    using sector_fun.f_total [OF g] by (metis bind.bind_lunit)
next
  fix k A len2 B and len off :: u64
  assume a: "0 < k" "length (A :: u8 list) = 512 * k" "xts_len_ok len2 B" "unat len = 512 * k + unat len2"
    "512 dvd unat off" "unat off + 512 * k < 2 ^ 64"
  have k64: "512 * k < 2 ^ 64" using a(6) by linarith
  have lA: "xts_len_ok (of_nat (512 * k)) A" using sector_fun.len_ok_front [OF f a(1,2) k64] .
  have u: "unat (of_nat (512 * k) :: u64) = 512 * k" using k64 by (simp only: unat_of_nat) (simp add: mod_less)
  obtain x where x: "f A (of_nat (512 * k)) off = Some x" "length x = 512 * k"
    using sector_fun.f_total [OF f lA, of off] u by auto
  obtain y where y: "f B len2 (off + of_nat (512 * k)) = Some y" "length y = unat len2"
    using sector_fun.f_total [OF f a(3)] by blast
  have "xts_len_ok len2 y" using sector_fun.len_ok_again [OF f a(3) y(2)] .
  then have "g (x @ y) len off = do { a \<leftarrow> g x (of_nat (512 * k)) off; b \<leftarrow> g y len2 (off + of_nat (512 * k)); Some (a @ b) }"
    using a x(2) by (intro sector_fun.f_append_at [OF g])
  then show "f (A @ B) len off \<bind> (\<lambda>C. g C len off) = do {
      a \<leftarrow> f A (of_nat (512 * k)) off \<bind> (\<lambda>C. g C (of_nat (512 * k)) off);
      b \<leftarrow> f B len2 (off + of_nat (512 * k)) \<bind> (\<lambda>C. g C len2 (off + of_nat (512 * k)));
      Some (a @ b) }"
    using sector_fun.f_append_at [OF f a] x(1) y(1) by simp
next
  fix len P P' off C C' and j :: nat
  assume a: "xts_len_ok len P" "xts_len_ok len P'" "f P len off \<bind> (\<lambda>C. g C len off) = Some C"
    "f P' len off \<bind> (\<lambda>C. g C len off) = Some C'" "16 * j < unat len"
    "take 16 (drop (16 * j) P) = take 16 (drop (16 * j) P')"
  from a(3,4) obtain x x' where x: "f P len off = Some x" "g x len off = Some C"
    "f P' len off = Some x'" "g x' len off = Some C'"
    by (auto elim!: bind_SomeE)
  have "length x = unat len" "length x' = unat len"
    using sector_fun.f_total [OF f a(1), of off] sector_fun.f_total [OF f a(2), of off] x by auto
  then have l: "xts_len_ok len x" "xts_len_ok len x'"
    using sector_fun.len_ok_again [OF f a(1)] by blast+
  have "take 16 (drop (16 * j) x) = take 16 (drop (16 * j) x')"
    using sector_fun.f_local [OF f a(1,2) x(1,3) a(5,6)] .
  then show "take 16 (drop (16 * j) C) = take 16 (drop (16 * j) C')"
    by (rule sector_fun.f_local [OF g l x(2,4) a(5)])
qed

lemma sector_fun_xts: "sector_fun (DEF_XTS_PROC tweak crypt)"
proof
  show "\<exists>C. DEF_XTS_PROC tweak crypt P len off = Some C \<and> length C = unat len" if "xts_len_ok len P" for len P off
    using that unfolding DEF_XTS_PROC_def by (rule xts_sectors_total)
next
  fix k A len2 B and len off :: u64
  assume a: "0 < k" "length (A :: u8 list) = 512 * k" "xts_len_ok len2 B" "unat len = 512 * k + unat len2"
    and o: "512 dvd unat off" "unat off + 512 * k < (2 :: nat) ^ 64"
  have k64: "512 * k < 2 ^ 64" using o(2) by linarith
  have u: "unat (of_nat (512 * k) :: u64) = 512 * k" using k64 by (simp only: unat_of_nat) (simp add: mod_less)
  have uo: "unat (off + of_nat (512 * k)) = unat off + 512 * k"
    using o(2) u by (simp only: unat_word_ariths) (simp add: mod_less)
  have "unat ((off + of_nat (512 * k)) div 512) = unat off div 512 + k" unfolding unat_div uo by simp
  moreover have "unat (off div 512 + of_nat k) = unat off div 512 + k"
  proof -
    have "unat (of_nat k :: u64) = k" using k64 by (simp only: unat_of_nat) (simp add: mod_less)
    then show ?thesis using o(2) by (simp only: unat_word_ariths unat_div) (simp add: mod_less)
  qed
  ultimately have d: "(off + of_nat (512 * k)) div 512 = off div 512 + of_nat k" by (simp only: word_unat_eq_iff)
  show "DEF_XTS_PROC tweak crypt (A @ B) len off = do {
      a \<leftarrow> DEF_XTS_PROC tweak crypt A (of_nat (512 * k)) off;
      b \<leftarrow> DEF_XTS_PROC tweak crypt B len2 (off + of_nat (512 * k));
      Some (a @ b) }"
    unfolding DEF_XTS_PROC_def d using xts_sectors_append [OF a k64, of tweak crypt "off div 512"] by simp
next
  show "take 16 (drop (16 * j) C) = take 16 (drop (16 * j) C')"
    if "xts_len_ok len P" "xts_len_ok len P'" "DEF_XTS_PROC tweak crypt P len off = Some C"
      "DEF_XTS_PROC tweak crypt P' len off = Some C'" "16 * j < unat len"
      "take 16 (drop (16 * j) P) = take 16 (drop (16 * j) P')" for len P P' off C C' j
    using that unfolding DEF_XTS_PROC_def by (rule xts_sectors_local)
qed

interpretation xts_proc: sector_fun "DEF_XTS_PROC tweak crypt" for tweak crypt
  by (rule sector_fun_xts)

lemma xts_call_sector_fun:
  assumes "p \<noteq> XTS_NONE"
  shows "sector_fun (\<lambda>P len off. xts_call aes p P len off key)"
proof -
  have a: "sector_fun (\<lambda>P len off. xts_aes_encrypt aes P len off key)" "sector_fun (\<lambda>P len off. xts_aes_decrypt aes P len off key)"
    unfolding xts_aes_encrypt_def xts_aes_decrypt_def by (rule sector_fun_xts)+
  have t: "sector_fun (\<lambda>P len off. xts_twofish_encrypt P len off key)" "sector_fun (\<lambda>P len off. xts_twofish_decrypt P len off key)"
    unfolding xts_twofish_eq by (rule sector_fun_xts)+
  have s: "sector_fun (\<lambda>P len off. xts_serpent_encrypt P len off key)" "sector_fun (\<lambda>P len off. xts_serpent_decrypt P len off key)"
    unfolding xts_serpent_encrypt_def xts_serpent_decrypt_def by (rule sector_fun_xts)+
  note c = sector_fun_cascade
  show ?thesis
    using assms a t s c [OF t(1) a(1)] c [OF a(2) t(2)] c [OF s(1) t(1)] c [OF t(2) s(2)] c [OF a(1) s(1)] c [OF s(2) a(2)]
      c [OF c [OF s(1) t(1)] a(1)] c [OF c [OF a(2) t(2)] s(2)]
    by (cases p) simp_all
qed

end
