(* ===== verification/Dc_Types.thy ===== *)
theory Dc_Types
  imports Hmac
begin

text \<open>
  The types the volume library shares: the status codes of \<^verbatim>\<open>dc_status.h\<close> and the password
  structure of \<^verbatim>\<open>volume_header.h\<close>. A C \<^verbatim>\<open>int\<close> is an \<open>int\<close> here; the functions that use one as a size
  check its sign where the C conversion to \<^verbatim>\<open>size_t\<close> would make it huge.
\<close>

datatype dc_status =
    ST_OK | ST_ERROR | ST_RW_ERR | ST_PASS_ERR | ST_NOMEM | ST_INV_DATA_SIZE | ST_IO_ERROR | ST_NF_SPACE
  | ST_FINISHED | ST_INV_SECT | ST_CANCEL | ST_EMPTY_KEYFILES | ST_INV_VOLUME | ST_INCOMPATIBLE
  | ST_INVALID_PARAM | ST_SMALL_BUFF | ST_BAD_INDEX | ST_SLOT_NOT_OK

record dc_pass =
  p_size :: int
  p_pass :: buf
  p_kdf :: int
  p_slot :: int

text \<open>The bytes of the password, as a call with \<^verbatim>\<open>pass->pass\<close> and \<^verbatim>\<open>pass->size\<close> reads them.\<close>

definition pass_bytes :: "dc_pass \<Rightarrow> u8 list option" where
  "pass_bytes p = (if p_size p < 0 then None else rd (p_pass p) 0 (nat (p_size p)))"

definition pass_ok :: "dc_pass \<Rightarrow> bool" where
  "pass_ok p \<longleftrightarrow> length (p_pass p) = 256 \<and> 0 \<le> p_size p \<and> p_size p \<le> 256"

lemma pass_bytes_Some: "pass_ok p \<Longrightarrow> pass_bytes p = Some (take (nat (p_size p)) (p_pass p))"
  by (simp add: pass_bytes_def pass_ok_def rd_def nat_le_iff)

end
