(* ===== verification/Keyfile_Mix.thy ===== *)
theory Keyfile_Mix
  imports Dc_Types "HOL-Library.List_Lexorder" "HOL-Library.Multiset"
begin

text \<open>
  Keyfiles mixed into a password (\<^verbatim>\<open>volume_lib/keyfile_mix.c\<close>): the growing array of keyfile
  hashes, the insertion sort and the compaction that make it a set, the domain-separated digest
  over it, and the older additive scheme. The context a function keeps on its stack starts with
  arbitrary contents: it is the parameter \<open>st\<close>. Wiping memory has no effect on a result and is
  left out; a NULL context pointer has no counterpart.
\<close>

section \<open>The code\<close>

definition cp_kf_hash_data :: "sha512_ctx \<Rightarrow> u8 list option \<Rightarrow> (dc_status + u8 list) option" where
  "cp_kf_hash_data st data =
     (case data of
        None \<Rightarrow> Some (Inl ST_INVALID_PARAM)
      | Some d \<Rightarrow>
          if d = [] then Some (Inl ST_INVALID_PARAM)
          else do {
            c \<leftarrow> sha512_hash (sha512_init st) d;
            h \<leftarrow> sha512_done c;
            Some (Inr h) })"

text \<open>The array of hashes is a list of slots of 64 bytes, \<open>None\<close> before the first allocation.\<close>

record dc_kf_mixer =
  kf_hashes :: "u8 list list option"
  kf_count :: nat
  kf_capacity :: nat

definition cp_kf_mixer_init :: dc_kf_mixer where
  "cp_kf_mixer_init = \<lparr>kf_hashes = None, kf_count = 0, kf_capacity = 0\<rparr>"

definition cp_kf_mixer_free :: "dc_kf_mixer \<Rightarrow> dc_kf_mixer" where
  "cp_kf_mixer_free ctx = ctx\<lparr>kf_hashes := None, kf_count := 0, kf_capacity := 0\<rparr>"

text \<open>\<open>alloc want\<close> is what \<^verbatim>\<open>dc_alloc\<close> returns for \<open>want\<close> slots: NULL, or slots with any contents.\<close>

type_synonym kf_alloc = "nat \<Rightarrow> u8 list list option"

definition kf_grow :: "kf_alloc \<Rightarrow> dc_kf_mixer \<Rightarrow> (dc_status \<times> dc_kf_mixer) option" where
  "kf_grow alloc ctx =
     (if kf_count ctx < kf_capacity ctx then Some (ST_OK, ctx)
      else
        (let want = (if kf_capacity ctx \<noteq> 0 then kf_capacity ctx * 2 else 16) in
         case alloc want of
           None \<Rightarrow> Some (ST_NOMEM, ctx)
         | Some bigger \<Rightarrow> do {
             bigger \<leftarrow>
               (case kf_hashes ctx of
                  None \<Rightarrow> Some bigger
                | Some hs \<Rightarrow> do { old \<leftarrow> rd hs 0 (kf_count ctx); wr bigger 0 old });
             Some (ST_OK, ctx\<lparr>kf_hashes := Some bigger, kf_capacity := want\<rparr>) }))"

definition cp_kf_mixer_add_hash ::
  "kf_alloc \<Rightarrow> dc_kf_mixer \<Rightarrow> u8 list option \<Rightarrow> (dc_status \<times> dc_kf_mixer) option" where
  "cp_kf_mixer_add_hash alloc ctx hash =
     (case hash of
        None \<Rightarrow> Some (ST_INVALID_PARAM, ctx)
      | Some h \<Rightarrow> do {
          (resl, ctx) \<leftarrow> kf_grow alloc ctx;
          if resl \<noteq> ST_OK then Some (resl, ctx)
          else do {
            hs \<leftarrow> kf_hashes ctx;
            hs \<leftarrow> wr hs (kf_count ctx) [h];
            Some (ST_OK, ctx\<lparr>kf_hashes := Some hs, kf_count := kf_count ctx + 1\<rparr>) } })"

definition cp_kf_mixer_add_data ::
  "sha512_ctx \<Rightarrow> kf_alloc \<Rightarrow> dc_kf_mixer \<Rightarrow> u8 list option \<Rightarrow> (dc_status \<times> dc_kf_mixer) option" where
  "cp_kf_mixer_add_data st alloc ctx data = do {
     r \<leftarrow> cp_kf_hash_data st data;
     (case r of
        Inl e \<Rightarrow> Some (e, ctx)
      | Inr h \<Rightarrow> cp_kf_mixer_add_hash alloc ctx (Some h)) }"

text \<open>The first difference decides, the bytes compared as unsigned numbers.\<close>

fun kf_hash_cmp :: "u8 list \<Rightarrow> u8 list \<Rightarrow> int" where
  "kf_hash_cmp (x # a) (y # b) = (if x \<noteq> y then (if x < y then -1 else 1) else kf_hash_cmp a b)"
| "kf_hash_cmp _ _ = 0"

text \<open>The inner loop of the insertion sort: \<open>j + 1\<close> is the position of the gap.\<close>

fun kf_shift :: "u8 list list \<Rightarrow> nat \<Rightarrow> u8 list \<Rightarrow> u8 list list" where
  "kf_shift hs 0 held = hs[0 := held]"
| "kf_shift hs (Suc j) held =
     (if 0 < kf_hash_cmp (hs ! j) held then kf_shift (hs[Suc j := hs ! j]) j held
      else hs[Suc j := held])"

definition kf_sort :: "u8 list list \<Rightarrow> nat \<Rightarrow> u8 list list" where
  "kf_sort hs cnt = foldl (\<lambda>hs i. kf_shift hs i (hs ! i)) hs [1..<cnt]"

definition kf_dedup_step :: "u8 list list \<times> nat \<Rightarrow> nat \<Rightarrow> u8 list list \<times> nat" where
  "kf_dedup_step s i =
     (case s of (hs, out) \<Rightarrow>
        if kf_hash_cmp (hs ! (out - 1)) (hs ! i) = 0 then (hs, out)
        else ((if out \<noteq> i then hs[out := hs ! i] else hs), out + 1))"

definition kf_dedup :: "u8 list list \<Rightarrow> nat \<Rightarrow> u8 list list \<times> nat" where
  "kf_dedup hs cnt =
     (if cnt < 2 then (hs, cnt) else foldl kf_dedup_step (hs, 1) [1..<cnt])"

definition kf_domain_set :: "u8 list" where
  "kf_domain_set = map (\<lambda>c. of_nat (of_char c)) ''DC2-KFSET-v1''"

definition kf_domain_pass :: "u8 list" where
  "kf_domain_pass = map (\<lambda>c. of_nat (of_char c)) ''DC2-PW-KF-v1''"

definition cp_kf_mixer_combine :: "sha512_ctx \<Rightarrow> dc_pass \<Rightarrow> u8 list \<Rightarrow> dc_pass option" where
  "cp_kf_mixer_combine st pass keyfiles_hash =
     (if p_size pass = 0 then do {
        b \<leftarrow> wr (p_pass pass) 0 keyfiles_hash;
        Some (pass\<lparr>p_pass := b, p_size := 64\<rparr>) }
      else do {
        p \<leftarrow> pass_bytes pass;
        c \<leftarrow> feed sha512_hash (sha512_init st) [kf_domain_pass, p, keyfiles_hash];
        h \<leftarrow> sha512_done c;
        b \<leftarrow> wr (p_pass pass) 0 h;
        Some (pass\<lparr>p_pass := b, p_size := 64\<rparr>) })"

definition cp_kf_mixer_finish ::
  "sha512_ctx \<Rightarrow> dc_kf_mixer \<Rightarrow> dc_pass \<Rightarrow> (dc_status \<times> dc_kf_mixer \<times> dc_pass) option" where
  "cp_kf_mixer_finish st ctx pass =
     (if kf_count ctx = 0 then Some (ST_EMPTY_KEYFILES, cp_kf_mixer_free ctx, pass)
      else do {
        hs \<leftarrow> kf_hashes ctx;
        let hs = kf_sort hs (kf_count ctx);
        let (hs, cnt) = kf_dedup hs (kf_count ctx);
        kept \<leftarrow> rd hs 0 cnt;
        c \<leftarrow> feed sha512_hash (sha512_init st) (kf_domain_set # kept);
        set_hash \<leftarrow> sha512_done c;
        pass \<leftarrow> cp_kf_mixer_combine st pass set_hash;
        Some (ST_OK, cp_kf_mixer_free ctx, pass) })"

text \<open>The additive scheme: sixteen 32-bit additions over the cleared tail of the password.\<close>

definition kf_word :: "u8 list \<Rightarrow> nat \<Rightarrow> u32" where
  "kf_word b i = of_nat (le_val (take 4 (drop (4 * i) b)))"

definition kf_add_words :: "u8 list \<Rightarrow> u8 list \<Rightarrow> u8 list" where
  "kf_add_words acc add = concat (map (\<lambda>i. le_bytes 4 (unat (kf_word acc i + kf_word add i))) [0..<16])"

definition cp_kf_mix_additive :: "dc_pass \<Rightarrow> u8 list \<Rightarrow> dc_pass option" where
  "cp_kf_mix_additive pass hash =
     (if p_size pass < 0 \<or> 256 < p_size pass then None
      else do {
        b \<leftarrow> wr (p_pass pass) (nat (p_size pass)) (replicate (256 - nat (p_size pass)) 0);
        acc \<leftarrow> rd b 0 64;
        b \<leftarrow> wr b 0 (kf_add_words acc hash);
        Some (pass\<lparr>p_pass := b, p_size := (if p_size pass < 64 then 64 else p_size pass)\<rparr>) })"

section \<open>Sorting and deduplication\<close>

lemma kf_hash_cmp_less: "length a = length b \<Longrightarrow> 0 < kf_hash_cmp a b \<longleftrightarrow> b < a"
  by (induction a b rule: list_induct2) auto

lemma kf_hash_cmp_eq: "length a = length b \<Longrightarrow> kf_hash_cmp a b = 0 \<longleftrightarrow> a = b"
  by (induction a b rule: list_induct2) auto

definition slots_ok :: "u8 list list \<Rightarrow> bool" where
  "slots_ok hs \<longleftrightarrow> (\<forall>h \<in> set hs. length h = 64)"

lemma slots_ok_simps [simp]:
  "slots_ok []" "slots_ok (h # hs) \<longleftrightarrow> length h = 64 \<and> slots_ok hs"
  "slots_ok (hs @ hs') \<longleftrightarrow> slots_ok hs \<and> slots_ok hs'"
  by (auto simp: slots_ok_def)

lemma slots_ok_sort [simp]: "slots_ok (sort hs) = slots_ok hs"
  by (simp add: slots_ok_def)

lemma slots_ok_nth: "slots_ok hs \<Longrightarrow> i < length hs \<Longrightarrow> length (hs ! i) = 64"
  by (simp add: slots_ok_def)

lemma length_concat_slots: "slots_ok hs \<Longrightarrow> length (concat hs) = 64 * length hs"
  by (induction hs) auto

text \<open>A sorted list is determined by its elements and their multiplicities.\<close>

lemma sort_snoc: "sort (xs @ [x]) = insort x (sort xs)"
  by (rule properties_for_sort) (auto simp: sorted_insort)

lemma insort_snoc:
  assumes "sorted (ys @ [y])"
  shows "insort x (ys @ [y]) = (if x < y then insort x ys @ [y] else ys @ [y, x])"
proof -
  have "sort ((ys @ [y]) @ [x]) = insort x (ys @ [y])"
    by (simp only: sort_snoc [of "ys @ [y]"] sorted_sort_id [OF assms])
  moreover have "sort ((ys @ [y]) @ [x]) = (if x < y then insort x ys @ [y] else ys @ [y, x])"
    using assms by (intro properties_for_sort) (auto simp: sorted_append sorted_insort set_insort_key)
  ultimately show ?thesis by simp
qed

lemma length_kf_shift [simp, len_simps]: "length (kf_shift hs i held) = length hs"
  by (induction hs i held rule: kf_shift.induct) auto

text \<open>Shifting inserts the held slot into the sorted prefix.\<close>

lemma kf_shift_insort:
  "slots_ok (take i hs) \<Longrightarrow> length held = 64 \<Longrightarrow> i < length hs \<Longrightarrow> sorted (take i hs) \<Longrightarrow>
   kf_shift hs i held = insort held (take i hs) @ drop (Suc i) hs"
proof (induction i arbitrary: hs)
  case 0
  then show ?case by (cases hs) auto
next
  case (Suc j)
  let ?hs = "hs[Suc j := hs ! j]"
  have t: "take (Suc j) hs = take j hs @ [hs ! j]"
    using Suc.prems(3) by (simp add: take_Suc_conv_app_nth)
  have d: "drop (Suc j) ?hs = hs ! j # drop (Suc (Suc j)) hs"
    using Suc.prems(3) by (simp add: Cons_nth_drop_Suc [symmetric])
  have ok: "length (hs ! j) = 64" "slots_ok (take j hs)" "sorted (take j hs)"
    using Suc.prems by (auto simp: t sorted_append)
  show ?case
  proof (cases "held < hs ! j")
    case True
    have "kf_shift ?hs j held = insort held (take j ?hs) @ drop (Suc j) ?hs"
      using Suc.prems ok by (intro Suc.IH) auto
    then show ?thesis
      using True ok Suc.prems by (simp add: kf_hash_cmp_less t insort_snoc d)
  next
    case False
    have "hs[Suc j := held] = take (Suc j) hs @ held # drop (Suc (Suc j)) hs"
      using Suc.prems(3) by (simp add: upd_conv_take_nth_drop)
    then show ?thesis
      using False ok Suc.prems by (simp add: kf_hash_cmp_less t insort_snoc)
  qed
qed

lemma kf_sort_sort:
  "slots_ok (take n hs) \<Longrightarrow> n \<le> length hs \<Longrightarrow> kf_sort hs n = sort (take n hs) @ drop n hs"
proof (induction n)
  case 0
  then show ?case by (simp add: kf_sort_def)
next
  case (Suc n)
  let ?s = "sort (take n hs) @ drop n hs"
  have t: "take (Suc n) hs = take n hs @ [hs ! n]"
    using Suc.prems(2) by (simp add: take_Suc_conv_app_nth)
  have ok: "slots_ok (take n hs)" "length (hs ! n) = 64" using Suc.prems(1) by (auto simp: t)
  have l: "length (sort (take n hs)) = n" using Suc.prems(2) by simp
  have n: "?s ! n = hs ! n" using Suc.prems(2) by (simp add: nth_append)
  have d: "drop (Suc n) ?s = drop (Suc n) hs" using l by simp
  show ?case
  proof (cases "n = 0")
    case True
    then show ?thesis using Suc.prems(2) by (cases hs) (auto simp: kf_sort_def)
  next
    case False
    then have "kf_sort hs (Suc n) = kf_shift (kf_sort hs n) n (kf_sort hs n ! n)"
      by (simp add: kf_sort_def)
    also have "\<dots> = kf_shift ?s n (hs ! n)" using Suc ok n by simp
    also have "\<dots> = insort (hs ! n) (take n ?s) @ drop (Suc n) ?s"
      using ok l Suc.prems(2) by (intro kf_shift_insort) auto
    also have "\<dots> = sort (take (Suc n) hs) @ drop (Suc n) hs"
      using l d by (simp add: t sort_snoc)
    finally show ?thesis .
  qed
qed

definition kf_dedup_inv :: "u8 list list \<Rightarrow> nat \<Rightarrow> u8 list list \<times> nat \<Rightarrow> bool" where
  "kf_dedup_inv hs i s \<longleftrightarrow>
     (case s of (b, out) \<Rightarrow>
        0 < out \<and> out \<le> i \<and> length b = length hs \<and> take out b = remdups_adj (take i hs) \<and>
        drop i b = drop i hs)"

lemma kf_dedup_step_inv:
  assumes inv: "kf_dedup_inv hs i (b, out)" and i: "i < length hs" and ok: "slots_ok (take (Suc i) hs)"
  shows "kf_dedup_inv hs (Suc i) (kf_dedup_step (b, out) i)"
proof -
  from inv have o: "0 < out" "out \<le> i" and l: "length b = length hs"
    and t: "take out b = remdups_adj (take i hs)" and d: "drop i b = drop i hs"
    by (auto simp: kf_dedup_inv_def)
  have bi: "b ! i = hs ! i" using d i l by (metis nth_via_drop Cons_nth_drop_Suc)
  have ne: "take i hs \<noteq> []" using o i by auto
  have lst: "b ! (out - 1) = last (take i hs)"
  proof -
    have "last (take out b) = b ! (out - 1)" using o l i by (subst last_conv_nth) auto
    then show ?thesis by (simp add: t)
  qed
  obtain ys y where ys: "take i hs = ys @ [y]" using ne by (metis rev_exhaust)
  have ti: "take (Suc i) hs = ys @ [y, hs ! i]"
    using i ys by (simp add: take_Suc_conv_app_nth)
  have r: "remdups_adj (take (Suc i) hs) = take out b @ (if y = hs ! i then [] else [hs ! i])"
    by (simp add: ti remdups_adj_append_two t ys)
  have len: "length y = 64" "length (hs ! i) = 64" using ok by (auto simp: ti)
  have dS: "drop (Suc i) b = drop (Suc i) hs" by (metis d drop_Suc drop_drop tl_drop)
  have c: "kf_hash_cmp (b ! (out - 1)) (b ! i) = 0 \<longleftrightarrow> y = hs ! i"
    unfolding bi lst using len by (simp add: ys kf_hash_cmp_eq)
  have u: "take (Suc out) (b[out := hs ! i]) = take out b @ [hs ! i]"
    using o i l by (simp add: take_Suc_conv_app_nth)
  have u': "out = i \<Longrightarrow> take (Suc out) b = take out b @ [hs ! i]"
    using o i l by (simp add: take_Suc_conv_app_nth bi)
  show ?thesis
    using o l r dS c u u' by (auto simp: kf_dedup_inv_def kf_dedup_step_def bi)
qed

lemma kf_dedup_inv_foldl:
  "1 \<le> n \<Longrightarrow> n \<le> length hs \<Longrightarrow> slots_ok (take n hs) \<Longrightarrow>
   kf_dedup_inv hs n (foldl kf_dedup_step (hs, 1) [1..<n])"
proof (induction n rule: dec_induct)
  case base
  then show ?case by (cases hs) (auto simp: kf_dedup_inv_def)
next
  case (step n)
  have "slots_ok (take n hs)"
    using step.prems by (simp add: take_Suc_conv_app_nth)
  moreover have "n \<le> length hs" using step.prems by simp
  ultimately have "kf_dedup_inv hs n (foldl kf_dedup_step (hs, 1) [1..<n])" by (intro step.IH)
  then have "kf_dedup_inv hs (Suc n) (kf_dedup_step (foldl kf_dedup_step (hs, 1) [1..<n]) n)"
    using step.prems by (cases "foldl kf_dedup_step (hs, 1) [1..<n]") (auto intro: kf_dedup_step_inv)
  then show ?case using step.hyps by simp
qed

lemma kf_dedup_remdups:
  assumes "n \<le> length hs" and "slots_ok (take n hs)"
  obtains b out where "kf_dedup hs n = (b, out)" and "out \<le> length b"
    and "take out b = remdups_adj (take n hs)"
proof (cases "n < 2")
  case True
  then have "remdups_adj (take n hs) = take n hs"
    using assms(1) by (cases hs; cases n) (auto simp: remdups_adj_distinct)
  with True assms(1) show ?thesis by (intro that [of hs n]) (auto simp: kf_dedup_def)
next
  case False
  obtain b out where f: "foldl kf_dedup_step (hs, 1) [1..<n] = (b, out)" by fastforce
  have "kf_dedup_inv hs n (b, out)"
    using kf_dedup_inv_foldl [of n hs] False assms f by simp
  with False f assms show ?thesis
    by (intro that [of b out]) (auto simp: kf_dedup_def kf_dedup_inv_def)
qed

lemma distinct_remdups_adj_sorted: "sorted xs \<Longrightarrow> distinct (remdups_adj xs)"
  by (induction xs rule: remdups_adj.induct) auto

lemma remdups_adj_set_list: "sorted xs \<Longrightarrow> remdups_adj xs = sorted_list_of_set (set xs)"
  by (rule sorted_distinct_set_unique) (auto simp: distinct_remdups_adj_sorted)

section \<open>The hash set\<close>

text \<open>The mixer holds the hashes it was given, in order, at the front of its array.\<close>

definition kf_holds :: "dc_kf_mixer \<Rightarrow> u8 list list \<Rightarrow> bool" where
  "kf_holds ctx hs \<longleftrightarrow>
     kf_count ctx = length hs \<and> length hs \<le> kf_capacity ctx \<and>
     (case kf_hashes ctx of
        None \<Rightarrow> kf_capacity ctx = 0
      | Some b \<Rightarrow> length b = kf_capacity ctx \<and> take (length hs) b = hs)"

definition kf_alloc_ok :: "kf_alloc \<Rightarrow> bool" where
  "kf_alloc_ok alloc \<longleftrightarrow> (\<forall>n b. alloc n = Some b \<longrightarrow> length b = n)"

lemma kf_holds_init: "kf_holds cp_kf_mixer_init []"
  by (simp add: kf_holds_def cp_kf_mixer_init_def)

lemma kf_grow_holds:
  assumes h: "kf_holds ctx hs" and al: "kf_alloc_ok alloc"
  obtains (full) "kf_grow alloc ctx = Some (ST_NOMEM, ctx)"
      and "alloc (if kf_capacity ctx \<noteq> 0 then kf_capacity ctx * 2 else 16) = None"
  | (room) ctx' where "kf_grow alloc ctx = Some (ST_OK, ctx')" and "kf_holds ctx' hs"
      and "kf_count ctx' < kf_capacity ctx'" and "kf_hashes ctx' \<noteq> None"
proof (cases "kf_count ctx < kf_capacity ctx")
  case True
  with h show ?thesis by (intro room [of ctx]) (auto simp: kf_grow_def kf_holds_def split: option.splits)
next
  case False
  let ?want = "if kf_capacity ctx \<noteq> 0 then kf_capacity ctx * 2 else 16"
  have cap: "kf_capacity ctx = length hs" and cnt: "kf_count ctx = length hs"
    using False h by (auto simp: kf_holds_def)
  show ?thesis
  proof (cases "alloc ?want")
    case None
    with False show ?thesis by (intro full) (auto simp: kf_grow_def Let_def)
  next
    case al_b: (Some b)
    then have lb: "length b = ?want" using al by (auto simp: kf_alloc_ok_def)
    show ?thesis
    proof (cases "kf_hashes ctx")
      case None
      with h have "hs = []" by (auto simp: kf_holds_def)
      with None False al_b lb cap cnt show ?thesis
        by (intro room [of "ctx\<lparr>kf_hashes := Some b, kf_capacity := ?want\<rparr>"])
          (auto simp: kf_grow_def kf_holds_def)
    next
      case (Some old)
      with h cap have o: "old = hs" "length hs = length old" by (auto simp: kf_holds_def)
      define c where "c = ctx\<lparr>kf_hashes := Some (hs @ drop (length hs) b), kf_capacity := ?want\<rparr>"
      have lt: "length hs < ?want" using cap by simp
      then have w: "wr b 0 hs = Some (hs @ drop (length hs) b)" using lb by (simp add: wr_def)
      have r: "rd old 0 (kf_count ctx) = Some hs" using o cnt by (simp add: rd_def)
      have "kf_grow alloc ctx = Some (ST_OK, c)"
        unfolding kf_grow_def Let_def if_not_P [OF False] al_b Some option.case r bind.bind_lunit w
        by (simp add: c_def)
      moreover have "kf_holds c hs" and "kf_count c < kf_capacity c" and "kf_hashes c \<noteq> None"
        using lt lb by (simp_all add: kf_holds_def c_def cnt)
      ultimately show ?thesis by (rule room)
    qed
  qed
qed

lemma cp_kf_mixer_add_hash_holds:
  assumes h: "kf_holds ctx hs" and al: "kf_alloc_ok alloc"
  obtains (full) "cp_kf_mixer_add_hash alloc ctx (Some x) = Some (ST_NOMEM, ctx)"
      and "alloc (if kf_capacity ctx \<noteq> 0 then kf_capacity ctx * 2 else 16) = None"
  | (added) ctx' where "cp_kf_mixer_add_hash alloc ctx (Some x) = Some (ST_OK, ctx')"
      and "kf_holds ctx' (hs @ [x])"
  using h al
proof (cases rule: kf_grow_holds)
  case full
  then show ?thesis by (intro that(1)) (auto simp: cp_kf_mixer_add_hash_def)
next
  case (room c)
  then obtain b where b: "kf_hashes c = Some b" by auto
  with room have "length b = kf_capacity c" "kf_count c = length hs" "take (length hs) b = hs"
    by (auto simp: kf_holds_def)
  with room b show ?thesis
    by (intro that(2) [of "c\<lparr>kf_hashes := Some (hs @ x # drop (Suc (length hs)) b), kf_count := Suc (length hs)\<rparr>"])
      (auto simp: cp_kf_mixer_add_hash_def wr_def kf_holds_def)
qed

text \<open>
  Adding a list of keyfiles one after the other, as the callers do, stopping at the first status
  that is not \<open>ST_OK\<close>.
\<close>

primrec kf_add_all ::
  "sha512_ctx \<Rightarrow> kf_alloc \<Rightarrow> dc_kf_mixer \<Rightarrow> u8 list list \<Rightarrow> (dc_status \<times> dc_kf_mixer) option" where
  "kf_add_all st alloc ctx [] = Some (ST_OK, ctx)"
| "kf_add_all st alloc ctx (d # ds) = do {
     (resl, ctx) \<leftarrow> cp_kf_mixer_add_data st alloc ctx (Some d);
     if resl \<noteq> ST_OK then Some (resl, ctx) else kf_add_all st alloc ctx ds }"

definition sha_state :: "sha512_ctx \<Rightarrow> bool" where
  "sha_state st \<longleftrightarrow> length (s_buf st) = 128"

lemma sha512_one_shot:
  "sha_state st \<Longrightarrow> length d < 2 ^ 61 \<Longrightarrow> sha512_hash (sha512_init st) d \<bind> sha512_done = Some (sha512 d)"
  using sha.upd_fin [of "sha512_init st" "[]" d] by (simp add: sha_state_def absorbed_init)

lemma sha512_pieces:
  "sha_state st \<Longrightarrow> length (concat ps) < 2 ^ 61 \<Longrightarrow>
   feed sha512_hash (sha512_init st) ps \<bind> sha512_done = Some (sha512 (concat ps))"
  using sha.feed_fin [of "sha512_init st" "[]" ps] by (simp add: sha_state_def absorbed_init)

lemma cp_kf_hash_data_eq:
  "sha_state st \<Longrightarrow> length d < 2 ^ 61 \<Longrightarrow>
   cp_kf_hash_data st (Some d) = Some (if d = [] then Inl ST_INVALID_PARAM else Inr (sha512 d))"
  using sha512_one_shot [of st d] by (auto simp: cp_kf_hash_data_def bind_eq_Some_conv)

lemma kf_add_all_holds:
  assumes "sha_state st" and "\<And>n. alloc n \<noteq> None" and "kf_alloc_ok alloc"
  shows "kf_holds ctx hs \<Longrightarrow> \<forall>d \<in> set ds. d \<noteq> [] \<and> length d < 2 ^ 61 \<Longrightarrow>
    \<exists>ctx'. kf_add_all st alloc ctx ds = Some (ST_OK, ctx') \<and> kf_holds ctx' (hs @ map sha512 ds)"
proof (induction ds arbitrary: ctx hs)
  case (Cons d ds)
  obtain c where c: "cp_kf_mixer_add_hash alloc ctx (Some (sha512 d)) = Some (ST_OK, c)"
    and hc: "kf_holds c (hs @ [sha512 d])"
    using Cons.prems(1) assms(3)
    by (cases rule: cp_kf_mixer_add_hash_holds [where x = "sha512 d"]) (simp_all add: assms(2))
  have "cp_kf_mixer_add_data st alloc ctx (Some d) = Some (ST_OK, c)"
    using Cons.prems assms(1) c by (simp add: cp_kf_mixer_add_data_def cp_kf_hash_data_eq)
  with Cons.IH [OF hc] Cons.prems show ?case by simp
qed simp

section \<open>The mixed password\<close>

definition kf_set_digest :: "u8 list set \<Rightarrow> u8 list" where
  "kf_set_digest H = sha512 (kf_domain_set @ concat (sorted_list_of_set H))"

definition kf_mixed :: "u8 list \<Rightarrow> u8 list set \<Rightarrow> u8 list" where
  "kf_mixed pw H =
     (if pw = [] then kf_set_digest H else sha512 (kf_domain_pass @ pw @ kf_set_digest H))"

lemma length_kf_set_digest [simp]: "length (kf_set_digest H) = 64"
  by (simp add: kf_set_digest_def)

lemma length_domains [simp]: "length kf_domain_set = 12" "length kf_domain_pass = 12"
  by (simp_all add: kf_domain_set_def kf_domain_pass_def)

lemma wr_front: "length xs \<le> length b \<Longrightarrow> wr b 0 xs = Some (xs @ drop (length xs) b)"
  by (simp add: wr_def)

lemma combine_eq:
  assumes "sha_state st" and "pass_ok p" and "length d = 64" and "pass_bytes p = Some pw"
  shows "cp_kf_mixer_combine st p d =
    Some (p\<lparr>p_pass := (if pw = [] then d else sha512 (kf_domain_pass @ pw @ d)) @ drop 64 (p_pass p),
            p_size := 64\<rparr>)"
proof -
  have pw: "pw = take (nat (p_size p)) (p_pass p)" "length pw = nat (p_size p)"
    using assms(4,2) by (auto simp: pass_bytes_Some pass_ok_def nat_le_iff)
  have l: "length (p_pass p) = 256" using assms(2) by (simp add: pass_ok_def)
  have e: "pw = [] \<longleftrightarrow> p_size p = 0" using pw(2) assms(2) by (auto simp: pass_ok_def)
  have "length pw \<le> 256" using pw(2) assms(2) by (auto simp: pass_ok_def)
  then have "feed sha512_hash (sha512_init st) [kf_domain_pass, pw, d] \<bind> sha512_done
      = Some (sha512 (kf_domain_pass @ pw @ d))"
    using sha512_pieces [OF assms(1), of "[kf_domain_pass, pw, d]"] assms(3) by simp
  then show ?thesis
    using e l assms(3,4)
    by (auto simp: cp_kf_mixer_combine_def wr_front bind_eq_Some_conv)
qed

lemma cp_kf_mixer_finish_eq:
  assumes st: "sha_state st" and p: "pass_ok p" "pass_bytes p = Some pw"
    and h: "kf_holds ctx hs" "slots_ok hs" "hs \<noteq> []" "length hs < 2 ^ 31"
  shows "cp_kf_mixer_finish st ctx p =
    Some (ST_OK, cp_kf_mixer_init, p\<lparr>p_pass := kf_mixed pw (set hs) @ drop 64 (p_pass p), p_size := 64\<rparr>)"
proof -
  from h obtain b where b: "kf_hashes ctx = Some b" and t: "take (length hs) b = hs"
    and l: "length hs \<le> length b" and c: "kf_count ctx = length hs"
    by (auto simp: kf_holds_def split: option.splits)
  let ?s = "sort hs @ drop (length hs) b"
  have s: "kf_sort b (kf_count ctx) = ?s"
    using kf_sort_sort [of "length hs" b] t l h(2) by (simp add: c)
  have s1: "length hs \<le> length ?s" "slots_ok (take (length hs) ?s)" using h(2) by auto
  obtain d out where d: "kf_dedup ?s (length hs) = (d, out)" "out \<le> length d"
    "take out d = remdups_adj (take (length hs) ?s)"
    using kf_dedup_remdups [OF s1] by blast
  have r: "rd d 0 out = Some (sorted_list_of_set (set hs))"
    using d(2,3) by (simp add: rd_def remdups_adj_set_list)
  have sl: "slots_ok (sorted_list_of_set (set hs))" using h(2) by (simp add: slots_ok_def)
  have "length (sorted_list_of_set (set hs)) \<le> length hs" by (simp add: card_length)
  then have "length (concat (kf_domain_set # sorted_list_of_set (set hs))) < 2 ^ 61"
    using h(4) length_concat_slots [OF sl] by simp
  then have f: "feed sha512_hash (sha512_init st) (kf_domain_set # sorted_list_of_set (set hs)) \<bind> sha512_done
      = Some (kf_set_digest (set hs))"
    using sha512_pieces [OF st, of "kf_domain_set # sorted_list_of_set (set hs)"]
    by (simp add: kf_set_digest_def)
  show ?thesis
    using f h(3) combine_eq [OF st p(1) length_kf_set_digest p(2), of "set hs"]
    by (simp add: cp_kf_mixer_finish_def b s [unfolded c] c d(1) r kf_mixed_def cp_kf_mixer_free_def
        cp_kf_mixer_init_def bind_eq_Some_conv)
      (auto simp: bind_eq_Some_conv)
qed

section \<open>The additive scheme\<close>

lemma length_kf_add_words [simp, len_simps]: "length (kf_add_words a b) = 64"
  by (simp add: kf_add_words_def length_concat comp_def sum_list_triv)

lemma kf_word_add_words: "i < 16 \<Longrightarrow> kf_word (kf_add_words a b) i = kf_word a i + kf_word b i"
proof -
  assume i: "i < 16"
  let ?f = "\<lambda>i. le_bytes 4 (unat (kf_word a i + kf_word b i))"
  have up: "[0..<16] = [0..<i] @ i # [Suc i..<16]"
    using i upt_add_eq_append [of 0 i "16 - i"] by (simp add: upt_conv_Cons)
  have "length (concat (map ?f [0..<i])) = 4 * i"
    by (simp add: length_concat comp_def sum_list_triv)
  then have "drop (4 * i) (kf_add_words a b) = ?f i @ concat (map ?f [Suc i..<16])"
    unfolding kf_add_words_def up by simp
  then have "take 4 (drop (4 * i) (kf_add_words a b)) = ?f i" by simp
  moreover have "unat (kf_word a i + kf_word b i) < 256 ^ 4"
    using unsigned_less [of "kf_word a i + kf_word b i"] by simp
  ultimately show ?thesis by (simp add: kf_word_def [of "kf_add_words a b"] le_val_le_bytes)
qed

lemma kf_word_append: "i < 16 \<Longrightarrow> length a = 64 \<Longrightarrow> kf_word (a @ b) i = kf_word a i"
  by (simp add: kf_word_def)

lemma kf_add_words_cong:
  "(\<And>i. i < 16 \<Longrightarrow> kf_word a i + kf_word b i = kf_word a' i + kf_word b' i) \<Longrightarrow>
   kf_add_words a b = kf_add_words a' b'"
  unfolding kf_add_words_def by (rule arg_cong [of _ _ concat], rule map_cong) auto

lemma kf_add_words_commute: "kf_add_words (kf_add_words a x) y = kf_add_words (kf_add_words a y) x"
  by (rule kf_add_words_cong) (simp add: kf_word_add_words)

definition kf_padded :: "dc_pass \<Rightarrow> u8 list" where
  "kf_padded p = take (nat (p_size p)) (p_pass p) @ replicate (256 - nat (p_size p)) 0"

lemma cp_kf_mix_additive_eq:
  assumes "pass_ok p"
  shows "cp_kf_mix_additive p h =
    Some (p\<lparr>p_pass := kf_add_words (take 64 (kf_padded p)) h @ drop 64 (kf_padded p),
            p_size := max 64 (p_size p)\<rparr>)"
proof -
  have s: "nat (p_size p) \<le> 256" "length (p_pass p) = 256" "0 \<le> p_size p" "p_size p \<le> 256"
    using assms by (auto simp: pass_ok_def nat_le_iff)
  have l: "length (kf_padded p) = 256" using s by (simp add: kf_padded_def)
  have w: "wr (p_pass p) (nat (p_size p)) (replicate (256 - nat (p_size p)) 0) = Some (kf_padded p)"
    using s by (simp add: wr_def kf_padded_def)
  have r: "rd (kf_padded p) 0 64 = Some (take 64 (kf_padded p))" using l by (simp add: rd_def)
  have w2: "wr (kf_padded p) 0 (kf_add_words (take 64 (kf_padded p)) h) =
      Some (kf_add_words (take 64 (kf_padded p)) h @ drop 64 (kf_padded p))"
    using l by (simp add: wr_def)
  show ?thesis
    using s by (simp add: cp_kf_mix_additive_def w r w2 max_def)
qed

lemma kf_padded_idem:
  assumes "pass_ok p" and "length x = 64"
  shows "kf_padded (p\<lparr>p_pass := x @ drop 64 (kf_padded p), p_size := max 64 (p_size p)\<rparr>)
    = x @ drop 64 (kf_padded p)"
proof -
  have s: "nat (p_size p) \<le> 256" "length (p_pass p) = 256" "0 \<le> p_size p" "p_size p \<le> 256"
    using assms by (auto simp: pass_ok_def nat_le_iff)
  have m: "nat (max 64 (p_size p)) = max 64 (nat (p_size p))" using s(3) by (auto simp: max_def le_nat_iff)
  let ?m = "max 64 (nat (p_size p))" and ?L = "x @ drop 64 (kf_padded p)"
  have "drop ?m ?L = drop ?m (kf_padded p)" using assms(2) by simp
  also have "\<dots> = replicate (256 - ?m) 0"
    using s by (simp add: kf_padded_def)
  finally have d: "replicate (256 - ?m) 0 = drop ?m ?L" by (rule sym)
  have "kf_padded (p\<lparr>p_pass := ?L, p_size := max 64 (p_size p)\<rparr>) = take ?m ?L @ replicate (256 - ?m) 0"
    by (simp add: kf_padded_def [of "p\<lparr>p_pass := _, p_size := _\<rparr>"] m del: take_append)
  also have "\<dots> = ?L" by (simp only: d append_take_drop_id)
  finally show ?thesis .
qed

section \<open>Properties\<close>

text \<open>
  C12: keyfiles form a set. However the caller orders the keyfiles, and however often it adds the
  same one, an initialised mixer takes them all and \<^verbatim>\<open>cp_kf_mixer_finish\<close> returns the password
  mixed with the digest of the sorted set of their hashes; the growing array never loses a hash
  and is released at the end.
\<close>

theorem cp_kf_mixer_canonical:
  assumes "sha_state st" and "\<And>n. alloc n \<noteq> None" and "kf_alloc_ok alloc"
    and "pass_ok p" and "pass_bytes p = Some pw"
    and "ds \<noteq> []" and "length ds < 2 ^ 30" and "\<forall>d \<in> set ds. d \<noteq> [] \<and> length d < 2 ^ 32"
  shows "do { (resl, ctx) \<leftarrow> kf_add_all st alloc cp_kf_mixer_init ds; cp_kf_mixer_finish st ctx p } =
    Some (ST_OK, cp_kf_mixer_init,
          p\<lparr>p_pass := kf_mixed pw (sha512 ` set ds) @ drop 64 (p_pass p), p_size := 64\<rparr>)"
proof -
  have "\<forall>d \<in> set ds. d \<noteq> [] \<and> length d < 2 ^ 61" using assms(8) by force
  then obtain ctx where a: "kf_add_all st alloc cp_kf_mixer_init ds = Some (ST_OK, ctx)"
    and h: "kf_holds ctx (map sha512 ds)"
    using kf_add_all_holds [OF assms(1-3) kf_holds_init, of ds] by auto
  have "cp_kf_mixer_finish st ctx p = Some (ST_OK, cp_kf_mixer_init,
      p\<lparr>p_pass := kf_mixed pw (set (map sha512 ds)) @ drop 64 (p_pass p), p_size := 64\<rparr>)"
    using assms h by (intro cp_kf_mixer_finish_eq) (auto simp: slots_ok_def)
  then show ?thesis by (simp add: a)
qed

definition kf_pass_ex :: dc_pass where
  "kf_pass_ex = \<lparr>p_size = 2, p_pass = 0x61 # 0x62 # replicate 254 0, p_kdf = 0, p_slot = 0\<rparr>"

definition sha_state_ex :: sha512_ctx where
  "sha_state_ex = \<lparr>s_hash = [], s_length = 0, s_curlen = 0, s_buf = replicate 128 0\<rparr>"

theorem cp_kf_mixer_canonical_witness:
  "do { (resl, ctx) \<leftarrow> kf_add_all sha_state_ex (\<lambda>n. Some (replicate n (replicate 64 0))) cp_kf_mixer_init
          [[1], [2, 3], [1]];
        cp_kf_mixer_finish sha_state_ex ctx kf_pass_ex } =
   Some (ST_OK, cp_kf_mixer_init,
     kf_pass_ex\<lparr>p_pass := kf_mixed [0x61, 0x62] {sha512 [1], sha512 [2, 3]} @ replicate 192 0, p_size := 64\<rparr>)"
  using cp_kf_mixer_canonical [of sha_state_ex "\<lambda>n. Some (replicate n (replicate 64 0))" kf_pass_ex
      "[0x61, 0x62]" "[[1], [2, 3], [1]]"]
  by (simp add: sha_state_def sha_state_ex_def kf_alloc_ok_def kf_pass_ex_def pass_ok_def pass_bytes_def
      rd_def insert_commute)

text \<open>
  C13: the additive scheme stays inside the 256-byte password buffer and commutes: mixing two
  keyfile digests in either order gives the same password, and each step adds the sixteen 32-bit
  words of the digest to the zero-padded password, wrapping at 32 bits.
\<close>

theorem cp_kf_mix_additive_commutes:
  assumes "pass_ok p"
  shows "cp_kf_mix_additive p x \<bind> (\<lambda>q. cp_kf_mix_additive q y) =
      cp_kf_mix_additive p y \<bind> (\<lambda>q. cp_kf_mix_additive q x) \<and>
    (\<exists>q. cp_kf_mix_additive p x = Some q \<and> pass_ok q \<and> 64 \<le> p_size q \<and>
       (\<forall>i < 16. kf_word (p_pass q) i = kf_word (kf_padded p) i + kf_word x i))"
proof -
  define mix where "mix x = p\<lparr>p_pass := kf_add_words (take 64 (kf_padded p)) x @ drop 64 (kf_padded p),
            p_size := max 64 (p_size p)\<rparr>" for x
  have s: "nat (p_size p) \<le> 256" "length (p_pass p) = 256" "0 \<le> p_size p" "p_size p \<le> 256"
    using assms by (auto simp: pass_ok_def nat_le_iff)
  have l: "length (kf_padded p) = 256" using s by (simp add: kf_padded_def)
  have ok: "pass_ok (mix x)" for x using s l by (simp add: mix_def pass_ok_def)
  have m: "cp_kf_mix_additive p x = Some (mix x)" for x
    using assms by (simp add: cp_kf_mix_additive_eq mix_def)
  have pad: "kf_padded (mix x) = kf_add_words (take 64 (kf_padded p)) x @ drop 64 (kf_padded p)" for x
    unfolding mix_def by (rule kf_padded_idem [OF assms]) simp
  have "cp_kf_mix_additive (mix x) y = cp_kf_mix_additive (mix y) x" for x y
    unfolding cp_kf_mix_additive_eq [OF ok] pad
    by (simp add: mix_def kf_add_words_commute [of _ x y])
  moreover have "kf_word (p_pass (mix x)) i = kf_word (kf_padded p) i + kf_word x i" if "i < 16" for i
  proof -
    have "kf_word (take 64 (kf_padded p)) i = kf_word (kf_padded p) i"
      using that l kf_word_append [of i "take 64 (kf_padded p)" "drop 64 (kf_padded p)"] by simp
    with that show ?thesis by (simp add: mix_def kf_word_append kf_word_add_words)
  qed
  ultimately show ?thesis
    using m ok [of x] by (auto simp: mix_def)
qed

theorem cp_kf_mix_additive_commutes_witness:
  "pass_ok kf_pass_ex \<and>
   cp_kf_mix_additive kf_pass_ex (replicate 64 0xFF) \<bind> (\<lambda>q. cp_kf_mix_additive q (replicate 64 7)) =
   cp_kf_mix_additive kf_pass_ex (replicate 64 7) \<bind> (\<lambda>q. cp_kf_mix_additive q (replicate 64 0xFF))"
  using cp_kf_mix_additive_commutes [of kf_pass_ex "replicate 64 0xFF" "replicate 64 7"]
  by (simp add: kf_pass_ex_def pass_ok_def)

end
