(* ===== verification/Dc_Host.thy ===== *)
theory Dc_Host
  imports Dc_Types Xts_Sectors
begin

unbundle bit_operations_syntax

text \<open>
  What the volume library asks of its host (\<^verbatim>\<open>dc_dev.h\<close>, \<^verbatim>\<open>dc_host.c\<close>) and the device it works on.
  The functions behind the host's pointers are not code of the library: allocation, randomness,
  wiping, the Argon2 and AES cores and the interrupt flag another thread may set are the record
  \<open>host\<close>, acting on an environment of type \<open>'w\<close>. The \<open>world\<close> threads that environment and counts
  the secure allocations that are live, so that a leak is visible in the result.
\<close>

section \<open>The installed host\<close>

text \<open>A function pointer is its address, 0 for NULL; \<^verbatim>\<open>memcmp\<close> compares all six.\<close>

record dc_host_ptrs =
  secure_alloc :: nat
  secure_free :: nat
  rand_bytes :: nat
  rand_add_seed :: nat
  log_fn :: nat
  wipe_fn :: nat

record dc_lib =
  g_host :: dc_host_ptrs
  g_installed :: bool

definition dc_lib_init :: "dc_host_ptrs option \<Rightarrow> dc_lib \<Rightarrow> dc_status \<times> dc_lib" where
  "dc_lib_init host g =
     (case host of
        None \<Rightarrow> (ST_INVALID_PARAM, g)
      | Some h \<Rightarrow>
          if secure_alloc h = 0 \<or> secure_free h = 0 \<or> rand_bytes h = 0 then (ST_INVALID_PARAM, g)
          else if g_installed g then (if g_host g = h then ST_OK else ST_ERROR, g)
          else (ST_OK, g\<lparr>g_host := h, g_installed := True\<rparr>))"

section \<open>The functions behind the pointers\<close>

record 'w host =
  h_alloc :: "nat \<Rightarrow> 'w \<Rightarrow> buf option \<times> 'w"
  h_free :: "'w \<Rightarrow> 'w"
  h_rand :: "nat \<Rightarrow> 'w \<Rightarrow> buf \<times> 'w"
  h_seed :: "(buf \<Rightarrow> 'w \<Rightarrow> 'w) option"
  h_wipe :: "(u64 \<Rightarrow> int \<Rightarrow> 'w \<Rightarrow> 'w) option"
  h_interrupt :: "'w \<Rightarrow> bool \<times> 'w"
  h_argon2 :: "u32 \<Rightarrow> u32 \<Rightarrow> u32 \<Rightarrow> u8 list \<Rightarrow> u8 list \<Rightarrow> nat \<Rightarrow> 'w \<Rightarrow> u8 list option \<times> 'w"
  h_core :: aes_core
  h_key_size :: nat
  h_key_mem :: xts_key
  h_hmac_mem :: sha512_hmac_ctx
  h_dk_mem :: "u8 list"

record 'w world =
  live :: int
  env :: 'w

text \<open>A negative \<^verbatim>\<open>int\<close> passed as a \<^verbatim>\<open>size_t\<close>.\<close>

definition size_of_int :: "int \<Rightarrow> nat" where
  "size_of_int n = nat (n mod 2 ^ 64)"

definition dc_alloc :: "'w host \<Rightarrow> nat \<Rightarrow> 'w world \<Rightarrow> buf option \<times> 'w world" where
  "dc_alloc hs n w =
     (case h_alloc hs n (env w) of
        (None, e) \<Rightarrow> (None, w\<lparr>env := e\<rparr>)
      | (Some b, e) \<Rightarrow> (Some b, w\<lparr>live := live w + 1, env := e\<rparr>))"

definition dc_free :: "'w host \<Rightarrow> 'w world \<Rightarrow> 'w world" where
  "dc_free hs w = w\<lparr>live := live w - 1, env := h_free hs (env w)\<rparr>"

definition dc_rand :: "'w host \<Rightarrow> nat \<Rightarrow> 'w world \<Rightarrow> buf \<times> 'w world" where
  "dc_rand hs n w = (case h_rand hs n (env w) of (b, e) \<Rightarrow> (b, w\<lparr>env := e\<rparr>))"

definition dc_rand_seed :: "'w host \<Rightarrow> buf \<Rightarrow> 'w world \<Rightarrow> 'w world" where
  "dc_rand_seed hs b w = (case h_seed hs of None \<Rightarrow> w | Some f \<Rightarrow> w\<lparr>env := f b (env w)\<rparr>)"

definition dc_wipe :: "'w host \<Rightarrow> bool \<Rightarrow> u64 \<Rightarrow> int \<Rightarrow> 'w world \<Rightarrow> 'w world" where
  "dc_wipe hs wipe_ctx offset len w =
     (case h_wipe hs of None \<Rightarrow> w | Some f \<Rightarrow> if wipe_ctx then w\<lparr>env := f offset len (env w)\<rparr> else w)"

definition dc_interrupted :: "'w host \<Rightarrow> 'w world \<Rightarrow> bool \<times> 'w world" where
  "dc_interrupted hs w = (case h_interrupt hs (env w) of (b, e) \<Rightarrow> (b, w\<lparr>env := e\<rparr>))"

definition dc_argon2 ::
  "'w host \<Rightarrow> u32 \<Rightarrow> u32 \<Rightarrow> u32 \<Rightarrow> u8 list \<Rightarrow> u8 list \<Rightarrow> nat \<Rightarrow> 'w world \<Rightarrow> u8 list option \<times> 'w world" where
  "dc_argon2 hs t m p pw salt n w =
     (case h_argon2 hs t m p pw salt n (env w) of (r, e) \<Rightarrow> (r, w\<lparr>env := e\<rparr>))"

text \<open>Releasing a pointer that may be NULL.\<close>

definition dc_free_opt :: "'w host \<Rightarrow> bool \<Rightarrow> 'w world \<Rightarrow> 'w world" where
  "dc_free_opt hs p w = (if p then dc_free hs w else w)"

text \<open>Random bytes into a buffer.\<close>

definition dc_rand_at :: "'w host \<Rightarrow> buf \<Rightarrow> nat \<Rightarrow> nat \<Rightarrow> 'w world \<Rightarrow> (buf \<times> 'w world) option" where
  "dc_rand_at hs b off n w =
     (case dc_rand hs n w of (r, w) \<Rightarrow> map_option (\<lambda>b. (b, w)) (wr b off r))"

text \<open>
  What the documentation of the host promises: an allocation has the size that was asked for, and
  the random and derived bytes are as many as were asked for.
\<close>

definition host_ok :: "'w host \<Rightarrow> bool" where
  "host_ok hs \<longleftrightarrow>
     (\<forall>n w b e. h_alloc hs n w = (Some b, e) \<longrightarrow> length b = n) \<and>
     (\<forall>n w. length (fst (h_rand hs n w)) = n) \<and>
     (\<forall>t m p pw salt n w d e. h_argon2 hs t m p pw salt n w = (Some d, e) \<longrightarrow> length d = n) \<and>
     aes_core_ok (h_core hs) \<and> hmac_ready (h_hmac_mem hs) \<and> length (h_dk_mem hs) = 192"

section \<open>The device\<close>

record dc_dev =
  dev_bps :: u32
  dev_dsk_size :: u64
  dev_head_len :: u32
  dev_tail_len :: u32
  dev_stor_len :: u32
  dev_opt :: u32

text \<open>
  The callback \<^verbatim>\<open>dc_rw_fn\<close>: a read returns its status and the bytes it put into the buffer, a write
  its status.
\<close>

record 'w dc_rw =
  rw_read :: "u32 \<Rightarrow> u64 \<Rightarrow> 'w \<Rightarrow> (dc_status \<times> buf) \<times> 'w"
  rw_write :: "buf \<Rightarrow> u64 \<Rightarrow> 'w \<Rightarrow> dc_status \<times> 'w"

definition dev_read ::
  "'w dc_rw \<Rightarrow> buf \<Rightarrow> nat \<Rightarrow> u32 \<Rightarrow> u64 \<Rightarrow> 'w world \<Rightarrow> ((dc_status \<times> buf) \<times> 'w world) option" where
  "dev_read rw b off len pos w =
     (case rw_read rw len pos (env w) of ((resl, bs), e) \<Rightarrow> do {
        b \<leftarrow> (if resl = ST_OK then wr b off bs else Some b);
        Some ((resl, b), w\<lparr>env := e\<rparr>) })"

definition dev_write ::
  "'w dc_rw \<Rightarrow> buf \<Rightarrow> nat \<Rightarrow> u32 \<Rightarrow> u64 \<Rightarrow> 'w world \<Rightarrow> (dc_status \<times> 'w world) option" where
  "dev_write rw b off len pos w = do {
     bs \<leftarrow> rd b off (unat len);
     (case rw_write rw bs pos (env w) of (resl, e) \<Rightarrow> Some (resl, w\<lparr>env := e\<rparr>)) }"

section \<open>A host for the witnesses\<close>

lemma unat_ucast32: "unat (ucast (x :: u32) :: u64) = unat x"
  using unsigned_less [of x, where ?'a = nat] by (simp add: unsigned_ucast_eq take_bit_nat_eq_self_iff)

text \<open>Allocations succeed, random bytes are zero, Argon2 answers and the cipher core is the identity.\<close>

definition id_core :: aes_core where
  "id_core = \<lparr>aes_enc = \<lambda>k b. b, aes_dec = \<lambda>k b. b\<rparr>"

definition dev512 :: "u32 \<Rightarrow> dc_dev" where
  "dev512 n = \<lparr>dev_bps = 512, dev_dsk_size = 0, dev_head_len = n, dev_tail_len = 0, dev_stor_len = 0, dev_opt = 0\<rparr>"

definition keys_mem :: cipher_keys where
  "keys_mem = \<lparr>ck_aes = \<lparr>enc_key = [], dec_key = []\<rparr>, ck_twofish = \<lparr>tf_s = [], tf_w = [], tf_k = []\<rparr>,
     ck_serpent = \<lparr>expkey = []\<rparr>\<rparr>"

definition key_mem :: xts_key where
  "key_mem = \<lparr>crypt_k = keys_mem, tweak_k = keys_mem, xk_encrypt = XTS_NONE, xk_decrypt = XTS_NONE\<rparr>"

definition host_ex :: "unit host" where
  "host_ex = \<lparr>h_alloc = \<lambda>n w. (Some (replicate n 0), w), h_free = id, h_rand = \<lambda>n w. (replicate n 0, w),
     h_seed = None, h_wipe = None, h_interrupt = \<lambda>w. (False, w),
     h_argon2 = \<lambda>t m p pw salt n w. (Some (replicate n 7), w), h_core = id_core, h_key_size = 8192,
     h_key_mem = key_mem,
     h_hmac_mem = \<lparr>h_hash = \<lparr>s_hash = [], s_length = 0, s_curlen = 0, s_buf = replicate 128 0\<rparr>, h_padded_key = replicate 128 0\<rparr>,
     h_dk_mem = replicate 192 0\<rparr>"

definition world_ex :: "unit world" where "world_ex = \<lparr>live = 0, env = ()\<rparr>"

lemma id_core_ok: "aes_core_ok id_core"
  unfolding aes_core_ok_def id_core_def by (intro allI block_cipher.intro) simp_all

lemma host_ex_ok: "host_ok host_ex"
  by (simp add: host_ok_def host_ex_def id_core_ok hmac_ready_def)

lemma xts_blocks_id: "16 * n \<le> length P \<Longrightarrow> xts_blocks (\<lambda>b. b) n t P = take (16 * n) P"
proof (induction n arbitrary: t P)
  case (Suc n)
  have x: "xor_tweak t (xor_tweak t b) = b" if "length b = 16" for b
    using that by (cases t) (simp add: xor.assoc st64_block)
  have l: "length (take 16 P) = 16" using Suc.prems by simp
  have "xts_blocks (\<lambda>b. b) (Suc n) t P = take 16 P @ xts_blocks (\<lambda>b. b) n (tweak_next t) (drop 16 P)"
    unfolding xts_blocks.simps Let_def x [OF l] ..
  also have "xts_blocks (\<lambda>b. b) n (tweak_next t) (drop 16 P) = take (16 * n) (drop 16 P)"
    using Suc.prems by (intro Suc.IH) simp
  finally show ?case by (simp add: take_add)
qed simp

lemma xts_sectors_id: "xts_len_ok len P \<Longrightarrow> unat len = length P \<Longrightarrow> xts_sectors (\<lambda>b. b) (\<lambda>b. b) sector len P = Some P"
proof (induction sector len P rule: xts_len_induct)
  case (last sector len P)
  then show ?case by (subst xts_sectors.simps) (simp add: XTS_SECTOR_SIZE_def Let_def xts_blocks_id)
next
  case (more sector len P)
  then show ?case by (subst xts_sectors.simps) (simp add: XTS_SECTOR_SIZE_def Let_def xts_blocks_id)
qed

lemma xts_call_id:
  "p = XTS_AES_ENC \<or> p = XTS_AES_DEC \<Longrightarrow> xts_len_ok len P \<Longrightarrow> unat len = length P \<Longrightarrow> xts_call id_core p P len off key = Some P"
  by (auto simp: xts_aes_encrypt_def xts_aes_decrypt_def DEF_XTS_PROC_def id_core_def xts_sectors_id)

lemma xts_set_key_aes:
  "length dk = 192 \<Longrightarrow> \<exists>k'. xts_set_key dk 0 k = Some (1, k') \<and> xk_encrypt k' = XTS_AES_ENC \<and> xk_decrypt k' = XTS_AES_DEC"
  by (simp add: xts_set_key_def Let_def set_aes_def rd_Some)

end
