(* ===== verification/Vol_Header.thy ===== *)
theory Vol_Header
  imports Dc_Host Crc32
begin

unbundle bit_operations_syntax

text \<open>
  The layout of the volume header (\<^verbatim>\<open>_include_/volume_header.h\<close>): the header in memory is its bytes,
  the fields are read at their packed offsets. An access at an offset that is computed is checked;
  the fixed fields lie within the first kilobyte.
\<close>

section \<open>Constants\<close>

abbreviation HEADER_SALT_SIZE :: nat where "HEADER_SALT_SIZE \<equiv> 64"
abbreviation PKCS_DERIVE_MAX :: nat where "PKCS_DERIVE_MAX \<equiv> 192"
abbreviation DC_BASE_SIZE :: nat where "DC_BASE_SIZE \<equiv> 1024"
abbreviation DC_AREA_SIZE :: nat where "DC_AREA_SIZE \<equiv> 2048"
abbreviation PAGE_SIZE :: nat where "PAGE_SIZE \<equiv> 4096"

definition DC_VOLUME_SIGN :: u32 where "DC_VOLUME_SIGN = 0x50524344"
definition FF_KEY_SLOTS :: u32 where "FF_KEY_SLOTS = 1"
definition SF_ACTIVE :: u32 where "SF_ACTIVE = 1"
definition SF_DISABLED :: u32 where "SF_DISABLED = 2"
definition SF_CORRUPT :: u32 where "SF_CORRUPT = 4"
definition DC_HDR_VERSION_2 :: u16 where "DC_HDR_VERSION_2 = 3"

definition ROUND_TO_FULL_SECTORS :: "'a :: len word \<Rightarrow> 'a word \<Rightarrow> 'a word option" where
  "ROUND_TO_FULL_SECTORS len bps = (if bps = 0 then None else Some ((len + bps - 1) div bps * bps))"

section \<open>Fields\<close>

definition fld_u16 :: "buf \<Rightarrow> nat \<Rightarrow> u16" where
  "fld_u16 h off = of_nat (le_val (take 2 (drop off h)))"

definition fld_u32 :: "buf \<Rightarrow> nat \<Rightarrow> u32" where
  "fld_u32 h off = of_nat (le_val (take 4 (drop off h)))"

definition hd_salt :: "buf \<Rightarrow> u8 list" where "hd_salt h = take HEADER_SALT_SIZE h"
definition hd_sign :: "buf \<Rightarrow> u32" where "hd_sign h = fld_u32 h 64"
definition hd_crc :: "buf \<Rightarrow> u32" where "hd_crc h = fld_u32 h 68"
definition hd_version :: "buf \<Rightarrow> u16" where "hd_version h = fld_u16 h 72"
definition hd_alg_1 :: "buf \<Rightarrow> int" where "hd_alg_1 h = sint (fld_u32 h 82)"
definition hd_head_len :: "buf \<Rightarrow> u32" where "hd_head_len h = fld_u32 h 614"
definition hd_footer_cnt :: "buf \<Rightarrow> int" where "hd_footer_cnt h = sint (h ! 627)"
definition hd_feature_flags :: "buf \<Rightarrow> u32" where "hd_feature_flags h = fld_u32 h 628"
definition hd_ext_hdr_off :: "buf \<Rightarrow> nat" where "hd_ext_hdr_off h = unat (fld_u16 h 632)"
definition hd_slot_area_len :: "buf \<Rightarrow> nat" where "hd_slot_area_len h = unat (fld_u16 h 635)"
definition hd_key_slot_count :: "buf \<Rightarrow> nat" where "hd_key_slot_count h = unat (h ! 637)"
definition hd_slot_info_size :: "buf \<Rightarrow> nat" where "hd_slot_info_size h = unat (fld_u16 h 638)"

definition has_slots_flag :: "buf \<Rightarrow> bool" where
  "has_slots_flag h \<longleftrightarrow> hd_feature_flags h AND FF_KEY_SLOTS \<noteq> 0"

lemma hd_bounds:
  "hd_ext_hdr_off h < 65536" "hd_slot_area_len h < 65536" "hd_key_slot_count h < 256"
  "hd_slot_info_size h < 65536"
  using unsigned_less [of "fld_u16 h 632"] unsigned_less [of "fld_u16 h 635"]
    unsigned_less [of "h ! 637"] unsigned_less [of "fld_u16 h 638"]
  by (simp_all add: hd_ext_hdr_off_def hd_slot_area_len_def hd_key_slot_count_def hd_slot_info_size_def)

lemma hd_footer_bounds: "- 128 \<le> hd_footer_cnt h" "hd_footer_cnt h < 128"
  using sint_range_size [of "h ! 627"] by (simp_all add: hd_footer_cnt_def word_size)

section \<open>Slot descriptors\<close>

text \<open>A descriptor at \<open>off\<close>: its fields, read and written in place.\<close>

definition si_crc :: "buf \<Rightarrow> nat \<Rightarrow> u32 option" where "si_crc h off = rd_u32 h off"
definition si_flags :: "buf \<Rightarrow> nat \<Rightarrow> u32 option" where "si_flags h off = rd_u32 h (off + 4)"
definition si_type :: "buf \<Rightarrow> nat \<Rightarrow> u16 option" where "si_type h off = rd_u16 h (off + 8)"

definition set_si_crc :: "buf \<Rightarrow> nat \<Rightarrow> u32 \<Rightarrow> buf option" where "set_si_crc h off v = wr_u32 h off v"
definition set_si_flags :: "buf \<Rightarrow> nat \<Rightarrow> u32 \<Rightarrow> buf option" where
  "set_si_flags h off v = wr_u32 h (off + 4) v"

text \<open>Reading \<open>n\<close> bytes where \<open>n\<close> was computed with a sign, as in \<^verbatim>\<open>slot_info_size - 4\<close>.\<close>

definition rdi :: "buf \<Rightarrow> nat \<Rightarrow> int \<Rightarrow> u8 list option" where
  "rdi b off n = (if n < 0 then None else rd b off (nat n))"

section \<open>Validity\<close>

text \<open>
  \<^verbatim>\<open>calculate_header_crc\<close> and \<^verbatim>\<open>is_volume_header_correct\<close> of \<^verbatim>\<open>header_io.c\<close>. The length is an
  \<^verbatim>\<open>int\<close> that goes to an \<^verbatim>\<open>unsigned long\<close>: a negative one reads far outside every buffer.
\<close>

definition calculate_header_crc :: "buf \<Rightarrow> u32 option" where
  "calculate_header_crc h =
     (if DC_HDR_VERSION_2 \<le> hd_version h
      then map_option crc32 (rdi h 72 (952 - hd_footer_cnt h * 16))
      else map_option crc32 (rdi h 72 1976))"

definition salt_bits :: "buf \<Rightarrow> u32" where
  "salt_bits h = foldl (\<lambda>b x. b OR ucast x) 0 (hd_salt h)"

definition is_volume_header_correct :: "buf \<Rightarrow> bool option" where
  "is_volume_header_correct h =
     (if salt_bits h = 0 then Some False
      else if hd_sign h \<noteq> DC_VOLUME_SIGN then Some False
      else do {
        crc \<leftarrow> calculate_header_crc h;
        Some (hd_crc h = crc) })"

lemma foldl_or_zero: "foldl (\<lambda>b x. b OR ucast (x :: u8)) (b :: u32) xs = 0 \<longleftrightarrow> b = 0 \<and> (\<forall>x \<in> set xs. x = 0)"
proof (induction xs arbitrary: b)
  case (Cons x xs)
  have "(ucast x :: u32) = 0 \<longleftrightarrow> x = 0"
  proof -
    have "bit x n \<Longrightarrow> n < 8 \<and> n < 32" for n using bit_imp_le_length [of x n] by simp
    then show ?thesis by (auto simp: bit_eq_iff bit_simps)
  qed
  then show ?case using Cons by (auto simp: or_eq_0_iff)
qed simp

lemma salt_bits_zero: "salt_bits h = 0 \<longleftrightarrow> (\<forall>x \<in> set (hd_salt h). x = 0)"
  by (simp add: salt_bits_def foldl_or_zero)

lemma calculate_header_crc_None:
  assumes "length h = DC_AREA_SIZE"
  shows "calculate_header_crc h = None \<longleftrightarrow>
    DC_HDR_VERSION_2 \<le> hd_version h \<and> (hd_footer_cnt h < -64 \<or> 59 < hd_footer_cnt h)"
  using assms by (auto simp: calculate_header_crc_def rdi_def nat_le_iff not_less)

text \<open>
  C14: what \<^verbatim>\<open>is_volume_header_correct\<close> decides on a 2048-byte area and when it is safe. It never
  reads outside the area unless salt and signature are right, the version is 2 and later, and
  \<^verbatim>\<open>footer_cnt\<close> is below -64 or above 59: then the CRC runs past the end of the area (by up to
  1024 bytes, or by nearly 4 GB). Otherwise it accepts exactly the headers with a salt that is not
  zero, the signature and the matching CRC.
\<close>

theorem is_volume_header_correct_area:
  assumes "length h = DC_AREA_SIZE"
  shows "is_volume_header_correct h =
    (if (\<exists>x \<in> set (hd_salt h). x \<noteq> 0) \<and> hd_sign h = DC_VOLUME_SIGN then
       if DC_HDR_VERSION_2 \<le> hd_version h then
         if hd_footer_cnt h < -64 \<or> 59 < hd_footer_cnt h then None
         else Some (hd_crc h = crc32 (take (nat (952 - hd_footer_cnt h * 16)) (drop 72 h)))
       else Some (hd_crc h = crc32 (take 1976 (drop 72 h)))
     else Some False)"
  using assms calculate_header_crc_None [OF assms]
  by (auto simp: is_volume_header_correct_def salt_bits_zero calculate_header_crc_def rdi_def rd_def)

text \<open>A header with the signature and the given footer count.\<close>

definition header_ex :: "u8 \<Rightarrow> buf" where
  "header_ex footer = replicate 64 1 @ [0x44, 0x43, 0x52, 0x50] @ replicate 4 0 @ [3, 0] @
     replicate 553 0 @ [footer] @ replicate 1420 0"

theorem is_volume_header_correct_area_witness:
  "length (header_ex 0xBF) = DC_AREA_SIZE \<and> is_volume_header_correct (header_ex 0xBF) = None"
proof -
  have l: "length (header_ex 0xBF) = DC_AREA_SIZE" by (simp add: header_ex_def)
  have "hd_footer_cnt (header_ex 0xBF) = -65" and "hd_sign (header_ex 0xBF) = DC_VOLUME_SIGN"
    and "hd_version (header_ex 0xBF) = 3" and "1 \<in> set (hd_salt (header_ex 0xBF))"
    by (simp_all add: hd_footer_cnt_def header_ex_def nth_append hd_sign_def fld_u32_def hd_version_def
        fld_u16_def hd_salt_def DC_VOLUME_SIGN_def)
  with l show ?thesis
    using is_volume_header_correct_area [OF l] by (simp add: DC_HDR_VERSION_2_def bexI [of _ 1])
qed

text \<open>A valid header of the second version, with \<open>rest\<close> from the flags on.\<close>

definition make_header :: "u8 list \<Rightarrow> buf" where
  "make_header rest =
     (let body = [3, 0] @ rest in
      replicate 64 1 @ [0x44, 0x43, 0x52, 0x50] @ le_bytes 4 (unat (crc32 (take 952 body))) @ body)"

lemma make_header_correct:
  assumes "length rest = 1974" and "rest ! 553 = 0"
  shows "length (make_header rest) = DC_AREA_SIZE" and "is_volume_header_correct (make_header rest) = Some True"
    and "hd_salt (make_header rest) = replicate 64 1"
proof -
  show l: "length (make_header rest) = DC_AREA_SIZE" using assms(1) by (simp add: make_header_def Let_def)
  show s: "hd_salt (make_header rest) = replicate 64 1" by (simp add: make_header_def hd_salt_def Let_def)
  have "unat (crc32 (take 952 ([3, 0] @ rest))) < 256 ^ 4"
    using unsigned_less [of "crc32 (take 952 ([3, 0] @ rest))"] by simp
  then have c: "hd_crc (make_header rest) = crc32 (take 952 ([3, 0] @ rest))"
    using le_val_le_bytes [of "unat (crc32 (take 952 ([3, 0] @ rest)))" 4]
    by (simp add: make_header_def hd_crc_def fld_u32_def Let_def)
  have d: "drop 72 (make_header rest) = [3, 0] @ rest" by (simp add: make_header_def Let_def)
  have f: "hd_footer_cnt (make_header rest) = 0" and v: "hd_version (make_header rest) = 3"
    and g: "hd_sign (make_header rest) = DC_VOLUME_SIGN"
    using assms(2)
    by (simp_all add: make_header_def hd_footer_cnt_def nth_append hd_version_def fld_u16_def hd_sign_def
        fld_u32_def DC_VOLUME_SIGN_def Let_def)
  show "is_volume_header_correct (make_header rest) = Some True"
    using l c d f v g s
    by (simp add: is_volume_header_correct_def salt_bits_zero calculate_header_crc_def DC_HDR_VERSION_2_def rdi_def rd_def)
qed

end
