(* ===== verification/Crypto_Head.thy ===== *)
theory Crypto_Head
  imports Vol_Header
begin

unbundle bit_operations_syntax

text \<open>
  \<^verbatim>\<open>volume_lib/crypto_head.c\<close>: key derivation, the search for the cipher, the key-derivation
  function and the key slot that open a header, and the wrapping of header keys in slots. Pointers
  the caller may pass as NULL (\<^verbatim>\<open>out_kdf\<close>, \<^verbatim>\<open>out_dk\<close>, \<^verbatim>\<open>out_slot\<close>) are results here.
\<close>

section \<open>Key derivation\<close>

definition memory_mib_table :: "nat list" where
  "memory_mib_table = [64, 128, 192, 256, 384, 512, 768, 1024, 1536, 2048]"

definition time_cost_table :: "nat list" where
  "time_cost_table = [3, 3, 4, 4, 5, 5, 5, 6, 6, 6]"

text \<open>Memory cost in KiB, time cost, parallelism.\<close>

definition argon2_mk_params :: "int \<Rightarrow> (u32 \<times> u32 \<times> u32) option" where
  "argon2_mk_params kdf =
     (let min_cost = 1; max_cost = int (length memory_mib_table) in
      if kdf < min_cost \<or> max_cost < kdf then None
      else (let idx = nat (kdf - 1) in
            Some (of_nat (memory_mib_table ! idx) * 1024, of_nat (time_cost_table ! idx), 4)))"

definition KDF_LEGACY_ARGON_BASE :: int where "KDF_LEGACY_ARGON_BASE = 1000"
definition KDF_LEGACY_ARGON_LAST :: int where "KDF_LEGACY_ARGON_LAST = 1100"
definition KDF_NONE :: int where "KDF_NONE = -1"
definition KDF_DEFAULT :: int where "KDF_DEFAULT = -2"
definition KDF_ALL :: int where "KDF_ALL = -3"

definition legacy_params :: "int \<Rightarrow> u32 \<times> u32" where
  "legacy_params kdf =
     (let cost = kdf - KDF_LEGACY_ARGON_BASE;
          m_cost_mib = 64 + (cost - 1) * 32;
          m_cost_mib = (if 1024 < m_cost_mib then 1024 else m_cost_mib)
      in (word_of_int m_cost_mib * 1024,
          if cost \<le> 31 then word_of_int (3 + (cost - 1) div 3) else word_of_int (13 + (cost - 31))))"

definition dc_derive_key ::
  "'w host \<Rightarrow> dc_pass \<Rightarrow> int \<Rightarrow> u8 list \<Rightarrow> 'w world \<Rightarrow> (u8 list option \<times> 'w world) option" where
  "dc_derive_key hs password kdf salt w =
     (if kdf = KDF_NONE then
        if p_size password = 256 then do {
          dk \<leftarrow> rd (p_pass password) 0 PKCS_DERIVE_MAX;
          Some (Some dk, w) }
        else Some (None, w)
      else if kdf = 0 then do {
        pw \<leftarrow> pass_bytes password;
        dk \<leftarrow> sha512_pkcs5_2 (h_hmac_mem hs) 1000 pw salt PKCS_DERIVE_MAX;
        Some (Some dk, w) }
      else if KDF_LEGACY_ARGON_BASE < kdf \<and> kdf \<le> KDF_LEGACY_ARGON_LAST then do {
        pw \<leftarrow> pass_bytes password;
        Some (case legacy_params kdf of (m, t) \<Rightarrow> dc_argon2 hs t m 1 pw salt PKCS_DERIVE_MAX w) }
      else
        (case argon2_mk_params kdf of
           None \<Rightarrow> Some (None, w)
         | Some (m, t, par) \<Rightarrow> do {
             pw \<leftarrow> pass_bytes password;
             (case dc_argon2 hs t m par pw salt 256 w of
                (None, w) \<Rightarrow> Some (None, w)
              | (Some ak, w) \<Rightarrow> do {
                  dk \<leftarrow> rd ak 0 PKCS_DERIVE_MAX;
                  Some (Some dk, w) }) }))"

section \<open>Which cipher sealed the header\<close>

text \<open>The loop over the cipher numbers that are left; the result is the status, the key and the copy.\<close>

fun try_ciphers ::
  "aes_core \<Rightarrow> u8 list \<Rightarrow> buf \<Rightarrow> int list \<Rightarrow> xts_key \<Rightarrow> buf \<Rightarrow> (bool \<times> xts_key \<times> buf) option" where
  "try_ciphers core dk header [] hdr_key hcopy = Some (False, hdr_key, hcopy)"
| "try_ciphers core dk header (alg # algs) hdr_key hcopy = do {
     (set, hdr_key) \<leftarrow> xts_set_key dk alg hdr_key;
     if set \<noteq> 0 then do {
       area \<leftarrow> rd header 0 DC_AREA_SIZE;
       plain \<leftarrow> xts_decrypt core area 2048 0 hdr_key;
       hcopy \<leftarrow> wr hcopy 0 plain;
       ok \<leftarrow> is_volume_header_correct hcopy;
       if ok then Some (True, hdr_key, hcopy)
       else try_ciphers core dk header algs hdr_key hcopy }
     else try_ciphers core dk header algs hdr_key hcopy }"

definition try_decrypt_header ::
  "aes_core \<Rightarrow> u8 list \<Rightarrow> xts_key \<Rightarrow> buf \<Rightarrow> buf \<Rightarrow> (bool \<times> xts_key \<times> buf) option" where
  "try_decrypt_header core dk hdr_key header hcopy = try_ciphers core dk header [0..6] hdr_key hcopy"

text \<open>Everything but the salt is copied back.\<close>

definition restore_header :: "buf \<Rightarrow> buf \<Rightarrow> buf option" where
  "restore_header header hcopy = do {
     body \<leftarrow> rd hcopy HEADER_SALT_SIZE (DC_AREA_SIZE - HEADER_SALT_SIZE);
     wr header HEADER_SALT_SIZE body }"

definition cp_try_decrypt_header ::
  "'w host \<Rightarrow> u8 list \<Rightarrow> int \<Rightarrow> xts_key \<Rightarrow> buf \<Rightarrow> 'w world \<Rightarrow> ((bool \<times> xts_key \<times> buf) \<times> 'w world) option" where
  "cp_try_decrypt_header hs dk alg hdr_key header w =
     (case dc_alloc hs DC_AREA_SIZE w of
        (None, w) \<Rightarrow> Some ((False, hdr_key, header), w)
      | (Some hcopy, w) \<Rightarrow> do {
          (set, hdr_key) \<leftarrow> xts_set_key dk alg hdr_key;
          (succs, header) \<leftarrow>
            (if set \<noteq> 0 then do {
               area \<leftarrow> rd header 0 DC_AREA_SIZE;
               plain \<leftarrow> xts_decrypt (h_core hs) area 2048 0 hdr_key;
               hcopy \<leftarrow> wr hcopy 0 plain;
               ok \<leftarrow> is_volume_header_correct hcopy;
               if ok then map_option (\<lambda>h. (True, h)) (restore_header header hcopy)
               else Some (False, header) }
             else Some (False, header));
          Some ((succs, hdr_key, header), dc_free hs w) })"

section \<open>Key slots\<close>

definition cp_get_key_slot_size :: "int \<Rightarrow> nat" where
  "cp_get_key_slot_size type = (if type = 0 then PKCS_DERIVE_MAX else 0)"

text \<open>The loop over 64-bit chunks.\<close>

definition xor_chunks :: "u8 list \<Rightarrow> u8 list \<Rightarrow> u8 list" where
  "xor_chunks a b = concat (map (\<lambda>i. st64 (ld64 a (8 * i) XOR ld64 b (8 * i))) [0..<24])"

definition try_decrypt_slot :: "u8 list \<Rightarrow> buf \<Rightarrow> nat \<Rightarrow> int \<Rightarrow> u8 list option option" where
  "try_decrypt_slot dk h slot type =
     (if type = 0 then do {
        s \<leftarrow> rd h slot PKCS_DERIVE_MAX;
        Some (Some (xor_chunks s dk)) }
      else Some None)"

definition cp_wrap_header_key :: "buf \<Rightarrow> nat \<Rightarrow> u8 list \<Rightarrow> u8 list \<Rightarrow> int \<Rightarrow> (bool \<times> buf) option" where
  "cp_wrap_header_key h slot sk dk type =
     (if type = 0 then do {
        h \<leftarrow> wr h slot (xor_chunks sk dk);
        Some (True, h) }
      else Some (False, h))"

definition cp_swap_slot_key :: "buf \<Rightarrow> nat \<Rightarrow> u8 list \<Rightarrow> u8 list \<Rightarrow> int \<Rightarrow> (bool \<times> buf) option" where
  "cp_swap_slot_key h slot old_dk new_dk type =
     (if type = 0 then do {
        s \<leftarrow> rd h slot PKCS_DERIVE_MAX;
        h \<leftarrow> wr h slot (xor_chunks (xor_chunks s old_dk) new_dk);
        Some (True, h) }
      else Some (False, h))"

definition cp_get_min_header_len :: "dc_pass \<Rightarrow> int" where
  "cp_get_min_header_len password =
     (if p_slot password \<noteq> 0 then
        (let slot_count = min \<bar>p_slot password\<bar> 100;
             slot_size = int (cp_get_key_slot_size 0) + 32
         in max (1024 + slot_size * slot_count) 2048)
      else 2048)"

section \<open>The search\<close>

text \<open>What a successful search hands out: the key that opened the header and the slot it came from.\<close>

record opened =
  o_dk :: "u8 list"
  o_slot :: nat

text \<open>The loop over the slots: \<open>n\<close> of them are left, \<open>i\<close> is the next.\<close>

fun try_slots ::
  "aes_core \<Rightarrow> u8 list \<Rightarrow> buf \<Rightarrow> int \<Rightarrow> nat \<Rightarrow> nat \<Rightarrow> xts_key \<Rightarrow> buf \<Rightarrow>
   (opened option \<times> xts_key \<times> buf) option" where
  "try_slots core dk header hdr_len i 0 hdr_key hcopy = Some (None, hdr_key, hcopy)"
| "try_slots core dk header hdr_len i (Suc n) hdr_key hcopy =
     (let slot_size = cp_get_key_slot_size 0 in
      if hdr_len < int (DC_BASE_SIZE + slot_size * (i + 1)) then Some (None, hdr_key, hcopy)
      else do {
        r \<leftarrow> try_decrypt_slot dk header (DC_BASE_SIZE + slot_size * i) 0;
        (case r of
           None \<Rightarrow> try_slots core dk header hdr_len (i + 1) n hdr_key hcopy
         | Some sk \<Rightarrow> do {
             (succs, hdr_key, hcopy) \<leftarrow> try_decrypt_header core sk hdr_key header hcopy;
             if succs then Some (Some \<lparr>o_dk = sk, o_slot = i + 1\<rparr>, hdr_key, hcopy)
             else try_slots core dk header hdr_len (i + 1) n hdr_key hcopy }) })"

definition cp_decrypt_header_with_kdf ::
  "'w host \<Rightarrow> xts_key \<Rightarrow> buf \<Rightarrow> int \<Rightarrow> dc_pass \<Rightarrow> int \<Rightarrow> 'w world \<Rightarrow>
   ((opened option \<times> xts_key \<times> buf) \<times> 'w world) option" where
  "cp_decrypt_header_with_kdf hs hdr_key header hdr_len password kdf w =
     (case dc_alloc hs DC_AREA_SIZE w of
        (None, w) \<Rightarrow> Some ((None, hdr_key, header), w)
      | (Some hcopy, w) \<Rightarrow> do {
          (r, w) \<leftarrow> dc_derive_key hs password kdf (hd_salt header) w;
          (case r of
             None \<Rightarrow> Some ((None, hdr_key, header), w)
           | Some dk \<Rightarrow> do {
               let slot = p_slot password;
               (found, hdr_key, hcopy) \<leftarrow>
                 (if slot \<le> 0 then do {
                    (succs, hdr_key, hcopy) \<leftarrow> try_decrypt_header (h_core hs) dk hdr_key header hcopy;
                    Some (if succs then Some \<lparr>o_dk = dk, o_slot = 0\<rparr> else None, hdr_key, hcopy) }
                  else Some (None, hdr_key, hcopy));
               let i = (if 0 < slot then nat (slot - 1) else 0);
               let slot = nat \<bar>slot\<bar>;
               (found, hdr_key, hcopy) \<leftarrow>
                 (if found = None
                  then try_slots (h_core hs) dk header hdr_len i (slot - i) hdr_key hcopy
                  else Some (found, hdr_key, hcopy));
               header \<leftarrow> (if found \<noteq> None then restore_header header hcopy else Some header);
               Some ((found, hdr_key, header), dc_free hs w) }) })"

definition dc_default_kdfs :: "int list" where
  "dc_default_kdfs = [0, 5, -1]"

definition dc_all_kdfs :: "int list" where
  "dc_all_kdfs = [0, 1, 2, 3, 4, 5, 6, 7, 8, 9, 10, -1]"

text \<open>The loop over a list of key-derivation functions, ended by -1.\<close>

fun try_kdfs ::
  "'w host \<Rightarrow> int list \<Rightarrow> xts_key \<Rightarrow> buf \<Rightarrow> int \<Rightarrow> dc_pass \<Rightarrow> 'w world \<Rightarrow>
   (((int \<times> opened) option \<times> xts_key \<times> buf) \<times> 'w world) option" where
  "try_kdfs hs [] hdr_key header hdr_len password w = None"
| "try_kdfs hs (kdf # kdfs) hdr_key header hdr_len password w =
     (if kdf = -1 then Some ((None, hdr_key, header), w)
      else
        (case dc_interrupted hs w of (stop, w) \<Rightarrow>
           if stop then Some ((None, hdr_key, header), w)
           else do {
             ((found, hdr_key, header), w) \<leftarrow>
               cp_decrypt_header_with_kdf hs hdr_key header hdr_len password kdf w;
             (case found of
                Some r \<Rightarrow> Some ((Some (kdf, r), hdr_key, header), w)
              | None \<Rightarrow> try_kdfs hs kdfs hdr_key header hdr_len password w) }))"

definition cp_decrypt_header ::
  "'w host \<Rightarrow> xts_key \<Rightarrow> buf \<Rightarrow> int \<Rightarrow> dc_pass \<Rightarrow> 'w world \<Rightarrow>
   (((int \<times> opened) option \<times> xts_key \<times> buf) \<times> 'w world) option" where
  "cp_decrypt_header hs hdr_key header hdr_len password w =
     (let kdf = p_kdf password in
      if kdf < -1 then
        if kdf = KDF_ALL then try_kdfs hs dc_all_kdfs hdr_key header hdr_len password w
        else if kdf = KDF_DEFAULT then try_kdfs hs dc_default_kdfs hdr_key header hdr_len password w
        else Some ((None, hdr_key, header), w)
      else
        (case dc_interrupted hs w of (stop, w) \<Rightarrow>
           if stop then Some ((None, hdr_key, header), w)
           else do {
             ((found, hdr_key, header), w) \<leftarrow>
               cp_decrypt_header_with_kdf hs hdr_key header hdr_len password kdf w;
             Some ((map_option (\<lambda>r. (kdf, r)) found, hdr_key, header), w) }))"

definition cp_set_header_key ::
  "'w host \<Rightarrow> xts_key \<Rightarrow> u8 list \<Rightarrow> int \<Rightarrow> dc_pass \<Rightarrow> 'w world \<Rightarrow> ((bool \<times> xts_key) \<times> 'w world) option" where
  "cp_set_header_key hs hdr_key salt cipher password w = do {
     (r, w) \<leftarrow> dc_derive_key hs password (p_kdf password) salt w;
     (case r of
        None \<Rightarrow> Some ((False, hdr_key), w)
      | Some dk \<Rightarrow> do {
          (set, hdr_key) \<leftarrow> xts_set_key dk cipher hdr_key;
          Some ((set \<noteq> 0, hdr_key), w) }) }"

text \<open>
  \<^verbatim>\<open>cp_copy_keylots\<close>: the slots that are not disabled, from one buffer to the other. The descriptor
  is read from the header, which is the output buffer for some callers; \<open>layout\<close> is that header
  with the bytes the loop has written so far when it is the same buffer.
\<close>

definition slot_info_off :: "buf \<Rightarrow> nat \<Rightarrow> nat" where
  "slot_info_off h i = DC_BASE_SIZE + hd_slot_area_len h + hd_slot_info_size h * i"

fun copy_slots :: "bool \<Rightarrow> buf \<Rightarrow> buf \<Rightarrow> nat \<Rightarrow> nat list \<Rightarrow> buf \<Rightarrow> buf option" where
  "copy_slots same header in_buff slot_size [] out_buff = Some out_buff"
| "copy_slots same header in_buff slot_size (i # is) out_buff = do {
     flags \<leftarrow> si_flags (if same then out_buff else header) (slot_info_off header i);
     out_buff \<leftarrow>
       (if flags AND SF_DISABLED = 0 then do {
          s \<leftarrow> rd in_buff (DC_BASE_SIZE + slot_size * i) slot_size;
          wr out_buff (DC_BASE_SIZE + slot_size * i) s }
        else Some out_buff);
     copy_slots same header in_buff slot_size is out_buff }"

definition cp_copy_keylots :: "bool \<Rightarrow> buf \<Rightarrow> buf \<Rightarrow> buf \<Rightarrow> (bool \<times> buf) option" where
  "cp_copy_keylots same header in_buff out_buff =
     (if \<not> has_slots_flag header \<or> hd_key_slot_count header = 0 then Some (False, out_buff)
      else if unat (hd_head_len header) <
              DC_BASE_SIZE + hd_slot_area_len header + hd_key_slot_count header * hd_slot_info_size header
      then Some (False, out_buff)
      else
        (let slot_size = hd_slot_area_len header div hd_key_slot_count header in do {
           out_buff \<leftarrow> copy_slots same header in_buff slot_size [0..<hd_key_slot_count header] out_buff;
           Some (True, out_buff) }))"


section \<open>Wrapped keys\<close>

lemma concat_take_drop_chunks: "length xs = n * k \<Longrightarrow> concat (map (\<lambda>i. take n (drop (n * i) xs)) [0..<k]) = xs"
proof (induction k arbitrary: xs)
  case (Suc k)
  have "concat (map (\<lambda>i. take n (drop (n * i) xs)) [0..<k]) = concat (map (\<lambda>i. take n (drop (n * i) (take (n * k) xs))) [0..<k])"
  proof (intro arg_cong [of _ _ concat] map_cong refl)
    fix i assume "i \<in> set [0..<k]"
    then have "n * i + n \<le> n * k" by (simp flip: mult_Suc_right add: add.commute)
    then have "n \<le> n * k - n * i" by linarith
    then show "take n (drop (n * i) xs) = take n (drop (n * i) (take (n * k) xs))"
      by (simp add: drop_take min_def)
  qed
  also have "\<dots> = take (n * k) xs" using Suc.prems by (intro Suc.IH) simp
  finally show ?case
    using Suc.prems append_take_drop_id [of "n * k" xs] by simp
qed simp

lemma xor_bytes_concat:
  "(\<And>i. i \<in> set is \<Longrightarrow> length (f i) = length (g i)) \<Longrightarrow>
   concat (map (\<lambda>i. xor_bytes (f i) (g i)) is) = xor_bytes (concat (map f is)) (concat (map g is))"
proof (induction "is")
  case Nil
  then show ?case by (simp add: xor_bytes_def)
next
  case (Cons i "is")
  then show ?case by (simp add: xor_bytes_append)
qed

lemma xor_chunks_eq:
  assumes "length a = 192" and "length b = 192"
  shows "xor_chunks a b = xor_bytes a b"
proof -
  have c: "st64 (ld64 a (8 * i) XOR ld64 b (8 * i)) = xor_bytes (take 8 (drop (8 * i) a)) (take 8 (drop (8 * i) b))"
    if "i \<in> set [0..<24]" for i
    using that assms by (simp add: st64_xor st64_ld64)
  have "xor_chunks a b = concat (map (\<lambda>i. xor_bytes (take 8 (drop (8 * i) a)) (take 8 (drop (8 * i) b))) [0..<24])"
    unfolding xor_chunks_def by (intro arg_cong [of _ _ concat] map_cong refl c)
  also have "\<dots> = xor_bytes a b"
    using assms by (subst xor_bytes_concat) (simp_all add: concat_take_drop_chunks)
  finally show ?thesis .
qed

lemma wr_rd_at: "off + length xs \<le> length h \<Longrightarrow> length xs = n \<Longrightarrow> \<exists>h'. wr h off xs = Some h' \<and> rd h' off n = Some xs \<and> length h' = length h"
  using wr_defined [of off xs h] rd_wr_same [of h off xs] by blast

lemma xor_bytes_swap:
  "length a = length b \<Longrightarrow> length c = length b \<Longrightarrow> xor_bytes (xor_bytes (xor_bytes a b) c) c = xor_bytes a b"
  by simp

text \<open>
  C16: key slots wrap header keys. A header key wrapped under a derived key is what unwrapping the
  slot with the same derived key returns; swapping the derived key keeps the header key the slot
  holds, for every old contents; and neither touches a byte outside the 192 of the slot.
\<close>

theorem slot_wrap_unwrap:
  assumes "slot + 192 \<le> length h" and "length sk = 192" and "length dk = 192" and "length new_dk = 192"
  shows "\<exists>h1 h2. cp_wrap_header_key h slot sk dk 0 = Some (True, h1) \<and>
    try_decrypt_slot dk h1 slot 0 = Some (Some sk) \<and>
    cp_swap_slot_key h slot dk new_dk 0 = Some (True, h2) \<and>
    try_decrypt_slot new_dk h2 slot 0 = try_decrypt_slot dk h slot 0 \<and>
    (\<forall>i n. i + n \<le> slot \<or> slot + 192 \<le> i \<longrightarrow> rd h1 i n = rd h i n \<and> rd h2 i n = rd h i n)"
proof -
  obtain s where s: "rd h slot 192 = Some s" "length s = 192"
    using assms(1) by (auto simp: rd_def)
  have l1: "length (xor_bytes sk dk) = 192" "length (xor_bytes s dk) = 192"
    "length (xor_bytes (xor_bytes s dk) new_dk) = 192"
    using assms s(2) by simp_all
  obtain h1 where h1: "wr h slot (xor_bytes sk dk) = Some h1" "rd h1 slot 192 = Some (xor_bytes sk dk)"
    using wr_rd_at [of slot "xor_bytes sk dk" h 192] l1(1) assms(1) by auto
  obtain h2 where h2: "wr h slot (xor_bytes (xor_bytes s dk) new_dk) = Some h2"
    "rd h2 slot 192 = Some (xor_bytes (xor_bytes s dk) new_dk)"
    using wr_rd_at [of slot "xor_bytes (xor_bytes s dk) new_dk" h 192] l1(3) assms(1) by auto
  have "\<forall>i n. i + n \<le> slot \<or> slot + 192 \<le> i \<longrightarrow> rd h1 i n = rd h i n \<and> rd h2 i n = rd h i n"
    using rd_wr_other [OF h1(1)] rd_wr_other [OF h2(1)] l1 by simp
  with h1 h2 s l1 assms show ?thesis
    by (simp add: cp_wrap_header_key_def cp_swap_slot_key_def try_decrypt_slot_def xor_chunks_eq)
qed

theorem slot_wrap_unwrap_witness:
  "\<exists>h1. cp_wrap_header_key (replicate 2048 0) 1216 (replicate 192 5) (replicate 192 9) 0 = Some (True, h1) \<and>
    try_decrypt_slot (replicate 192 9) h1 1216 0 = Some (Some (replicate 192 5))"
  using slot_wrap_unwrap [of 1216 "replicate 2048 0" "replicate 192 5" "replicate 192 9" "replicate 192 7"]
  by auto

section \<open>Key derivation\<close>

text \<open>What each number of a key-derivation function stands for.\<close>

definition kdf_spec :: "'w host \<Rightarrow> int \<Rightarrow> u8 list \<Rightarrow> u8 list \<Rightarrow> 'w \<Rightarrow> u8 list option \<times> 'w" where
  "kdf_spec hs kdf pw salt e =
     (if kdf = -1 then (if length pw = 256 then Some (take 192 pw) else None, e)
      else if kdf = 0 then (Some (pbkdf2 pw salt 1000 192), e)
      else if 1001 \<le> kdf \<and> kdf \<le> 1100 then
        (let cost = nat (kdf - 1000) in
         h_argon2 hs (if cost \<le> 31 then of_nat (3 + (cost - 1) div 3) else of_nat (cost - 18))
           (of_nat (1024 * min 1024 (32 + 32 * cost))) 1 pw salt 192 e)
      else if 1 \<le> kdf \<and> kdf \<le> 10 then
        (let i = nat (kdf - 1);
             mib = [64, 128, 192, 256, 384, 512, 768, 1024, 1536, 2048] ! i;
             t = [3, 3, 4, 4, 5, 5, 5, 6, 6, 6] ! i
         in apfst (map_option (take 192)) (h_argon2 hs (of_nat t) (of_nat (1024 * mib)) 4 pw salt 256 e))
      else (None, e))"

lemma legacy_params_eq:
  assumes "1001 \<le> kdf" and "kdf \<le> 1100"
  shows "legacy_params kdf =
    (let cost = nat (kdf - 1000) in
     (of_nat (1024 * min 1024 (32 + 32 * cost)),
      if cost \<le> 31 then of_nat (3 + (cost - 1) div 3) else of_nat (cost - 18)))"
proof -
  define c where "c = nat (kdf - 1000)"
  have c: "kdf = 1000 + int c" "1 \<le> c" using assms by (simp_all add: c_def)
  have m: "(if 1024 < 64 + (int c - 1) * 32 then 1024 else 64 + (int c - 1) * 32) = int (min 1024 (32 + 32 * c))"
    by (simp add: min_def algebra_simps)
  have t1: "3 + (int c - 1) div 3 = int (3 + (c - 1) div 3)"
    using c(2) by (simp add: zdiv_int of_nat_diff)
  have t2: "\<not> c \<le> 31 \<Longrightarrow> 13 + (int c - 31) = int (c - 18)" by (simp add: of_nat_diff)
  have k: "nat (kdf - 1000) = c" "kdf - 1000 = int c" using c(1) by simp_all
  show ?thesis
    unfolding legacy_params_def KDF_LEGACY_ARGON_BASE_def Let_def k m t1
    by (cases "c \<le> 31") (simp_all add: t2 mult.commute)
qed

lemma argon2_mk_params_eq:
  "argon2_mk_params kdf =
    (if 1 \<le> kdf \<and> kdf \<le> 10 then
       Some (of_nat (1024 * [64, 128, 192, 256, 384, 512, 768, 1024, 1536, 2048] ! nat (kdf - 1)),
             of_nat ([3, 3, 4, 4, 5, 5, 5, 6, 6, 6] ! nat (kdf - 1)), 4)
     else None)"
  by (auto simp: argon2_mk_params_def memory_mib_table_def time_cost_table_def Let_def)

lemma dc_derive_key_eq:
  assumes h: "host_ok hs" and p: "pass_ok password" "length salt = 64"
  shows "dc_derive_key hs password kdf salt w =
    (case kdf_spec hs kdf (take (nat (p_size password)) (p_pass password)) salt (env w) of
       (r, e) \<Rightarrow> Some (r, w\<lparr>env := e\<rparr>))"
proof -
  let ?pw = "take (nat (p_size password)) (p_pass password)"
  have l: "length (p_pass password) = 256" "0 \<le> p_size password" "p_size password \<le> 256"
    using p(1) by (simp_all add: pass_ok_def)
  then have lpw: "length ?pw = nat (p_size password)" by simp
  have pb: "pass_bytes password = Some ?pw" using p(1) by (rule pass_bytes_Some)
  consider (raw) "kdf = -1" | (pbkdf2) "kdf = 0" | (legacy) "1001 \<le> kdf" "kdf \<le> 1100"
    | (argon) "1 \<le> kdf" "kdf \<le> 10" | (other) "kdf < -1 \<or> 10 < kdf \<and> kdf < 1001 \<or> 1100 < kdf"
    by linarith
  then show ?thesis
  proof cases
    case raw
    have "nat (p_size password) = 256 \<longleftrightarrow> p_size password = 256" by (simp add: nat_eq_iff)
    with raw l lpw show ?thesis
      by (auto simp: dc_derive_key_def kdf_spec_def KDF_NONE_def rd_def min_def)
  next
    case pbkdf2
    have "sha512_pkcs5_2 (h_hmac_mem hs) 1000 ?pw salt 192 = Some (pbkdf2 ?pw salt 1000 192)"
      using pkcs5_2_pbkdf2 [of "h_hmac_mem hs" ?pw salt 192 1000] h p(2) lpw l by (simp add: host_ok_def)
    with pbkdf2 pb show ?thesis by (simp add: dc_derive_key_def kdf_spec_def KDF_NONE_def)
  next
    case legacy
    then show ?thesis
      by (simp add: dc_derive_key_def kdf_spec_def KDF_NONE_def KDF_LEGACY_ARGON_BASE_def KDF_LEGACY_ARGON_LAST_def
          pb legacy_params_eq dc_argon2_def Let_def split: prod.split)
  next
    case argon
    let ?m = "of_nat (1024 * [64, 128, 192, 256, 384, 512, 768, 1024, 1536, 2048] ! nat (kdf - 1)) :: u32"
    let ?t = "of_nat ([3, 3, 4, 4, 5, 5, 5, 6, 6, 6] ! nat (kdf - 1)) :: u32"
    obtain r e where a: "h_argon2 hs ?t ?m 4 ?pw salt 256 (env w) = (r, e)" by force
    have lr: "length d = 256" if "r = Some d" for d
      using h a that unfolding host_ok_def by blast
    show ?thesis
      using argon lr
      by (cases r) (simp_all add: dc_derive_key_def kdf_spec_def KDF_NONE_def KDF_LEGACY_ARGON_BASE_def pb
          argon2_mk_params_eq dc_argon2_def Let_def a rd_def del: of_nat_mult)
  next
    case other
    then show ?thesis
      by (auto simp: dc_derive_key_def kdf_spec_def KDF_NONE_def KDF_LEGACY_ARGON_BASE_def KDF_LEGACY_ARGON_LAST_def
          argon2_mk_params_eq)
  qed
qed

lemma dc_argon2_live: "dc_argon2 hs t m p pw salt n w = (r, w') \<Longrightarrow> live w' = live w"
  by (auto simp: dc_argon2_def split: prod.split_asm)

lemma dc_derive_key_live:
  assumes "dc_derive_key hs password kdf salt w = Some (r, w')"
  shows "live w' = live w"
proof -
  obtain m t where l: "legacy_params kdf = (m, t)" by force
  show ?thesis
  proof (cases "argon2_mk_params kdf")
    case None
    with assms show ?thesis
      by (auto simp: dc_derive_key_def l elim!: bind_SomeE dest: dc_argon2_live split: if_split_asm)
  next
    case (Some x)
    obtain m' t' p' where "x = (m', t', p')" by (cases x)
    with Some assms show ?thesis
      by (auto simp: dc_derive_key_def l elim!: bind_SomeE dest: dc_argon2_live
          split: if_split_asm option.split_asm prod.split_asm)
  qed
qed

lemma length_pbkdf2 [simp]: "length (pbkdf2 P S c n) = n"
proof -
  have "length (concat (map (pbkdf2_F P S c) [1..<Suc m])) = 64 * m" for m
    by (induction m) simp_all
  then have "n \<le> length (concat (map (pbkdf2_F P S c) [1..<Suc ((n + 63) div 64)]))" by simp
  then show ?thesis by (simp add: pbkdf2_def)
qed

lemma kdf_spec_length:
  assumes h: "host_ok hs" and k: "kdf_spec hs kdf pw salt e = (Some dk, e')"
  shows "length dk = 192"
proof -
  have a: "h_argon2 hs t m p pw salt n e = (Some d, e') \<Longrightarrow> length d = n" for t m p n d e'
    using h unfolding host_ok_def by blast
  show ?thesis
    using k by (auto simp: kdf_spec_def Let_def apfst_def map_prod_def split: if_splits prod.splits dest: a)
qed

lemma dc_derive_key_length:
  assumes "host_ok hs" and "pass_ok password" and "length salt = 64"
    and "dc_derive_key hs password kdf salt w = Some (Some dk, w')"
  shows "length dk = 192"
  using assms(4) unfolding dc_derive_key_eq [OF assms(1-3)]
  by (auto split: prod.splits dest: kdf_spec_length [OF assms(1)])

section \<open>The search\<close>

lemma xts_set_key_result: "xts_set_key dk alg k = Some (r, k') \<Longrightarrow> r = 0 \<or> r = 1"
  unfolding xts_set_key_def Let_def
  by (simp only: split: if_split_asm) ((elim bind_SomeE)?; simp)+

text \<open>What it means that a key opens a header: its plaintext under that key is a valid header.\<close>

definition opens :: "aes_core \<Rightarrow> u8 list \<Rightarrow> buf \<Rightarrow> xts_key \<Rightarrow> buf \<Rightarrow> bool" where
  "opens core dk header key plain \<longleftrightarrow>
     (\<exists>alg k0. 0 \<le> alg \<and> alg \<le> 6 \<and> xts_set_key dk alg k0 = Some (1, key)) \<and>
     xts_decrypt core (take 2048 header) 2048 0 key = Some plain \<and>
     length plain = 2048 \<and> is_volume_header_correct plain = Some True"

lemma xts_decrypt_length:
  assumes "xts_set_key dk alg k0 = Some (1, key)" and "xts_decrypt core area 2048 0 key = Some plain"
    and "length area = 2048"
  shows "length plain = 2048"
proof -
  have "xk_decrypt key \<noteq> XTS_NONE" using xts_set_key_pairs [OF assms(1)] by (auto simp: xts_pairs_def)
  then have "sector_fun (\<lambda>P len off. xts_call core (xk_decrypt key) P len off key)" by (rule xts_call_sector_fun)
  from sector_fun.f_total [OF this, of 2048 area 0] show ?thesis
    using assms(2,3) by (simp add: xts_len_ok_def xts_decrypt_def)
qed

lemma try_ciphers_sound:
  "try_ciphers core dk header algs k hcopy = Some (ok, k', hcopy') \<Longrightarrow> length hcopy = 2048 \<Longrightarrow>
   set algs \<subseteq> {0..6} \<Longrightarrow> length hcopy' = 2048 \<and> (ok \<longrightarrow> opens core dk header k' hcopy')"
proof (induction core dk header algs k hcopy rule: try_ciphers.induct)
  case (2 core dk header alg algs k hcopy)
  from "2.prems"(1) obtain r k1 where s: "xts_set_key dk alg k = Some (r, k1)"
    by (auto simp: bind_eq_Some_conv)
  show ?case
  proof (cases "r = 0")
    case True
    with "2.IH"(2) [OF s refl] "2.prems" s show ?thesis by simp
  next
    case False
    then have r: "r = 1" using xts_set_key_result [OF s] by simp
    from "2.prems"(1) s False obtain area plain h c where
      a: "rd header 0 2048 = Some area" and d: "xts_decrypt core area 2048 0 k1 = Some plain"
      and w: "wr hcopy 0 plain = Some h" and c: "is_volume_header_correct h = Some c"
      and rest: "(if c then Some (True, k1, h) else try_ciphers core dk header algs k1 h) = Some (ok, k', hcopy')"
      by (auto simp: bind_eq_Some_conv)
    have area: "area = take 2048 header" "length area = 2048" using a by (auto simp: rd_def split: if_splits)
    have lp: "length plain = 2048" using xts_decrypt_length [OF s [unfolded r] d area(2)] .
    then have h: "h = plain" using w "2.prems"(2) by (auto simp: wr_def)
    show ?thesis
    proof (cases c)
      case True
      then have "opens core dk header k1 plain"
        using s r d area c h lp "2.prems"(3) unfolding opens_def by auto
      with True rest h lp show ?thesis by simp
    next
      case nc: False
      with "2.IH"(1) [OF s refl False a d w c] rest lp h "2.prems"(3) show ?thesis by simp
    qed
  qed
qed simp

lemma try_decrypt_header_sound:
  "try_decrypt_header core dk k header hcopy = Some (ok, k', hcopy') \<Longrightarrow> length hcopy = 2048 \<Longrightarrow>
   length hcopy' = 2048 \<and> (ok \<longrightarrow> opens core dk header k' hcopy')"
  unfolding try_decrypt_header_def by (erule try_ciphers_sound) auto

lemma try_slots_sound:
  "try_slots core dk header hdr_len i n k hcopy = Some (found, k', hcopy') \<Longrightarrow> length hcopy = 2048 \<Longrightarrow>
   length hcopy' = 2048 \<and>
   (\<forall>r. found = Some r \<longrightarrow> i < o_slot r \<and> o_slot r \<le> i + n \<and>
      int (1024 + 192 * o_slot r) \<le> hdr_len \<and>
      try_decrypt_slot dk header (1024 + 192 * (o_slot r - 1)) 0 = Some (Some (o_dk r)) \<and>
      opens core (o_dk r) header k' hcopy')"
proof (induction n arbitrary: i k hcopy)
  case (Suc n)
  show ?case
  proof (cases "hdr_len < int (1024 + 192 * (i + 1))")
    case True
    with Suc.prems show ?thesis by (simp add: cp_get_key_slot_size_def)
  next
    case False
    from Suc.prems(1) False obtain r where r: "try_decrypt_slot dk header (1024 + 192 * i) 0 = Some r"
      by (auto simp: cp_get_key_slot_size_def bind_eq_Some_conv)
    then obtain sk where sk: "r = Some sk" by (auto simp: try_decrypt_slot_def bind_eq_Some_conv)
    from Suc.prems(1) False r sk obtain ok k1 h where
      t: "try_decrypt_header core sk k header hcopy = Some (ok, k1, h)"
      and rest: "(if ok then Some (Some \<lparr>o_dk = sk, o_slot = i + 1\<rparr>, k1, h)
                  else try_slots core dk header hdr_len (i + 1) n k1 h) = Some (found, k', hcopy')"
      by (auto simp: cp_get_key_slot_size_def bind_eq_Some_conv)
    note th = try_decrypt_header_sound [OF t Suc.prems(2)]
    show ?thesis
    proof (cases ok)
      case True
      with rest th False r sk show ?thesis by auto
    next
      case False
      with rest have "try_slots core dk header hdr_len (i + 1) n k1 h = Some (found, k', hcopy')" by simp
      from Suc.IH [OF this conjunct1 [OF th]] show ?thesis by auto
    qed
  qed
qed simp

text \<open>Which slots the password admits: 0 is the header's own key.\<close>

definition slot_admitted :: "int \<Rightarrow> nat \<Rightarrow> bool" where
  "slot_admitted s n \<longleftrightarrow> (if 0 < s then int n = s else int n \<le> - s)"

definition kdf_admitted :: "int \<Rightarrow> int \<Rightarrow> bool" where
  "kdf_admitted sel kdf \<longleftrightarrow>
     (if sel = -3 then 0 \<le> kdf \<and> kdf \<le> 10 else if sel = -2 then kdf = 0 \<or> kdf = 5 else kdf = sel \<and> -1 \<le> sel)"

text \<open>
  The result of a search with derived key \<open>dk\<close>: the header key is \<open>dk\<close> itself, or what the slot
  holds under \<open>dk\<close>, and it opens the header.
\<close>

definition search_ok :: "'w host \<Rightarrow> u8 list \<Rightarrow> int \<Rightarrow> int \<Rightarrow> buf \<Rightarrow> opened \<Rightarrow> xts_key \<Rightarrow> buf \<Rightarrow> bool" where
  "search_ok hs dk s hdr_len header r key header' \<longleftrightarrow>
     slot_admitted s (o_slot r) \<and>
     (if o_slot r = 0 then o_dk r = dk
      else int (1024 + 192 * o_slot r) \<le> hdr_len \<and>
           try_decrypt_slot dk header (1024 + 192 * (o_slot r - 1)) 0 = Some (Some (o_dk r))) \<and>
     (\<exists>plain. opens (h_core hs) (o_dk r) header key plain \<and>
        header' = hd_salt header @ drop 64 plain @ drop 2048 header)"

lemma restore_header_eq:
  "length hcopy = 2048 \<Longrightarrow> restore_header header hcopy = Some h \<Longrightarrow>
   h = hd_salt header @ drop 64 hcopy @ drop 2048 header"
  by (auto simp: restore_header_def rd_def wr_def hd_salt_def split: if_splits)

lemma with_kdf_sound:
  assumes hs: "host_ok hs"
    and "cp_decrypt_header_with_kdf hs key header hdr_len password kdf w = Some ((found, key', header'), w')"
  shows "(found = None \<longrightarrow> header' = header) \<and>
    (\<forall>r. found = Some r \<longrightarrow> live w' = live w \<and>
      (\<exists>dk w1 w2. dc_derive_key hs password kdf (hd_salt header) w1 = Some (Some dk, w2) \<and>
        search_ok hs dk (p_slot password) hdr_len header r key' header'))"
proof (cases "dc_alloc hs 2048 w")
  case (Pair a w1)
  show ?thesis
  proof (cases a)
    case None
    with assms(2) Pair show ?thesis by (simp add: cp_decrypt_header_with_kdf_def)
  next
    case (Some hcopy)
    have lh: "length hcopy = 2048"
      using hs Pair Some by (auto simp: dc_alloc_def host_ok_def split: prod.split_asm option.split_asm)
    from assms(2) Pair Some obtain r w2 where d: "dc_derive_key hs password kdf (hd_salt header) w1 = Some (r, w2)"
      by (auto simp: cp_decrypt_header_with_kdf_def elim!: bind_SomeE)
    show ?thesis
    proof (cases r)
      case None
      with assms(2) Pair Some d show ?thesis by (simp add: cp_decrypt_header_with_kdf_def)
    next
      case dk: (Some dk)
      let ?s = "p_slot password"
      let ?first = "if ?s \<le> 0 then do {
          (succs, hdr_key, hcopy) \<leftarrow> try_decrypt_header (h_core hs) dk key header hcopy;
          Some (if succs then Some \<lparr>o_dk = dk, o_slot = 0\<rparr> else None, hdr_key, hcopy) }
        else Some (None, key, hcopy)"
      let ?i = "if 0 < ?s then nat (?s - 1) else 0"
      from assms(2) Pair Some d dk obtain f1 k1 h1 f2 k2 h2 h3 where
        first: "?first = Some (f1, k1, h1)"
        and slots: "(if f1 = None then try_slots (h_core hs) dk header hdr_len ?i (nat \<bar>?s\<bar> - ?i) k1 h1
            else Some (f1, k1, h1)) = Some (f2, k2, h2)"
        and rest: "(if f2 \<noteq> None then restore_header header h2 else Some header) = Some h3"
        and res: "found = f2" "key' = k2" "header' = h3" "w' = dc_free hs w2"
        unfolding cp_decrypt_header_with_kdf_def Let_def by (auto elim!: bind_SomeE)
      have live: "live w' = live w"
        using res(4) dc_derive_key_live [OF d] Pair Some
        by (auto simp: dc_free_def dc_alloc_def split: prod.split_asm option.split_asm)
      have f1: "length h1 = 2048 \<and> (\<forall>r. f1 = Some r \<longrightarrow> r = \<lparr>o_dk = dk, o_slot = 0\<rparr> \<and> ?s \<le> 0 \<and>
          opens (h_core hs) dk header k1 h1)"
      proof (cases "?s \<le> 0")
        case True
        with first obtain ok where t: "try_decrypt_header (h_core hs) dk key header hcopy = Some (ok, k1, h1)"
          and "f1 = (if ok then Some \<lparr>o_dk = dk, o_slot = 0\<rparr> else None)"
          by (auto elim!: bind_SomeE)
        with try_decrypt_header_sound [OF t lh] True show ?thesis by auto
      next
        case False
        with first lh show ?thesis by auto
      qed
      have f2: "length h2 = 2048 \<and> (\<forall>r. f2 = Some r \<longrightarrow> slot_admitted ?s (o_slot r) \<and>
          (if o_slot r = 0 then o_dk r = dk
           else int (1024 + 192 * o_slot r) \<le> hdr_len \<and>
             try_decrypt_slot dk header (1024 + 192 * (o_slot r - 1)) 0 = Some (Some (o_dk r))) \<and>
          opens (h_core hs) (o_dk r) header k2 h2)"
      proof (cases f1)
        case None
        with slots have "try_slots (h_core hs) dk header hdr_len ?i (nat \<bar>?s\<bar> - ?i) k1 h1 = Some (f2, k2, h2)"
          by simp
        note t = try_slots_sound [OF this conjunct1 [OF f1]]
        have adm: "slot_admitted ?s n \<and> n \<noteq> 0" if "?i < n" "n \<le> ?i + (nat \<bar>?s\<bar> - ?i)" for n
          using that by (cases "0 < ?s") (simp_all add: slot_admitted_def)
        show ?thesis
        proof (intro conjI allI impI)
          show "length h2 = 2048" using t by (rule conjunct1)
          fix r assume "f2 = Some r"
          note r = t [THEN conjunct2, rule_format, OF this]
          show "slot_admitted ?s (o_slot r)" and "if o_slot r = 0 then o_dk r = dk
              else int (1024 + 192 * o_slot r) \<le> hdr_len \<and>
                try_decrypt_slot dk header (1024 + 192 * (o_slot r - 1)) 0 = Some (Some (o_dk r))"
            and "opens (h_core hs) (o_dk r) header k2 h2"
            using r adm [of "o_slot r"] by simp_all
        qed
      next
        case (Some r)
        with slots have "f2 = f1" "k2 = k1" "h2 = h1" by simp_all
        with Some f1 show ?thesis by (simp add: slot_admitted_def)
      qed
      show ?thesis
      proof (cases f2)
        case None
        with rest res show ?thesis by simp
      next
        case (Some r)
        with rest have "h3 = hd_salt header @ drop 64 h2 @ drop 2048 header"
          using restore_header_eq [of h2 header h3] f2 by simp
        with Some f2 res have "search_ok hs dk ?s hdr_len header r key' header'"
          unfolding search_ok_def by auto
        with live d dk Some res show ?thesis by auto
      qed
    qed
  qed
qed

lemma try_kdfs_sound:
  assumes hs: "host_ok hs"
  shows "try_kdfs hs kdfs key header hdr_len password w = Some ((found, key', header'), w') \<Longrightarrow>
    (found = None \<longrightarrow> header' = header) \<and>
    (\<forall>kdf r. found = Some (kdf, r) \<longrightarrow> kdf \<in> set kdfs \<and> kdf \<noteq> -1 \<and>
      (\<exists>dk w1 w2. dc_derive_key hs password kdf (hd_salt header) w1 = Some (Some dk, w2) \<and>
        search_ok hs dk (p_slot password) hdr_len header r key' header'))"
proof (induction kdfs arbitrary: key w)
  case (Cons kdf kdfs)
  obtain stop w1 where i: "dc_interrupted hs w = (stop, w1)" by force
  show ?case
  proof (cases "kdf = -1 \<or> stop")
    case True
    with Cons.prems i have "((None, key, header), w) = ((found, key', header'), w') \<or>
        ((None, key, header), w1) = ((found, key', header'), w')"
      by (auto split: if_split_asm)
    then show ?thesis by auto
  next
    case False
    with Cons.prems i obtain f1 k1 h1 w2 where
      k: "cp_decrypt_header_with_kdf hs key header hdr_len password kdf w1 = Some ((f1, k1, h1), w2)"
      and rest: "(case f1 of Some r \<Rightarrow> Some ((Some (kdf, r), k1, h1), w2)
        | None \<Rightarrow> try_kdfs hs kdfs k1 h1 hdr_len password w2) = Some ((found, key', header'), w')"
      by (auto elim!: bind_SomeE)
    note snd = with_kdf_sound [OF hs k]
    show ?thesis
    proof (cases f1)
      case None
      with snd have "h1 = header" by simp
      with None rest Cons.IH [of k1 w2] show ?thesis by auto
    next
      case (Some r)
      with rest snd False show ?thesis by auto
    qed
  qed
qed simp

lemma search_sound:
  assumes "host_ok hs"
    and "cp_decrypt_header hs key header hdr_len password w = Some ((found, key', header'), w')"
  shows "case found of
      None \<Rightarrow> header' = header
    | Some (kdf, r) \<Rightarrow> kdf_admitted (p_kdf password) kdf \<and>
        (\<exists>dk w1 w2. dc_derive_key hs password kdf (hd_salt header) w1 = Some (Some dk, w2) \<and>
          search_ok hs dk (p_slot password) hdr_len header r key' header')"
proof -
  consider (all) "p_kdf password = -3" | (default) "p_kdf password = -2" | (bad) "p_kdf password < -3"
    | (one) "-1 \<le> p_kdf password" by linarith
  then show ?thesis
  proof cases
    case all
    with assms(2) have "try_kdfs hs dc_all_kdfs key header hdr_len password w = Some ((found, key', header'), w')"
      by (simp add: cp_decrypt_header_def KDF_ALL_def)
    from try_kdfs_sound [OF assms(1) this] all show ?thesis
      by (auto simp: dc_all_kdfs_def kdf_admitted_def split: option.split)
  next
    case default
    with assms(2) have "try_kdfs hs dc_default_kdfs key header hdr_len password w = Some ((found, key', header'), w')"
      by (simp add: cp_decrypt_header_def KDF_ALL_def KDF_DEFAULT_def)
    from try_kdfs_sound [OF assms(1) this] default show ?thesis
      by (auto simp: dc_default_kdfs_def kdf_admitted_def split: option.split)
  next
    case bad
    with assms(2) show ?thesis by (simp add: cp_decrypt_header_def KDF_ALL_def KDF_DEFAULT_def)
  next
    case one
    obtain stop w1 where i: "dc_interrupted hs w = (stop, w1)" by force
    show ?thesis
    proof (cases stop)
      case True
      with assms(2) one i show ?thesis by (simp add: cp_decrypt_header_def)
    next
      case False
      with assms(2) one i obtain f1 w2 where
        k: "cp_decrypt_header_with_kdf hs key header hdr_len password (p_kdf password) w1 = Some ((f1, key', header'), w2)"
        and "found = map_option (\<lambda>r. (p_kdf password, r)) f1"
        by (auto simp: cp_decrypt_header_def Let_def elim!: bind_SomeE)
      with with_kdf_sound [OF assms(1) k] one show ?thesis
        by (auto simp: kdf_admitted_def split: option.split)
    qed
  qed
qed


definition raw_pass :: dc_pass where
  "raw_pass = \<lparr>p_size = 256, p_pass = replicate 256 0, p_kdf = -1, p_slot = 0\<rparr>"

definition plain_header :: buf where "plain_header = make_header (replicate 1974 0)"

lemma plain_header_facts:
  "length plain_header = 2048" "is_volume_header_correct plain_header = Some True"
  using make_header_correct [of "replicate 1974 0"] by (simp_all add: plain_header_def)

lemma host_ex_opens_header:
  assumes l: "length h = 2048" "is_volume_header_correct h = Some True"
  shows "\<exists>k' w'. cp_decrypt_header host_ex key_mem h 2048 raw_pass w =
    Some ((Some (-1, \<lparr>o_dk = replicate 192 0, o_slot = 0\<rparr>), k', h), w')"
proof -
  obtain k' where k: "xts_set_key (replicate 192 0) 0 key_mem = Some (1, k')" "xk_decrypt k' = XTS_AES_DEC"
    using xts_set_key_aes [of "replicate 192 0" key_mem] by auto
  have "xts_call id_core XTS_AES_DEC h 2048 0 k' = Some h"
    using l by (intro xts_call_id) (simp_all add: xts_len_ok_def)
  then have t: "try_decrypt_header id_core (replicate 192 0) key_mem h (replicate 2048 0) = Some (True, k', h)"
    using k l by (simp add: try_decrypt_header_def upto_rec1 xts_decrypt_def rd_def wr_def)
  have r: "restore_header h h = Some h"
    using l(1) by (simp add: restore_header_def rd_def wr_def)
  show ?thesis
    by (simp add: cp_decrypt_header_def raw_pass_def dc_interrupted_def cp_decrypt_header_with_kdf_def dc_alloc_def
        dc_derive_key_def KDF_NONE_def rd_def host_ex_def t r Let_def)
qed

lemmas host_ex_opens = host_ex_opens_header [OF plain_header_facts, of world_ex]


text \<open>
  C18: the memory of the search. \<^verbatim>\<open>cp_decrypt_header_with_kdf\<close> releases the scratch header it
  allocates on every path but one: when the key derivation fails it returns without releasing it,
  and one secure allocation more is live after the call than before.
\<close>

theorem cp_decrypt_header_with_kdf_live:
  assumes "cp_decrypt_header_with_kdf hs key header hdr_len password kdf w = Some (r, w')"
  shows "live w' = live w +
    (if \<exists>b w1 w2. dc_alloc hs 2048 w = (Some b, w1) \<and>
          dc_derive_key hs password kdf (hd_salt header) w1 = Some (None, w2) then 1 else 0)"
proof (cases "dc_alloc hs 2048 w")
  case (Pair a w1)
  show ?thesis
  proof (cases a)
    case None
    with assms Pair show ?thesis
      by (auto simp: cp_decrypt_header_with_kdf_def dc_alloc_def split: prod.split_asm option.split_asm)
  next
    case (Some b)
    then have l1: "live w1 = live w + 1"
      using Pair by (auto simp: dc_alloc_def split: prod.split_asm option.split_asm)
    from assms Pair Some obtain d w2 where d: "dc_derive_key hs password kdf (hd_salt header) w1 = Some (d, w2)"
      by (auto simp: cp_decrypt_header_with_kdf_def elim!: bind_SomeE)
    note l2 = dc_derive_key_live [OF d]
    show ?thesis
    proof (cases d)
      case None
      with assms Pair Some d l1 l2 show ?thesis by (auto simp: cp_decrypt_header_with_kdf_def)
    next
      case (Some dk)
      with assms Pair \<open>a = Some b\<close> d have "w' = dc_free hs w2"
        by (auto simp: cp_decrypt_header_with_kdf_def Let_def elim!: bind_SomeE)
      with l1 l2 Pair \<open>a = Some b\<close> Some d show ?thesis by (auto simp: dc_free_def)
    qed
  qed
qed

theorem cp_decrypt_header_with_kdf_live_witness:
  "\<exists>r w'. cp_decrypt_header_with_kdf host_ex key_mem plain_header 2048 raw_pass 11 world_ex = Some (r, w') \<and>
    live w' = live world_ex + 1"
proof -
  have d: "dc_derive_key host_ex raw_pass 11 s w = Some (None, w)" for s w
    by (simp add: dc_derive_key_def argon2_mk_params_eq KDF_NONE_def KDF_LEGACY_ARGON_BASE_def)
  have a: "\<exists>b w1. dc_alloc host_ex 2048 world_ex = (Some b, w1)"
    by (simp add: dc_alloc_def host_ex_def)
  then obtain r w' where c: "cp_decrypt_header_with_kdf host_ex key_mem plain_header 2048 raw_pass 11 world_ex = Some (r, w')"
    by (auto simp: cp_decrypt_header_with_kdf_def d)
  from cp_decrypt_header_with_kdf_live [OF c] a d have "live w' = live world_ex + 1" by auto
  with c show ?thesis by blast
qed

text \<open>
  C15: key derivation, function by function. For a password in its buffer and a 64-byte salt,
  \<^verbatim>\<open>dc_derive_key\<close> reads and writes inside its buffers and yields 192 bytes: the raw key for
  \<open>KDF_NONE\<close> (a 256-byte password only), PBKDF2-HMAC-SHA-512 with 1000 iterations for 0, Argon2id
  with the parameters of each cost level for 1 to 10 (256 bytes derived, 192 kept), the parameters
  of the former encoding for 1001 to 1100, and nothing for any other number.
\<close>

theorem dc_derive_key_correct:
  assumes "host_ok hs" and "pass_ok password" and "length salt = 64"
  shows "dc_derive_key hs password kdf salt w =
    (case kdf_spec hs kdf (take (nat (p_size password)) (p_pass password)) salt (env w) of
       (r, e) \<Rightarrow> Some (r, w\<lparr>env := e\<rparr>)) \<and>
    (\<forall>dk w'. dc_derive_key hs password kdf salt w = Some (Some dk, w') \<longrightarrow> length dk = 192 \<and> live w' = live w)"
  using dc_derive_key_eq [OF assms] dc_derive_key_length [OF assms] dc_derive_key_live by blast

theorem dc_derive_key_correct_witness:
  "dc_derive_key host_ex raw_pass 5 (replicate 64 1) world_ex = Some (Some (replicate 192 7), world_ex)"
  using dc_derive_key_correct [OF host_ex_ok, of raw_pass "replicate 64 1" 5 world_ex]
  by (simp add: raw_pass_def pass_ok_def kdf_spec_def host_ex_def world_ex_def Let_def)

text \<open>
  \<^verbatim>\<open>cp_get_min_header_len\<close> asks for enough of the header: between 2048 and 23424 bytes, and so
  many that the search for a password that admits a slot up to 100 reaches that slot.
\<close>

theorem cp_get_min_header_len_reach:
  shows "2048 \<le> cp_get_min_header_len password \<and> cp_get_min_header_len password \<le> 23424 \<and>
    (\<forall>n. slot_admitted (p_slot password) n \<and> n \<le> 100 \<longrightarrow> int (1024 + 192 * n) \<le> cp_get_min_header_len password)"
  by (auto simp: cp_get_min_header_len_def cp_get_key_slot_size_def slot_admitted_def Let_def split: if_split_asm)

theorem cp_get_min_header_len_reach_witness:
  "slot_admitted (-7) 7 \<and> int (1024 + 192 * 7) \<le> cp_get_min_header_len (raw_pass\<lparr>p_slot := -7\<rparr>)"
  using cp_get_min_header_len_reach [of "raw_pass\<lparr>p_slot := -7\<rparr>"]
  by (auto simp: slot_admitted_def raw_pass_def)

end
