(* ===== verification/Header_Io.thy ===== *)
theory Header_Io
  imports Crypto_Head
begin

unbundle bit_operations_syntax

text \<open>
  \<^verbatim>\<open>volume_lib/header_io.c\<close>: reading a header from a device, the rest of it once its length is
  known, writing it back whole or in part, and locating the extended header. A header in memory is
  the whole buffer that was allocated for it. The cleanup code behind \<^verbatim>\<open>do \<dots> while (0)\<close> and \<^verbatim>\<open>goto\<close>
  is a function of what is allocated when it is reached.
\<close>

section \<open>Reading\<close>

text \<open>The part of a buffer a signed length covers, and the conversions of a C \<^verbatim>\<open>int\<close>.\<close>

definition u32_of_int :: "int \<Rightarrow> u32" where "u32_of_int = word_of_int"
definition u64_of_int :: "int \<Rightarrow> u64" where "u64_of_int = word_of_int"

text \<open>
  What is allocated inside \<^verbatim>\<open>io_read_header_full\<close>: the header, the raw buffer and the buffer it
  replaces, with the status and the length that has been read.
\<close>

record full_state =
  fs_resl :: dc_status
  fs_header :: "buf option"
  fs_buff :: "buf option"
  fs_buff2 :: "buf option"
  fs_len :: int

definition full_cleanup :: "'w host \<Rightarrow> full_state \<Rightarrow> 'w world \<Rightarrow> (dc_status \<times> buf option) \<times> 'w world" where
  "full_cleanup hs s w =
     (let w = (if fs_resl s \<noteq> ST_OK then dc_free_opt hs (fs_header s \<noteq> None) w else w);
          header = (if fs_resl s \<noteq> ST_OK then None else fs_header s);
          w = dc_free_opt hs (fs_buff s \<noteq> None) w;
          w = dc_free_opt hs (fs_buff2 s \<noteq> None) w
      in ((fs_resl s, header), w))"

text \<open>The header is longer than what was read: both buffers are allocated again and the rest is read.\<close>

definition read_rest ::
  "'w host \<Rightarrow> dc_dev \<Rightarrow> 'w dc_rw \<Rightarrow> u64 \<Rightarrow> buf \<Rightarrow> buf \<Rightarrow> int \<Rightarrow> 'w world \<Rightarrow> (full_state \<times> 'w world) option" where
  "read_rest hs dev rw pos header buff hdr_len w = do {
     let buff2 = buff;
     buff_len \<leftarrow> ROUND_TO_FULL_SECTORS (u32_of_int (max (sint (hd_head_len header)) 4096)) (dev_bps dev);
     (case dc_alloc hs (size_of_int (sint buff_len)) w of
        (None, w) \<Rightarrow> Some (\<lparr>fs_resl = ST_NOMEM, fs_header = Some header, fs_buff = None, fs_buff2 = Some buff2, fs_len = hdr_len\<rparr>, w)
      | (Some buff, w) \<Rightarrow> do {
          raw \<leftarrow> rdi buff2 0 hdr_len;
          buff \<leftarrow> wr buff 0 raw;
          plain \<leftarrow> rdi header 0 hdr_len;
          buff2 \<leftarrow> wr buff2 0 plain;
          let w = dc_free hs w;
          buff_len \<leftarrow> ROUND_TO_FULL_SECTORS (hd_head_len buff2) (dev_bps dev);
          (case dc_alloc hs (size_of_int (sint buff_len)) w of
             (None, w) \<Rightarrow> Some (\<lparr>fs_resl = ST_NOMEM, fs_header = None, fs_buff = Some buff, fs_buff2 = Some buff2, fs_len = hdr_len\<rparr>, w)
           | (Some header, w) \<Rightarrow> do {
               plain \<leftarrow> rdi buff2 0 hdr_len;
               header \<leftarrow> wr header 0 plain;
               let w = dc_free hs w;
               ((resl, buff), w) \<leftarrow> dev_read rw buff (nat hdr_len)
                 (u32_of_int (sint (hd_head_len header) - hdr_len)) (pos + u64_of_int hdr_len) w;
               Some (\<lparr>fs_resl = resl, fs_header = Some header, fs_buff = Some buff, fs_buff2 = None,
                      fs_len = (if resl = ST_OK then sint (hd_head_len header) else hdr_len)\<rparr>, w) }) }) }"

text \<open>Decrypting what lies behind the area, and the key slots over it.\<close>

definition open_tail :: "aes_core \<Rightarrow> xts_key \<Rightarrow> buf \<Rightarrow> buf \<Rightarrow> int \<Rightarrow> buf option" where
  "open_tail core hdr_key buff header hdr_len = do {
     header \<leftarrow>
       (if 2048 < hdr_len then do {
          tail \<leftarrow> xts_decrypt core (drop DC_AREA_SIZE buff) (u64_of_int (hdr_len - 2048)) 2048 hdr_key;
          wr header DC_AREA_SIZE tail }
        else Some header);
     (if has_slots_flag header then do {
        (_, header) \<leftarrow> cp_copy_keylots True header buff header;
        Some header }
      else Some header) }"

definition io_read_header_full ::
  "'w host \<Rightarrow> dc_dev \<Rightarrow> 'w dc_rw \<Rightarrow> u64 \<Rightarrow> buf \<Rightarrow> xts_key \<Rightarrow> int \<Rightarrow> 'w world \<Rightarrow>
   ((dc_status \<times> buf option) \<times> 'w world) option" where
  "io_read_header_full hs dev rw pos header hdr_key hdr_len w = do {
     buff_len \<leftarrow> ROUND_TO_FULL_SECTORS (u32_of_int (max hdr_len 4096)) (dev_bps dev);
     if hd_version header < DC_HDR_VERSION_2 then Some ((ST_OK, Some header), w)
     else
       (case dc_alloc hs (size_of_int (sint buff_len)) w of
          (None, w) \<Rightarrow>
            Some (full_cleanup hs \<lparr>fs_resl = ST_NOMEM, fs_header = Some header, fs_buff = None, fs_buff2 = None, fs_len = hdr_len\<rparr> w)
        | (Some buff, w) \<Rightarrow> do {
            ((resl, buff), w) \<leftarrow> dev_read rw buff 0 (u32_of_int hdr_len) pos w;
            if resl \<noteq> ST_OK then
              Some (full_cleanup hs \<lparr>fs_resl = resl, fs_header = Some header, fs_buff = Some buff, fs_buff2 = None, fs_len = hdr_len\<rparr> w)
            else do {
              (s, w) \<leftarrow>
                (if hdr_len < sint (hd_head_len header)
                 then read_rest hs dev rw pos header buff hdr_len w
                 else Some (\<lparr>fs_resl = ST_OK, fs_header = Some header, fs_buff = Some buff, fs_buff2 = None, fs_len = hdr_len\<rparr>, w));
              if fs_resl s \<noteq> ST_OK then Some (full_cleanup hs s w)
              else do {
                header \<leftarrow> fs_header s;
                buff \<leftarrow> fs_buff s;
                header \<leftarrow> open_tail (h_core hs) hdr_key buff header (fs_len s);
                Some (full_cleanup hs (s\<lparr>fs_header := Some header\<rparr>) w) } } }) }"

text \<open>The result: status, header, key (kept for the caller), the function and slot that matched.\<close>

definition io_read_header ::
  "'w host \<Rightarrow> dc_dev \<Rightarrow> 'w dc_rw \<Rightarrow> u64 \<Rightarrow> bool \<Rightarrow> dc_pass \<Rightarrow> 'w world \<Rightarrow>
   ((dc_status \<times> buf option \<times> xts_key option \<times> int option) \<times> 'w world) option" where
  "io_read_header hs dev rw pos want_key password w = do {
     len \<leftarrow> ROUND_TO_FULL_SECTORS
       (u32_of_int (max (sint (dev_head_len dev)) (cp_get_min_header_len password))) (dev_bps dev);
     let hdr_len = sint len;
     (case dc_alloc hs (size_of_int hdr_len) w of
        (None, w) \<Rightarrow> Some ((ST_NOMEM, None, None, None), w)
      | (Some header, w) \<Rightarrow> do {
          ((resl, header), w) \<leftarrow> dev_read rw header 0 (u32_of_int hdr_len) pos w;
          if resl \<noteq> ST_OK then Some ((resl, None, None, None), dc_free hs w)
          else
            (case dc_alloc hs (h_key_size hs) w of
               (None, w) \<Rightarrow> Some ((ST_NOMEM, None, None, None), dc_free hs w)
             | (Some _, w) \<Rightarrow> do {
                 ((found, hdr_key, header), w) \<leftarrow> cp_decrypt_header hs (h_key_mem hs) header hdr_len password w;
                 (case found of
                    None \<Rightarrow> Some ((ST_PASS_ERR, None, None, None), dc_free hs (dc_free hs w))
                  | Some (kdf, _) \<Rightarrow> do {
                      ((resl, full), w) \<leftarrow> io_read_header_full hs dev rw pos header hdr_key hdr_len w;
                      if resl \<noteq> ST_OK then
                        Some ((resl, None, None, Some kdf), dc_free hs (dc_free_opt hs (full \<noteq> None) w))
                      else Some ((ST_OK, full, (if want_key then Some hdr_key else None), Some kdf),
                                 dc_free_opt hs (\<not> want_key) w) }) }) }) }"

section \<open>Writing\<close>

definition HF_UPDATE_BASE :: u32 where "HF_UPDATE_BASE = 0x0001"
definition HF_UPDATE_SLOTS :: u32 where "HF_UPDATE_SLOTS = 0x0002"
definition HF_UPDATE_EXT :: u32 where "HF_UPDATE_EXT = 0x0004"
definition HF_CLEAR_SLOTS :: u32 where "HF_CLEAR_SLOTS = 0x0010"
definition HF_HEADER_FILL :: u32 where "HF_HEADER_FILL = 0x0020"
definition HF_UPDATE_ALL :: u32 where "HF_UPDATE_ALL = HF_UPDATE_BASE OR HF_UPDATE_SLOTS OR HF_UPDATE_EXT"
definition MIN_EXT_HDR_SIZE :: nat where "MIN_EXT_HDR_SIZE = 10"

definition flag :: "u32 \<Rightarrow> u32 \<Rightarrow> bool" where "flag flags f \<longleftrightarrow> flags AND f \<noteq> 0"

text \<open>The slot area and the descriptors.\<close>

definition slots_len :: "buf \<Rightarrow> nat" where
  "slots_len h = hd_slot_area_len h + hd_key_slot_count h * hd_slot_info_size h"

text \<open>What a partial update writes: an early return, or the offset and the length.\<close>

datatype write_range = WR_return dc_status | WR_range u64 u32

definition update_ext_flags :: "buf \<Rightarrow> u32 \<Rightarrow> u32 \<Rightarrow> dc_status + u32" where
  "update_ext_flags header flags len =
     (if flag flags HF_UPDATE_EXT then
        if hd_ext_hdr_off header = 0 then Inr (flags AND NOT HF_UPDATE_EXT)
        else if hd_head_len header \<le> of_nat (hd_ext_hdr_off header) + of_nat MIN_EXT_HDR_SIZE \<or>
                of_nat (hd_ext_hdr_off header) < len
        then Inl ST_INV_VOLUME
        else Inr flags
      else Inr flags)"

definition update_slot_flags :: "buf \<Rightarrow> u32 \<Rightarrow> u32 \<Rightarrow> dc_status + u32" where
  "update_slot_flags header flags len =
     (if flag flags HF_UPDATE_SLOTS then
        if \<not> has_slots_flag header then Inr (flags AND NOT HF_UPDATE_SLOTS)
        else if hd_head_len header \<le> len then Inl ST_INV_VOLUME
        else Inr flags
      else Inr flags)"

definition partial_range :: "buf \<Rightarrow> u32 \<Rightarrow> u32 \<Rightarrow> (write_range \<times> u32) option" where
  "partial_range header bps flags =
     (let len = (if has_slots_flag header then 1024 + of_nat (slots_len header) else 1024) in
      case update_ext_flags header flags len of
        Inl e \<Rightarrow> Some (WR_return e, flags)
      | Inr flags \<Rightarrow>
      (case update_slot_flags header flags len of
        Inl e \<Rightarrow> Some (WR_return e, flags)
      | Inr flags \<Rightarrow>
          if \<not> flag flags HF_UPDATE_ALL then Some (WR_return ST_OK, flags)
          else if bps = 0 then None
          else do {
            let offset = ((if flag flags HF_UPDATE_BASE then 0
                          else if flag flags HF_UPDATE_SLOTS then 1024
                          else of_nat (hd_ext_hdr_off header)) :: u64);
            let offset = offset div ucast bps * ucast bps;
            let len = (if flag flags HF_UPDATE_EXT then hd_head_len header
                          else if flag flags HF_UPDATE_SLOTS then 1024 + of_nat (slots_len header)
                          else 1024);
            rounded \<leftarrow> ROUND_TO_FULL_SECTORS (ucast len - offset) (ucast bps);
            let len = (ucast rounded :: u32);
            if ucast (hd_head_len header) < offset + ucast len then Some (WR_return ST_INV_VOLUME, flags)
            else Some (WR_range offset len, flags) }))"

text \<open>Random bytes over the slot area, zeros over the descriptors.\<close>

definition clear_slots :: "'w host \<Rightarrow> buf \<Rightarrow> nat \<Rightarrow> nat \<Rightarrow> 'w world \<Rightarrow> (buf \<times> 'w world) option" where
  "clear_slots hs h area_len info_len w = do {
     (h, w) \<leftarrow> dc_rand_at hs h DC_BASE_SIZE area_len w;
     h \<leftarrow> wr h (DC_BASE_SIZE + area_len) (replicate info_len 0);
     Some (h, w) }"

text \<open>
  The decisions: what to write, how long the header is in memory, the flags that are left, and the
  header itself, whose slots may have been cleared.
\<close>

record write_plan =
  wp_offset :: u64
  wp_length :: u32
  wp_hdr_len :: int
  wp_mem_len :: int
  wp_flags :: u32
  wp_header :: buf

definition write_decide ::
  "'w host \<Rightarrow> u32 \<Rightarrow> buf \<Rightarrow> bool \<Rightarrow> u32 \<Rightarrow> 'w world \<Rightarrow> ((dc_status + write_plan) \<times> 'w world) option" where
  "write_decide hs bps header has_key flags w = do {
     area \<leftarrow> ROUND_TO_FULL_SECTORS 2048 bps;
     if hd_version header < DC_HDR_VERSION_2 then
       Some (Inr \<lparr>wp_offset = 0, wp_length = area, wp_hdr_len = sint area, wp_mem_len = 2048,
                  wp_flags = flags, wp_header = header\<rparr>, w)
     else do {
       hdr_len \<leftarrow> ROUND_TO_FULL_SECTORS (hd_head_len header) bps;
       let mem_len = sint (hd_head_len header);
       (range, flags) \<leftarrow>
         (if flag flags HF_UPDATE_ALL \<and> flags AND HF_UPDATE_ALL \<noteq> HF_UPDATE_ALL then
            if \<not> has_key then Some (WR_return ST_ERROR, flags)
            else partial_range header bps flags
          else Some (WR_range 0 hdr_len, flags));
       (case range of
          WR_return e \<Rightarrow> Some (Inl e, w)
        | WR_range offset len \<Rightarrow> do {
            (header, w) \<leftarrow>
              (if flag flags HF_CLEAR_SLOTS \<and> has_slots_flag header
               then clear_slots hs header (hd_slot_area_len header)
                      (hd_key_slot_count header * hd_slot_info_size header) w
               else Some (header, w));
            Some (Inr \<lparr>wp_offset = offset, wp_length = len, wp_hdr_len = sint hdr_len, wp_mem_len = mem_len,
                       wp_flags = flags, wp_header = header\<rparr>, w) }) } }"

text \<open>
  The key and the salt: the caller's key with the header's salt, or a fresh salt and the key the
  password derives from it. The last component says whether a key was allocated here.
\<close>

definition write_key ::
  "'w host \<Rightarrow> xts_key option \<Rightarrow> dc_pass option \<Rightarrow> buf \<Rightarrow> buf \<Rightarrow> 'w world \<Rightarrow>
   ((dc_status \<times> xts_key \<times> u8 list \<times> buf \<times> bool) \<times> 'w world) option" where
  "write_key hs hdr_key password header hcopy w =
     (case hdr_key of
        Some k \<Rightarrow> Some ((ST_OK, k, hd_salt header, hcopy, False), w)
      | None \<Rightarrow>
          (case dc_alloc hs (h_key_size hs) w of
             (None, w) \<Rightarrow> Some ((ST_NOMEM, h_key_mem hs, [], hcopy, False), w)
           | (Some _, w) \<Rightarrow> do {
               seed \<leftarrow> rd header 0 DC_AREA_SIZE;
               let w = dc_rand_seed hs seed w;
               (case dc_rand hs HEADER_SALT_SIZE w of (salt, w) \<Rightarrow> do {
                  hcopy \<leftarrow> wr hcopy 0 salt;
                  pw \<leftarrow> password;
                  ((set, k), w) \<leftarrow> cp_set_header_key hs (h_key_mem hs) salt (hd_alg_1 header) pw w;
                  Some ((if set then ST_OK else ST_INVALID_PARAM, k, salt, hcopy, True), w) }) }))"

text \<open>Encrypting the copy, putting back salt and slots, filling the gap.\<close>

definition write_seal ::
  "'w host \<Rightarrow> write_plan \<Rightarrow> xts_key \<Rightarrow> u8 list \<Rightarrow> buf \<Rightarrow> 'w world \<Rightarrow> (buf \<times> 'w world) option" where
  "write_seal hs p key salt hcopy w = do {
     let header = wp_header p;
     let mem_len = nat (wp_mem_len p);
     sealed \<leftarrow> xts_encrypt (h_core hs) (take mem_len hcopy) (u64_of_int (wp_mem_len p)) 0 key;
     hcopy \<leftarrow> wr hcopy 0 sealed;
     hcopy \<leftarrow> wr hcopy 0 salt;
     hcopy \<leftarrow>
       (if DC_HDR_VERSION_2 \<le> hd_version header \<and> \<not> flag (wp_flags p) HF_CLEAR_SLOTS \<and> has_slots_flag header \<and>
           1024 < wp_offset p + ucast (wp_length p) \<and>
           wp_offset p < of_nat (1024 + hd_slot_area_len header)
        then map_option snd (cp_copy_keylots False header header hcopy)
        else Some hcopy);
     if u64_of_int (wp_mem_len p) < wp_offset p + ucast (wp_length p)
     then dc_rand_at hs hcopy mem_len 
       (size_of_int (sint (ucast (wp_offset p + ucast (wp_length p)) :: u32) - wp_mem_len p)) w
     else Some (hcopy, w) }"

text \<open>The result carries the header as well: clearing slots changes it.\<close>

definition io_write_header ::
  "'w host \<Rightarrow> dc_dev \<Rightarrow> 'w dc_rw \<Rightarrow> u64 \<Rightarrow> buf \<Rightarrow> xts_key option \<Rightarrow> dc_pass option \<Rightarrow> u32 \<Rightarrow> 'w world \<Rightarrow>
   ((dc_status \<times> buf) \<times> 'w world) option" where
  "io_write_header hs dev rw pos header hdr_key password flags w = do {
     area \<leftarrow> ROUND_TO_FULL_SECTORS (2048 :: u32) (dev_bps dev);
     if (case hdr_key of None \<Rightarrow> False | Some k \<Rightarrow> xk_encrypt k = XTS_NONE) then Some ((ST_ERROR, header), w)
     else if (case password of None \<Rightarrow> False | Some p \<Rightarrow> p_size p = 0) then Some ((ST_ERROR, header), w)
     else do {
       (plan, w) \<leftarrow> write_decide hs (dev_bps dev) header (hdr_key \<noteq> None) flags w;
       (case plan of
          Inl e \<Rightarrow> Some ((e, header), w)
        | Inr p \<Rightarrow>
            let header = wp_header p in
            if wp_mem_len p mod 512 \<noteq> 0 then Some ((ST_INV_DATA_SIZE, header), w)
            else
              (case dc_alloc hs (size_of_int (max (wp_hdr_len p) 4096)) w of
                 (None, w) \<Rightarrow> Some ((ST_NOMEM, header), w)
               | (Some hcopy, w) \<Rightarrow> do {
                   bytes \<leftarrow> rdi header 0 (wp_mem_len p);
                   hcopy \<leftarrow> wr hcopy 0 bytes;
                   ok \<leftarrow> is_volume_header_correct hcopy;
                   if \<not> ok then Some ((ST_INV_VOLUME, header), dc_free hs w)
                   else do {
                     ((resl, key, salt, hcopy, own), w) \<leftarrow> write_key hs hdr_key password header hcopy w;
                     if resl \<noteq> ST_OK then Some ((resl, header), dc_free hs (dc_free_opt hs own w))
                     else do {
                       (hcopy, w) \<leftarrow> write_seal hs p key salt hcopy w;
                       (resl, w) \<leftarrow> dev_write rw hcopy (unat (wp_offset p)) (wp_length p) (wp_offset p + pos) w;
                       Some ((resl, header), dc_free hs (dc_free_opt hs own w)) } } })) } }"

section \<open>The extended header\<close>

text \<open>
  The offset of the extended header, or a status. The sum of offset and size is taken in 32 bits,
  as the code does.
\<close>

definition get_ext_header :: "buf \<Rightarrow> (dc_status + nat) option" where
  "get_ext_header header =
     (let off = hd_ext_hdr_off header in
      if hd_version header < DC_HDR_VERSION_2 then Some (Inl ST_INCOMPATIBLE)
      else if off = 0 then Some (Inl ST_INCOMPATIBLE)
      else if off < DC_BASE_SIZE + (if has_slots_flag header then slots_len header else 0)
      then Some (Inl ST_INV_VOLUME)
      else if hd_head_len header < of_nat off + of_nat MIN_EXT_HDR_SIZE then Some (Inl ST_INV_VOLUME)
      else do {
        sz \<leftarrow> rd_u32 header (off + 4);
        if hd_head_len header < of_nat off + sz \<or> sz < of_nat MIN_EXT_HDR_SIZE then Some (Inl ST_INV_VOLUME)
        else do {
          crc \<leftarrow> rd_u32 header off;
          data \<leftarrow> rd header (off + 4) (unat (sz - 4));
          if crc \<noteq> crc32 data then Some (Inl ST_INV_VOLUME)
          else Some (Inr off) } })"

end
