(* ===== verification/Head_Util.thy ===== *)
theory Head_Util
  imports Header_Io
begin

unbundle bit_operations_syntax

text \<open>
  \<^verbatim>\<open>volume_lib/head_util.c\<close>: sealing and unsealing a header in memory, access to single key slots,
  the checksum of the extended header and the search order of the key-derivation functions.
\<close>

section \<open>Sealing and unsealing\<close>

definition cp_encrypt_header ::
  "aes_core \<Rightarrow> buf option \<Rightarrow> int \<Rightarrow> xts_key option \<Rightarrow> buf option \<Rightarrow> (dc_status \<times> buf option) option" where
  "cp_encrypt_header core header len hdr_key out =
     (case (header, out) of
        (Some header, Some out) \<Rightarrow>
          if len < 2048 then Some (ST_INVALID_PARAM, Some out)
          else
            (case hdr_key of
               None \<Rightarrow> Some (ST_ERROR, Some out)
             | Some k \<Rightarrow>
                 if xk_encrypt k = XTS_NONE then Some (ST_ERROR, Some out)
                 else if len mod 512 \<noteq> 0 then Some (ST_INV_DATA_SIZE, Some out)
                 else do {
                   salt \<leftarrow> rd header 0 HEADER_SALT_SIZE;
                   bytes \<leftarrow> rdi header 0 len;
                   out \<leftarrow> wr out 0 bytes;
                   sealed \<leftarrow> xts_encrypt core (take (nat len) out) (u64_of_int len) 0 k;
                   out \<leftarrow> wr out 0 sealed;
                   out \<leftarrow> wr out 0 salt;
                   out \<leftarrow>
                     (if DC_HDR_VERSION_2 \<le> hd_version header \<and> has_slots_flag header
                      then map_option snd (cp_copy_keylots False header header out)
                      else Some out);
                   Some (ST_OK, Some out) })
      | _ \<Rightarrow> Some (ST_INVALID_PARAM, out))"

text \<open>
  \<open>alias\<close> says that \<open>out\<close> and \<open>blob\<close> are the same memory: then what is read from \<open>blob\<close> after a
  write to \<open>out\<close> is what was written.
\<close>

definition cp_decrypt_header_with_key ::
  "bool \<Rightarrow> aes_core \<Rightarrow> buf \<Rightarrow> int \<Rightarrow> xts_key option \<Rightarrow> buf \<Rightarrow> (bool \<times> buf) option" where
  "cp_decrypt_header_with_key alias core blob len hdr_key out =
     (if len < 2048 then Some (False, out)
      else
        (case hdr_key of
           None \<Rightarrow> Some (False, out)
         | Some k \<Rightarrow>
             if xk_decrypt k = XTS_NONE then Some (False, out)
             else if len mod 512 \<noteq> 0 then Some (False, out)
             else do {
               area \<leftarrow> rd blob 0 DC_AREA_SIZE;
               plain \<leftarrow> xts_decrypt core area 2048 0 k;
               out \<leftarrow> wr out 0 plain;
               salt \<leftarrow> rd (if alias then out else blob) 0 HEADER_SALT_SIZE;
               out \<leftarrow> wr out 0 salt;
               ok \<leftarrow> is_volume_header_correct out;
               if \<not> ok then Some (False, out)
               else do {
                 out \<leftarrow>
                   (if 2048 < len then do {
                      enc \<leftarrow> rdi (if alias then out else blob) DC_AREA_SIZE (len - 2048);
                      tail \<leftarrow> xts_decrypt core enc (u64_of_int (len - 2048)) 2048 k;
                      wr out DC_AREA_SIZE tail }
                    else Some out);
                 out \<leftarrow>
                   (if has_slots_flag out
                    then map_option snd (cp_copy_keylots True out (if alias then out else blob) out)
                    else Some out);
                 Some (True, out) } }))"

section \<open>Single slots\<close>

definition cp_has_key_slots :: "buf \<Rightarrow> bool" where
  "cp_has_key_slots h \<longleftrightarrow>
     \<not> hd_version h < DC_HDR_VERSION_2 \<and> has_slots_flag h \<and> hd_slot_area_len h \<noteq> 0 \<and>
     hd_key_slot_count h \<noteq> 0 \<and> hd_slot_info_size h \<noteq> 0"

definition slot_size :: "buf \<Rightarrow> nat" where
  "slot_size h = hd_slot_area_len h div hd_key_slot_count h"

text \<open>The checksum of a slot: the descriptor behind its own field, combined with the key material.\<close>

definition slot_crc :: "buf \<Rightarrow> nat \<Rightarrow> nat \<Rightarrow> nat \<Rightarrow> nat \<Rightarrow> u32 option" where
  "slot_crc h info_off info_size key_off sz = do {
     info \<leftarrow> rdi h (info_off + 4) (int info_size - 4);
     key \<leftarrow> rd h key_off sz;
     crc32_combine (crc32 info) (crc32 key) (of_nat sz) }"

definition cp_get_slot_info :: "buf \<Rightarrow> int \<Rightarrow> buf \<Rightarrow> (dc_status \<times> buf) option" where
  "cp_get_slot_info h slot_idx info =
     (if \<not> cp_has_key_slots h then Some (ST_INCOMPATIBLE, info)
      else if slot_idx < 0 \<or> int (hd_key_slot_count h) \<le> slot_idx then Some (ST_BAD_INDEX, info)
      else
        (let i = nat slot_idx; off = slot_info_off h i in do {
           src \<leftarrow> rd h off (min 32 (hd_slot_info_size h));
           let info = src @ replicate (32 - hd_slot_info_size h) 0;
           flags \<leftarrow> si_flags info 0;
           if flags AND SF_ACTIVE = 0 then Some (ST_OK, info)
           else do {
             c \<leftarrow> slot_crc h off (hd_slot_info_size h) (DC_BASE_SIZE + i * slot_size h) (slot_size h);
             crc \<leftarrow> si_crc h off;
             info \<leftarrow> (if crc \<noteq> c then set_si_flags info 0 (flags OR SF_CORRUPT) else Some info);
             Some (ST_OK, info) } }))"

definition cp_get_slot_payload :: "buf \<Rightarrow> int \<Rightarrow> buf option \<Rightarrow> int \<Rightarrow> (dc_status \<times> buf option) option" where
  "cp_get_slot_payload h slot_idx payload len =
     (if \<not> cp_has_key_slots h then Some (ST_INCOMPATIBLE, payload)
      else if slot_idx < 0 \<or> int (hd_key_slot_count h) \<le> slot_idx then Some (ST_BAD_INDEX, payload)
      else if payload \<noteq> None \<and> int (slot_size h) < len then Some (ST_SMALL_BUFF, payload)
      else do {
        key \<leftarrow> rdi h (DC_BASE_SIZE + nat slot_idx * slot_size h) (min len (int (slot_size h)));
        p \<leftarrow> payload;
        p \<leftarrow> wr p 0 key;
        Some (ST_OK, Some p) })"

text \<open>The sentinels a caller may pass for the descriptor and the key material.\<close>

datatype info_arg = INFO_NULL | CP_SLOT_CLEAR | INFO buf
datatype payload_arg = PAYLOAD_NULL | CP_SLOT_RANDOM | PAYLOAD buf

definition set_slot_info :: "buf \<Rightarrow> nat \<Rightarrow> info_arg \<Rightarrow> buf option" where
  "set_slot_info h off info =
     (case info of
        INFO_NULL \<Rightarrow> Some h
      | CP_SLOT_CLEAR \<Rightarrow> wr h off (replicate (hd_slot_info_size h) 0)
      | INFO b \<Rightarrow> do {
          src \<leftarrow> rd b 0 (min 32 (hd_slot_info_size h));
          wr h off src })"

definition set_slot_payload ::
  "'w host \<Rightarrow> buf \<Rightarrow> nat \<Rightarrow> nat \<Rightarrow> payload_arg \<Rightarrow> int \<Rightarrow> 'w world \<Rightarrow> (buf \<times> 'w world) option" where
  "set_slot_payload hs h off sz payload len w =
     (if payload = PAYLOAD_NULL then Some (h, w)
      else do {
        h \<leftarrow>
          (case payload of
             PAYLOAD p \<Rightarrow> do {
               src \<leftarrow> rdi p 0 len;
               wr h off src }
           | _ \<Rightarrow> Some h);
        if len < int sz then
          if int off + len < 0 then None
          else dc_rand_at hs h (nat (int off + len)) (nat (int sz - len)) w
        else Some (h, w) })"

definition cp_set_slot ::
  "'w host \<Rightarrow> buf \<Rightarrow> int \<Rightarrow> info_arg \<Rightarrow> payload_arg \<Rightarrow> int \<Rightarrow> 'w world \<Rightarrow> ((dc_status \<times> buf) \<times> 'w world) option" where
  "cp_set_slot hs h slot_idx info payload len w =
     (if \<not> cp_has_key_slots h then Some ((ST_INCOMPATIBLE, h), w)
      else if slot_idx < 0 \<or> int (hd_key_slot_count h) \<le> slot_idx then Some ((ST_BAD_INDEX, h), w)
      else
        (let i = nat slot_idx; sz = slot_size h; info_size = hd_slot_info_size h; off = slot_info_off h i;
             key = DC_BASE_SIZE + i * sz in
         if payload \<noteq> PAYLOAD_NULL \<and> int sz < len then Some ((ST_INVALID_PARAM, h), w)
         else do {
           h \<leftarrow> set_slot_info h off info;
           (h, w) \<leftarrow> set_slot_payload hs h key sz payload len w;
           c \<leftarrow> slot_crc h off info_size key sz;
           h \<leftarrow> set_si_crc h off c;
           Some ((ST_OK, h), w) }))"

section \<open>The extended header and the search order\<close>

definition cp_ext_header_crc :: "buf \<Rightarrow> nat \<Rightarrow> u32 option" where
  "cp_ext_header_crc h off = do {
     sz \<leftarrow> rd_u32 h (off + 4);
     data \<leftarrow> rd h (off + 4) (unat (sz - 4));
     Some (crc32 data) }"

definition cp_kdf_list :: "int \<Rightarrow> int list option" where
  "cp_kdf_list selector =
     (if selector = KDF_ALL then Some dc_all_kdfs
      else if selector = KDF_DEFAULT then Some dc_default_kdfs
      else None)"

end
