(* ===== verification/Header_Seal.thy ===== *)
theory Header_Seal
  imports Head_Util
begin

unbundle bit_operations_syntax

text \<open>
  Sealing a header and opening it again with the same key: which bytes travel encrypted, which in
  the clear, and that nothing is lost although one side encrypts in one call and the other
  decrypts in two.
\<close>

section \<open>The header seen through its first kilobyte\<close>

text \<open>The fields, and the checksum of a header without a longer base, depend on the first 1024 bytes only.\<close>

lemma fld_cong:
  assumes "take 1024 h = take 1024 h'"
  shows "off + 2 \<le> 1024 \<Longrightarrow> fld_u16 h off = fld_u16 h' off"
    and "off + 4 \<le> 1024 \<Longrightarrow> fld_u32 h off = fld_u32 h' off"
proof -
  have "take n (drop off h) = take n (drop off h')" if "off + n \<le> 1024" for n
  proof -
    have "take n (drop off h) = take n (drop off (take 1024 h))" for h :: buf
      using that by (simp add: drop_take min_def)
    then show ?thesis using assms by metis
  qed
  then show "off + 2 \<le> 1024 \<Longrightarrow> fld_u16 h off = fld_u16 h' off"
    and "off + 4 \<le> 1024 \<Longrightarrow> fld_u32 h off = fld_u32 h' off"
    by (simp_all add: fld_u16_def fld_u32_def)
qed

lemma base_cong:
  assumes t: "take 1024 h = take 1024 h'" and l: "1024 \<le> length h" "1024 \<le> length h'"
  shows "hd_salt h = hd_salt h'" "hd_sign h = hd_sign h'" "hd_crc h = hd_crc h'" "hd_version h = hd_version h'"
    "hd_head_len h = hd_head_len h'" "hd_footer_cnt h = hd_footer_cnt h'" "hd_slot_area_len h = hd_slot_area_len h'"
    "hd_key_slot_count h = hd_key_slot_count h'" "hd_slot_info_size h = hd_slot_info_size h'"
    "has_slots_flag h = has_slots_flag h'"
proof -
  have n: "i < 1024 \<Longrightarrow> h ! i = h' ! i" for i using t l by (metis nth_take)
  have "take 64 h = take 64 (take 1024 h)" for h :: buf by simp
  then show "hd_salt h = hd_salt h'" using t by (metis hd_salt_def)
  show "hd_sign h = hd_sign h'" "hd_crc h = hd_crc h'" "hd_version h = hd_version h'"
    "hd_head_len h = hd_head_len h'" "hd_footer_cnt h = hd_footer_cnt h'" "hd_slot_area_len h = hd_slot_area_len h'"
    "hd_key_slot_count h = hd_key_slot_count h'" "hd_slot_info_size h = hd_slot_info_size h'"
    "has_slots_flag h = has_slots_flag h'"
    using n by (simp_all add: hd_sign_def hd_crc_def hd_version_def hd_head_len_def hd_footer_cnt_def
        hd_slot_area_len_def hd_key_slot_count_def hd_slot_info_size_def has_slots_flag_def hd_feature_flags_def
        fld_cong [OF t])
qed

lemma slot_info_off_cong:
  "take 1024 h = take 1024 h' \<Longrightarrow> 1024 \<le> length h \<Longrightarrow> 1024 \<le> length h' \<Longrightarrow> slot_info_off h i = slot_info_off h' i"
  by (simp only: slot_info_off_def base_cong [of h h'])

lemma is_volume_header_correct_cong:
  assumes t: "take 1024 h = take 1024 h'" and l: "1024 \<le> length h" "1024 \<le> length h'"
    and v: "DC_HDR_VERSION_2 \<le> hd_version h" and f: "0 \<le> hd_footer_cnt h"
  shows "is_volume_header_correct h = is_volume_header_correct h'"
proof -
  have "rdi h 72 n = rdi h' 72 n" if "n \<le> 952" for n
  proof -
    have "take (nat n) (drop 72 h) = take (nat n) (drop 72 (take 1024 h))" for h :: buf
      using that by (simp add: drop_take min_def)
    then have "take (nat n) (drop 72 h) = take (nat n) (drop 72 h')" using t by metis
    moreover have "72 + nat n \<le> 1024" using that by simp
    ultimately show ?thesis using l by (simp add: rdi_def rd_def)
  qed
  then show ?thesis
    using f v base_cong [OF t l]
    by (simp add: is_volume_header_correct_def calculate_header_crc_def salt_bits_def)
qed

section \<open>Copying slots\<close>

definition slot_enabled :: "buf \<Rightarrow> nat \<Rightarrow> bool" where
  "slot_enabled h i \<longleftrightarrow> (case si_flags h (slot_info_off h i) of None \<Rightarrow> False | Some f \<Rightarrow> f AND SF_DISABLED = 0)"

text \<open>Which bytes belong to the enabled slots of a list.\<close>

definition in_slots :: "buf \<Rightarrow> nat \<Rightarrow> nat list \<Rightarrow> nat \<Rightarrow> bool" where
  "in_slots h sz is p \<longleftrightarrow> (\<exists>i \<in> set is. slot_enabled h i \<and> 1024 + sz * i \<le> p \<and> p < 1024 + sz * i + sz)"

definition overlay :: "(nat \<Rightarrow> bool) \<Rightarrow> buf \<Rightarrow> buf \<Rightarrow> buf" where
  "overlay P a b = map (\<lambda>p. if P p then a ! p else b ! p) [0..<length b]"

lemma length_overlay [simp]: "length (overlay P a b) = length b"
  by (simp add: overlay_def)

lemma overlay_nth [simp]: "p < length b \<Longrightarrow> overlay P a b ! p = (if P p then a ! p else b ! p)"
  by (simp add: overlay_def)

lemma rd_nth_cong:
  "length b = length c \<Longrightarrow> (\<And>p. off \<le> p \<Longrightarrow> p < off + n \<Longrightarrow> p < length b \<Longrightarrow> b ! p = c ! p) \<Longrightarrow> rd b off n = rd c off n"
  by (auto simp: rd_def intro!: nth_equalityI)

lemma copy_slots_overlay:
  assumes "hd_key_slot_count h = cnt" and "sz * cnt \<le> hd_slot_area_len h"
    and "1024 + hd_slot_area_len h + cnt * hd_slot_info_size h \<le> length h"
    and "8 \<le> hd_slot_info_size h"
    and "length inp = length h"
    and "same \<Longrightarrow> take 1024 out = take 1024 h"
  shows "set is \<subseteq> {0..<cnt} \<Longrightarrow> length out = length h \<Longrightarrow>
    (same \<Longrightarrow> drop (1024 + hd_slot_area_len h) out = drop (1024 + hd_slot_area_len h) h) \<Longrightarrow>
    copy_slots same h inp sz is out = Some (overlay (in_slots h sz is) inp out)"
proof (induction "is" arbitrary: out)
  case Nil
  then show ?case by (auto simp: overlay_def in_slots_def intro!: nth_equalityI)
next
  case (Cons i "is")
  have i: "i < cnt" using Cons.prems(1) by simp
  let ?off = "slot_info_off h i"
  have "hd_slot_info_size h * i + hd_slot_info_size h \<le> cnt * hd_slot_info_size h"
    using i by (metis Suc_leI mult.commute mult_Suc_right mult_le_mono1 add.commute)
  then have off: "?off + 8 \<le> length h" "1024 + hd_slot_area_len h \<le> ?off"
    using assms(3,4) by (simp_all add: slot_info_off_def)
  obtain f where f: "si_flags h ?off = Some f"
    using off(1) by (auto simp: si_flags_def rd_u32_def rd_def)
  have fs: "si_flags (if same then out else h) ?off = Some f"
  proof (cases same)
    case True
    have "rd out (?off + 4) 4 = rd h (?off + 4) 4"
    proof (rule rd_nth_cong [OF Cons.prems(2)])
      fix p assume "?off + 4 \<le> p" and "p < length out"
      then have "out ! p = drop (1024 + hd_slot_area_len h) out ! (p - (1024 + hd_slot_area_len h))"
        and "h ! p = drop (1024 + hd_slot_area_len h) h ! (p - (1024 + hd_slot_area_len h))"
        using off(2) Cons.prems(2) by simp_all
      then show "out ! p = h ! p" using Cons.prems(3) [OF True] by simp
    qed
    then show ?thesis using True f by (simp add: si_flags_def rd_u32_def)
  qed (use f in simp)
  have "sz * i + sz \<le> sz * cnt"
    using i by (metis Suc_leI mult_Suc_right mult_le_mono2 add.commute)
  then have key: "1024 + sz * i + sz \<le> 1024 + hd_slot_area_len h" "1024 + hd_slot_area_len h \<le> length h"
    using assms(2,3) by linarith+
  have en: "slot_enabled h i \<longleftrightarrow> f AND SF_DISABLED = 0" by (simp add: slot_enabled_def f)
  show ?case
  proof (cases "slot_enabled h i")
    case False
    have "copy_slots same h inp sz (i # is) out = copy_slots same h inp sz is out"
      using False en fs by simp
    also have "\<dots> = Some (overlay (in_slots h sz is) inp out)"
      using Cons.prems by (intro Cons.IH) auto
    also have "in_slots h sz is = in_slots h sz (i # is)" using False by (auto simp: in_slots_def fun_eq_iff)
    finally show ?thesis .
  next
    case True
    let ?s = "take sz (drop (1024 + sz * i) inp)"
    have s: "rd inp (1024 + sz * i) sz = Some ?s" "length ?s = sz" using key assms(5) by (simp_all add: rd_def)
    obtain out1 where w: "wr out (1024 + sz * i) ?s = Some out1"
      using wr_defined [of "1024 + sz * i" ?s out] key s(2) Cons.prems(2) by auto
    have l1: "length out1 = length h" using length_wr [OF w] Cons.prems(2) by simp
    have n1: "p < length h \<Longrightarrow> out1 ! p = (if 1024 + sz * i \<le> p \<and> p < 1024 + sz * i + sz then inp ! p else out ! p)" for p
    proof -
      assume "p < length h"
      then have "out1 ! p = (if 1024 + sz * i \<le> p \<and> p < 1024 + sz * i + sz then ?s ! (p - (1024 + sz * i)) else out ! p)"
        using wr_nth [OF w, of p] Cons.prems(2) by (simp only: s(2))
      moreover have "?s ! (p - (1024 + sz * i)) = inp ! p" if "1024 + sz * i \<le> p" "p < 1024 + sz * i + sz"
      proof -
        have "p - (1024 + sz * i) < sz" using that by linarith
        then show ?thesis using that key assms(5) by simp
      qed
      ultimately show ?thesis by metis
    qed
    have "copy_slots same h inp sz (i # is) out = copy_slots same h inp sz is out1"
      using True en fs s(1) w by simp
    also have "\<dots> = Some (overlay (in_slots h sz is) inp out1)"
    proof (rule Cons.IH)
      show "set is \<subseteq> {0..<cnt}" using Cons.prems(1) by simp
      show "length out1 = length h" by (rule l1)
      show "drop (1024 + hd_slot_area_len h) out1 = drop (1024 + hd_slot_area_len h) h" if same
        unfolding Cons.prems(3) [OF that, symmetric]
        using key l1 Cons.prems(2) n1 by (intro nth_equalityI) auto
    qed
    also have "overlay (in_slots h sz is) inp out1 = overlay (in_slots h sz (i # is)) inp out"
      using l1 Cons.prems(2) n1 True by (intro nth_equalityI) (auto simp: in_slots_def)
    finally show ?thesis .
  qed
qed

text \<open>The bytes \<^verbatim>\<open>cp_copy_keylots\<close> copies.\<close>

definition copied :: "buf \<Rightarrow> nat \<Rightarrow> bool" where
  "copied h p \<longleftrightarrow>
     has_slots_flag h \<and> hd_key_slot_count h \<noteq> 0 \<and> 1024 + slots_len h \<le> unat (hd_head_len h) \<and>
     in_slots h (slot_size h) [0..<hd_key_slot_count h] p"

definition layout_ok :: "buf \<Rightarrow> bool" where
  "layout_ok h \<longleftrightarrow>
     DC_HDR_VERSION_2 \<le> hd_version h \<and> 0 \<le> hd_footer_cnt h \<and> unat (hd_head_len h) \<le> length h \<and>
     (has_slots_flag h \<longrightarrow> 8 \<le> hd_slot_info_size h \<and> 16 dvd hd_slot_area_len h)"

lemma slot_size_area: "slot_size h * hd_key_slot_count h \<le> hd_slot_area_len h"
  by (simp add: slot_size_def)

lemma in_slots_area:
  assumes "in_slots h (slot_size h) [0..<hd_key_slot_count h] p"
  shows "1024 \<le> p" and "p < 1024 + hd_slot_area_len h"
proof -
  from assms obtain i where i: "i < hd_key_slot_count h" "1024 + slot_size h * i \<le> p" "p < 1024 + slot_size h * i + slot_size h"
    by (auto simp: in_slots_def)
  have "slot_size h * i + slot_size h \<le> slot_size h * hd_key_slot_count h"
    using i(1) by (metis Suc_leI mult_Suc_right mult_le_mono2 add.commute)
  then show "p < 1024 + hd_slot_area_len h" using i(3) slot_size_area [of h] by linarith
  show "1024 \<le> p" using i(2) by simp
qed

lemma cp_copy_keylots_overlay:
  assumes "unat (hd_head_len h) \<le> length h" and "has_slots_flag h \<longrightarrow> 8 \<le> hd_slot_info_size h"
    and "length inp = length h" and "length out = length h"
    and "same \<Longrightarrow> out = h"
  shows "map_option snd (cp_copy_keylots same h inp out) = Some (overlay (copied h) inp out)"
proof -
  have no: "overlay (copied h) inp out = out" if "\<And>p. \<not> copied h p"
    using that by (intro nth_equalityI) auto
  show ?thesis
  proof (cases "has_slots_flag h \<and> hd_key_slot_count h \<noteq> 0 \<and> 1024 + slots_len h \<le> unat (hd_head_len h)")
    case False
    then have "\<And>p. \<not> copied h p" by (auto simp: copied_def)
    with False no show ?thesis by (auto simp: cp_copy_keylots_def slots_len_def not_less)
  next
    case True
    have "copy_slots same h inp (slot_size h) [0..<hd_key_slot_count h] out =
        Some (overlay (in_slots h (slot_size h) [0..<hd_key_slot_count h]) inp out)"
      using True assms slot_size_area [of h]
      by (intro copy_slots_overlay [where cnt = "hd_key_slot_count h"]) (auto simp: slots_len_def)
    moreover have "copied h = in_slots h (slot_size h) [0..<hd_key_slot_count h]"
      using True by (auto simp: copied_def fun_eq_iff)
    ultimately show ?thesis
      using True by (simp add: cp_copy_keylots_def slots_len_def slot_size_def Let_def)
  qed
qed

lemma copied_cong:
  assumes t: "take 1024 h = take 1024 h'" and l: "length h = length h'" "1024 \<le> length h"
    and d: "drop (1024 + hd_slot_area_len h) h = drop (1024 + hd_slot_area_len h) h'"
  shows "copied h = copied h'"
proof -
  note b = base_cong [OF t l(2) l(2) [unfolded l(1)]]
  have o: "slot_info_off h i = slot_info_off h' i" for i by (simp only: slot_info_off_def b)
  have "rd h (slot_info_off h i + 4) 4 = rd h' (slot_info_off h i + 4) 4" for i
  proof (rule rd_nth_cong [OF l(1)])
    fix p assume "slot_info_off h i + 4 \<le> p" and "p < length h"
    then have p: "1024 + hd_slot_area_len h \<le> p" by (simp add: slot_info_off_def)
    then have "h ! p = drop (1024 + hd_slot_area_len h) h ! (p - (1024 + hd_slot_area_len h))"
      and "h' ! p = drop (1024 + hd_slot_area_len h) h' ! (p - (1024 + hd_slot_area_len h))"
      using \<open>p < length h\<close> l by simp_all
    with d show "h ! p = h' ! p" by simp
  qed
  then have "slot_enabled h i = slot_enabled h' i" for i
    by (simp add: slot_enabled_def si_flags_def rd_u32_def o)
  then show ?thesis by (auto simp: fun_eq_iff copied_def in_slots_def slots_len_def slot_size_def b)
qed

section \<open>Sealing and unsealing\<close>

lemma block_nth:
  assumes "take 16 (drop (16 * (p div 16)) a) = take 16 (drop (16 * (p div 16)) b)" and "p < length a" "p < length b"
  shows "a ! p = b ! p"
proof -
  let ?j = "16 * (p div 16)" and ?r = "p mod 16"
  have p: "p = ?j + ?r" by simp
  have "a ! p = take 16 (drop ?j a) ! ?r" and "b ! p = take 16 (drop ?j b) ! ?r"
    using assms(2,3) p by (simp_all add: less_imp_le)
  with assms(1) show ?thesis by simp
qed

lemma nth_block_cong:
  assumes "length a = length b" and "\<And>q. q div 16 = j \<Longrightarrow> q < length a \<Longrightarrow> a ! q = b ! q"
  shows "take 16 (drop (16 * j) a) = take 16 (drop (16 * j) b)"
proof (rule nth_equalityI)
  fix i assume "i < length (take 16 (drop (16 * j) a))"
  then have i: "i < 16" "16 * j + i < length a" by auto
  then have "(16 * j + i) div 16 = j" by simp
  with assms(2) [of "16 * j + i"] i assms(1) show "take 16 (drop (16 * j) a) ! i = take 16 (drop (16 * j) b) ! i"
    by simp
qed (use assms(1) in simp)

lemma dvd_div_le: "(16 :: nat) dvd m \<Longrightarrow> p div 16 = q div 16 \<Longrightarrow> p < m \<Longrightarrow> q < m"
  by (auto elim!: dvdE) (metis div_less_iff_less_mult mult.commute zero_less_numeral)

text \<open>
  Decrypting a sealed header whose bytes are those of the ciphertext outside the salt and the slot
  area gives back the bytes outside the salt and the slot area.
\<close>

lemma unseal_bytes:
  assumes c: "sector_cipher f g" and fg: "sector_fun g"
    and len: "unat len = length h" "xts_len_ok len h"
    and E: "f h len 0 = Some E" and G: "g blob len 0 = Some G" and lb: "length blob = length h"
    and eq: "\<And>p. p < length h \<Longrightarrow> \<not> P p \<Longrightarrow> blob ! p = E ! p"
    and al: "\<And>p q. p div 16 = q div 16 \<Longrightarrow> P q \<Longrightarrow> P p"
  shows "length G = length h" and "p < length h \<Longrightarrow> \<not> P p \<Longrightarrow> G ! p = h ! p"
proof -
  obtain E' where E': "f h len 0 = Some E'" "length E' = length h" "g E' len 0 = Some h"
    by (rule sector_cipher.encE [OF c len(2) len(1)])
  with E have lE: "length E = length h" and gE: "g E len 0 = Some h" by simp_all
  have ok: "xts_len_ok len blob" "xts_len_ok len E" using len lb lE by (simp_all add: xts_len_ok_def)
  show lG: "length G = length h"
    using sector_fun.f_total [OF fg ok(1), of 0] G len(1) by auto
  show "G ! p = h ! p" if "p < length h" "\<not> P p"
  proof (rule block_nth)
    show "take 16 (drop (16 * (p div 16)) G) = take 16 (drop (16 * (p div 16)) h)"
    proof (rule sector_fun.f_local [OF fg ok G gE])
      show "16 * (p div 16) < unat len" using that(1) len(1) by (metis le_less_trans times_div_less_eq_dividend)
      show "take 16 (drop (16 * (p div 16)) blob) = take 16 (drop (16 * (p div 16)) E)"
      proof (rule nth_block_cong)
        show "length blob = length E" using lb lE by simp
        fix q assume "q div 16 = p div 16" and "q < length blob"
        then show "blob ! q = E ! q" using eq [of q] al [of p q] that(2) lb by auto
      qed
    qed
  qed (use that lG in simp_all)
qed

lemma u64_of_int_length: "length h < 2 ^ 64 \<Longrightarrow> unat (u64_of_int (int (length h))) = length h"
  unfolding u64_of_int_def of_int_of_nat_eq unat_of_nat by (simp add: mod_less)

text \<open>The bytes that are not plaintext to the header key: the salt and the slot area.\<close>

definition clear_byte :: "buf \<Rightarrow> nat \<Rightarrow> bool" where
  "clear_byte h p \<longleftrightarrow> p < 64 \<or> has_slots_flag h \<and> 1024 \<le> p \<and> p < 1024 + hd_slot_area_len h"

lemma clear_byte_block:
  assumes "layout_ok h" and "p div 16 = q div 16" and "clear_byte h q"
  shows "clear_byte h p"
proof (cases "q < 64")
  case True
  then have "p < 64" using assms(2) by (intro dvd_div_le [of 64 q p]) auto
  then show ?thesis by (simp add: clear_byte_def)
next
  case False
  with assms(3) have q: "has_slots_flag h" "1024 \<le> q" "q < 1024 + hd_slot_area_len h" by (auto simp: clear_byte_def)
  then have "16 dvd 1024 + hd_slot_area_len h" using assms(1) by (auto simp: layout_ok_def intro!: dvd_add)
  then have "p < 1024 + hd_slot_area_len h" using assms(2) q(3) by (intro dvd_div_le [of _ q p]) auto
  moreover have "1024 \<le> p"
  proof (rule ccontr)
    assume "\<not> 1024 \<le> p"
    then have "q < 1024" using assms(2) by (intro dvd_div_le [of 1024 p q]) auto
    with q(2) show False by simp
  qed
  ultimately show ?thesis using q(1) by (simp add: clear_byte_def)
qed

definition sealed :: "buf \<Rightarrow> buf \<Rightarrow> buf" where
  "sealed h E = overlay (copied h) h (hd_salt h @ drop 64 E)"

lemma cp_encrypt_header_eq:
  assumes l: "2048 \<le> length h" "512 dvd length h" "length out = length h"
    and lay: "layout_ok h" and k: "xk_encrypt key \<noteq> XTS_NONE"
    and E: "xts_encrypt core h (u64_of_int (int (length h))) 0 key = Some E" "length E = length h"
  shows "cp_encrypt_header core (Some h) (int (length h)) (Some key) (Some out) = Some (ST_OK, Some (sealed h E))"
proof -
  have m: "int (length h) mod 512 = 0" using l(2) by (auto elim!: dvdE)
  have r: "rd h 0 64 = Some (hd_salt h)" "rdi h 0 (int (length h)) = Some h"
    using l(1) by (simp_all add: rd_def rdi_def hd_salt_def)
  have w1: "wr out 0 h = Some h" using l(3) by (simp add: wr_def)
  have w2: "wr h 0 E = Some E" using E(2) by (simp add: wr_def)
  have w3: "wr E 0 (hd_salt h) = Some (hd_salt h @ drop 64 E)" using l(1) E(2) by (simp add: wr_def hd_salt_def)
  have lo: "length (hd_salt h @ drop 64 E) = length h" using l(1) E(2) by (simp add: hd_salt_def)
  have v: "DC_HDR_VERSION_2 \<le> hd_version h" using lay by (simp add: layout_ok_def)
  have cp: "(if DC_HDR_VERSION_2 \<le> hd_version h \<and> has_slots_flag h
      then map_option snd (cp_copy_keylots False h h (hd_salt h @ drop 64 E))
      else Some (hd_salt h @ drop 64 E)) = Some (sealed h E)"
  proof (cases "has_slots_flag h")
    case True
    with v lay lo show ?thesis
      by (simp add: cp_copy_keylots_overlay layout_ok_def sealed_def)
  next
    case False
    then have "\<not> copied h p" for p by (simp add: copied_def)
    then have "sealed h E = hd_salt h @ drop 64 E" unfolding sealed_def using lo by (intro nth_equalityI) auto
    with False show ?thesis by simp
  qed
  have n: "\<not> int (length h) < 2048" using l(1) by simp
  show ?thesis
    unfolding cp_encrypt_header_def option.case prod.case if_not_P [OF n] if_not_P [OF k]
      bind.bind_lunit r w1 nat_int take_all_iff [THEN iffD2, OF order_refl] E(1) w2 w3 cp
    by (simp add: m)
qed

lemma sealed_bytes:
  assumes "2048 \<le> length h" and "length E = length h"
  shows "length (sealed h E) = length h" "take 64 (sealed h E) = hd_salt h"
    "p < length h \<Longrightarrow> \<not> clear_byte h p \<Longrightarrow> sealed h E ! p = E ! p"
    "p < length h \<Longrightarrow> copied h p \<Longrightarrow> sealed h E ! p = h ! p"
proof -
  have ls: "length (hd_salt h) = 64" using assms(1) by (simp add: hd_salt_def)
  show l: "length (sealed h E) = length h" using assms ls by (simp add: sealed_def)
  have nc: "\<not> copied h p" if "p < 1024" for p
    using that in_slots_area(1) [of h p] by (auto simp: copied_def)
  show "take 64 (sealed h E) = hd_salt h"
    using assms ls l nc by (intro nth_equalityI) (auto simp: sealed_def nth_append)
  show "sealed h E ! p = E ! p" if "p < length h" "\<not> clear_byte h p"
  proof -
    have "\<not> copied h p" using that(2) in_slots_area [of h p] by (auto simp: copied_def clear_byte_def)
    then show ?thesis using that assms ls by (auto simp: sealed_def nth_append clear_byte_def)
  qed
  show "sealed h E ! p = h ! p" if "p < length h" "copied h p"
    using that assms ls by (simp add: sealed_def)
qed

lemma cp_decrypt_header_with_key_eq:
  assumes l: "2048 \<le> length blob" "512 dvd length blob" "length blob < 2 ^ 64" "length out = length blob"
    and k: "xk_decrypt key \<noteq> XTS_NONE"
    and G: "xts_decrypt core blob (u64_of_int (int (length blob))) 0 key = Some G" "length G = length blob"
    and lay: "layout_ok (take 64 blob @ drop 64 G)"
    and ok: "is_volume_header_correct (take 64 blob @ drop 64 G) = Some True"
  shows "cp_decrypt_header_with_key False core blob (int (length blob)) (Some key) out =
    Some (True, overlay (copied (take 64 blob @ drop 64 G)) blob (take 64 blob @ drop 64 G))"
proof -
  let ?n = "length blob" and ?H = "take 64 blob @ drop 64 G"
  have sf: "sector_fun (\<lambda>P len off. xts_decrypt core P len off key)"
    unfolding xts_decrypt_def using k by (rule xts_call_sector_fun)
  obtain G1 G2 where G12: "G = G1 @ G2" "length G1 = 2048" "xts_decrypt core (take 2048 blob) 2048 0 key = Some G1"
    "2048 < ?n \<Longrightarrow> xts_decrypt core (drop 2048 blob) (u64_of_int (int ?n - 2048)) 2048 key = Some G2"
  proof (cases "2048 < ?n")
    case False
    then have "?n = 2048" using l(1) by simp
    with G show ?thesis by (intro that [of G "[]"]) (simp_all add: u64_of_int_def)
  next
    case True
    let ?m = "u64_of_int (int ?n - 2048)"
    have "int ?n - 2048 = int (?n - 2048)" using l(1) by simp
    then have um: "unat ?m = ?n - 2048"
      unfolding u64_of_int_def by (simp only: of_int_of_nat_eq unat_of_nat) (use l(3) in \<open>simp add: mod_less\<close>)
    have d: "512 dvd ?n - 2048" using l(2) by (simp add: dvd_diff_nat)
    have mok: "xts_len_ok ?m (drop 2048 blob)"
      using um d True unfolding xts_len_ok_def by (auto simp flip: unat_eq_zero)
    have "xts_decrypt core (take 2048 blob @ drop 2048 blob) (u64_of_int (int ?n)) 0 key = do {
        a \<leftarrow> xts_decrypt core (take 2048 blob) (of_nat (512 * 4)) 0 key;
        b \<leftarrow> xts_decrypt core (drop 2048 blob) ?m (of_nat (512 * 4)) key;
        Some (a @ b) }"
      using l um mok u64_of_int_length [of blob] by (intro sector_fun.f_append [OF sf]) auto
    then obtain a b where ab: "xts_decrypt core (take 2048 blob) 2048 0 key = Some a"
      "xts_decrypt core (drop 2048 blob) ?m 2048 key = Some b" "G = a @ b"
      using G(1) by (auto simp: eq_commute [of "Some G"] bind_eq_Some_conv)
    moreover have "length a = 2048"
      using sector_fun.f_total [OF sf, of 2048 "take 2048 blob" 0] l(1) ab(1) by (auto simp: xts_len_ok_def)
    ultimately show ?thesis by (intro that [of a b])
  qed
  define o1 where "o1 = G1 @ drop 2048 out"
  define o2 where "o2 = take 64 blob @ drop 64 o1"
  have w1: "wr out 0 G1 = Some o1" using l G12(2) by (simp add: wr_def o1_def)
  have w2: "wr o1 0 (take 64 blob) = Some o2" using l G12(2) by (simp add: wr_def o2_def o1_def)
  have lo2: "length o2 = ?n" using l G12(2) by (simp add: o2_def o1_def)
  have t: "take 1024 ?H = take 1024 o2" using l(1) G12(1,2) by (simp add: o2_def o1_def)
  have lH: "length ?H = ?n" using l(1) G(2) by simp
  have v: "DC_HDR_VERSION_2 \<le> hd_version ?H" "0 \<le> hd_footer_cnt ?H" using lay by (simp_all add: layout_ok_def)
  have okc: "is_volume_header_correct o2 = Some True"
    unfolding ok [symmetric] using t lH lo2 l(1) v by (intro is_volume_header_correct_cong [symmetric]) auto
  have o3: "(if 2048 < int ?n then do {
        enc \<leftarrow> rdi blob DC_AREA_SIZE (int ?n - 2048);
        tail \<leftarrow> xts_decrypt core enc (u64_of_int (int ?n - 2048)) 2048 key;
        wr o2 DC_AREA_SIZE tail } else Some o2) = Some ?H"
  proof (cases "2048 < ?n")
    case True
    have n: "nat (int ?n - 2048) = ?n - 2048" by simp
    have r: "rdi blob DC_AREA_SIZE (int ?n - 2048) = Some (drop 2048 blob)"
      using True by (simp add: rdi_def rd_def n)
    have "length G2 = ?n - 2048" using G(2) G12(1,2) by simp
    then have "wr o2 DC_AREA_SIZE G2 = Some ?H"
      using True lo2 G12(1,2) by (simp add: wr_def) (simp add: o2_def o1_def)
    with True r G12(4) show ?thesis by simp
  next
    case False
    then have "?n = 2048" using l(1) by simp
    then have "?H = o2" using G(2) G12(1,2) l(4) by (simp add: o2_def o1_def)
    with False show ?thesis by simp
  qed
  have cp: "(if has_slots_flag ?H then map_option snd (cp_copy_keylots True ?H blob ?H) else Some ?H) =
      Some (overlay (copied ?H) blob ?H)"
  proof (cases "has_slots_flag ?H")
    case True
    with lay lH show ?thesis by (simp add: cp_copy_keylots_overlay layout_ok_def del: append_take_drop_id)
  next
    case False
    then have "\<not> copied ?H p" for p by (simp add: copied_def)
    then have "overlay (copied ?H) blob ?H = ?H" by (intro nth_equalityI) auto
    with False show ?thesis by simp
  qed
  have m: "\<not> int ?n mod 512 \<noteq> 0" using l(2) by (auto elim!: dvdE)
  have r: "rd blob 0 2048 = Some (take 2048 blob)" "rd blob 0 64 = Some (take 64 blob)"
    using l(1) by (simp_all add: rd_def)
  have n: "\<not> int ?n < 2048" using l(1) by simp
  show ?thesis
    unfolding cp_decrypt_header_with_key_def option.case if_not_P [OF n] if_not_P [OF k] if_not_P [OF m] if_False
      bind.bind_lunit r G12(3) w1 w2 okc o3 cp by simp
qed

section \<open>Witness headers\<close>

text \<open>A header with four slots of 192 bytes and descriptors of 32.\<close>

definition slots_header :: buf where
  "slots_header = make_header (replicate 540 0 @ [0, 8, 0, 0] @ replicate 10 0 @ [1, 0, 0, 0] @ [0, 0, 0] @ [0, 3] @ [4] @
     [32, 0] @ replicate 1408 0)"

lemma slots_header_facts:
  "length slots_header = 2048" "is_volume_header_correct slots_header = Some True"
  "hd_version slots_header = 3" "hd_footer_cnt slots_header = 0" "hd_head_len slots_header = 2048"
  "has_slots_flag slots_header" "hd_slot_area_len slots_header = 768" "hd_key_slot_count slots_header = 4"
  "hd_slot_info_size slots_header = 32" "drop 1024 slots_header = replicate 1024 0"
proof -
  let ?rest = "replicate 540 0 @ [0, 8, 0, 0] @ replicate 10 0 @ [1, 0, 0, 0] @ [0, 0, 0] @ [0, 3] @ [4] @ [32, 0] @ replicate 1408 0 :: u8 list"
  have r: "length ?rest = 1974" "?rest ! 553 = 0" by (simp_all add: nth_append)
  show "length slots_header = 2048" "is_volume_header_correct slots_header = Some True"
    using make_header_correct [OF r] by (simp_all only: slots_header_def)
  show "hd_version slots_header = 3" "hd_footer_cnt slots_header = 0" "hd_head_len slots_header = 2048"
    "has_slots_flag slots_header" "hd_slot_area_len slots_header = 768" "hd_key_slot_count slots_header = 4"
    "hd_slot_info_size slots_header = 32" "drop 1024 slots_header = replicate 1024 0"
    by (simp_all add: slots_header_def make_header_def Let_def hd_version_def hd_footer_cnt_def hd_head_len_def
        has_slots_flag_def hd_feature_flags_def FF_KEY_SLOTS_def hd_slot_area_len_def hd_key_slot_count_def
        hd_slot_info_size_def fld_u16_def fld_u32_def nth_append)
qed

lemma slots_header_layout: "layout_ok slots_header"
  using slots_header_facts by (simp add: layout_ok_def DC_HDR_VERSION_2_def)

lemma seal_unseal:
  assumes core: "aes_core_ok core" and key: "xts_set_key dk alg k0 = Some (1, key)"
    and l: "2048 \<le> length h" "512 dvd length h" "length h < 2 ^ 64"
    and lay: "layout_ok h" and ok: "is_volume_header_correct h = Some True"
    and out: "length out1 = length h" "length out2 = length h"
  shows "\<exists>blob h'. cp_encrypt_header core (Some h) (int (length h)) (Some key) (Some out1) = Some (ST_OK, Some blob) \<and>
    take 64 blob = hd_salt h \<and>
    cp_decrypt_header_with_key False core blob (int (length h)) (Some key) out2 = Some (True, h') \<and>
    length h' = length h \<and> take 1024 h' = take 1024 h \<and>
    drop (1024 + hd_slot_area_len h) h' = drop (1024 + hd_slot_area_len h) h \<and>
    (\<forall>i < hd_key_slot_count h. slot_enabled h i \<longrightarrow>
       rd h' (1024 + slot_size h * i) (slot_size h) = rd h (1024 + slot_size h * i) (slot_size h)) \<and>
    (\<not> has_slots_flag h \<longrightarrow> h' = h)"
proof -
  let ?n = "length h" and ?len = "u64_of_int (int (length h))"
  have pairs: "(xk_encrypt key, xk_decrypt key) \<in> set xts_pairs" using key by (rule xts_set_key_pairs)
  then have ke: "xk_encrypt key \<noteq> XTS_NONE" and kd: "xk_decrypt key \<noteq> XTS_NONE" by (auto simp: xts_pairs_def)
  have sc: "sector_cipher (\<lambda>P len off. xts_encrypt core P len off key) (\<lambda>C len off. xts_decrypt core C len off key)"
    unfolding xts_encrypt_def xts_decrypt_def using core pairs by (rule xts_call_sector_cipher)
  have sf: "sector_fun (\<lambda>P len off. xts_decrypt core P len off key)"
    unfolding xts_decrypt_def using kd by (rule xts_call_sector_fun)
  have ul: "unat ?len = ?n" using l(3) by (rule u64_of_int_length)
  have okl: "xts_len_ok ?len h" using ul l(1,2) by (auto simp: xts_len_ok_def simp flip: unat_eq_zero)
  obtain E where E: "xts_encrypt core h ?len 0 key = Some E" "length E = ?n"
    by (rule sector_cipher.encE [OF sc okl ul])
  let ?B = "sealed h E"
  note sb = sealed_bytes [OF l(1) E(2)]
  have lB: "length ?B = ?n" and tB: "take 64 ?B = hd_salt h" using sb(1,2) by simp_all
  have okB: "xts_len_ok ?len ?B" using okl lB by (simp add: xts_len_ok_def)
  obtain G where G: "xts_decrypt core ?B ?len 0 key = Some G" "length G = unat ?len"
    using sector_fun.f_total [OF sf okB, of 0] by blast
  have Gp: "G ! p = h ! p" if "p < ?n" "\<not> clear_byte h p" for p
    using clear_byte_block [OF lay] sb(3) that
    by (intro unseal_bytes(2) [OF sc sf ul okl E(1) G(1) lB, where P = "clear_byte h"]) auto
  define H where "H = hd_salt h @ drop 64 G"
  have ls: "length (hd_salt h) = 64" "hd_salt h = take 64 h" using l(1) by (simp_all add: hd_salt_def)
  have lH: "length H = ?n" using l(1) G(2) ul ls by (simp add: H_def)
  have Hp: "H ! p = h ! p" if "p < ?n" "p < 1024 \<or> \<not> has_slots_flag h \<or> 1024 + hd_slot_area_len h \<le> p" for p
  proof (cases "p < 64")
    case True
    then show ?thesis using ls by (simp add: H_def nth_append)
  next
    case False
    with that have "\<not> clear_byte h p" by (auto simp: clear_byte_def)
    with False that(1) Gp G(2) ul ls show ?thesis by (simp add: H_def nth_append)
  qed
  have tH: "take 1024 H = take 1024 h" using lH l(1) Hp by (intro nth_equalityI) auto
  have dH: "drop (1024 + hd_slot_area_len h) H = drop (1024 + hd_slot_area_len h) h"
    using lH Hp by (intro nth_equalityI) auto
  have l10: "1024 \<le> length H" "1024 \<le> length h" using lH l(1) by auto
  note bc = base_cong [OF tH l10]
  have ge: "hd_ext_hdr_off H = hd_ext_hdr_off h" using fld_cong(1) [OF tH, of 632] by (simp add: hd_ext_hdr_off_def)
  have layH: "layout_ok H" using lay lH by (simp add: layout_ok_def bc)
  have v: "DC_HDR_VERSION_2 \<le> hd_version H" "0 \<le> hd_footer_cnt H" using layH by (simp_all add: layout_ok_def)
  have okH: "is_volume_header_correct H = Some True"
    using is_volume_header_correct_cong [OF tH l10 v] ok by simp
  have cH: "copied H = copied h"
    using tH lH l10(1) dH by (intro copied_cong) (simp_all add: bc)
  let ?F = "overlay (copied h) ?B H"
  have dec: "cp_decrypt_header_with_key False core ?B (int ?n) (Some key) out2 = Some (True, ?F)"
    using cp_decrypt_header_with_key_eq [of ?B out2 key core G] l lB out(2) kd G ul layH okH tB cH by (simp add: H_def)
  have enc: "cp_encrypt_header core (Some h) (int ?n) (Some key) (Some out1) = Some (ST_OK, Some ?B)"
    using l(1,2) out(1) lay ke E by (rule cp_encrypt_header_eq)
  have lF: "length ?F = ?n" using lH by simp
  have Fp: "?F ! p = h ! p" if "p < ?n" "copied h p \<or> p < 1024 \<or> \<not> has_slots_flag h \<or> 1024 + hd_slot_area_len h \<le> p" for p
    using that Hp sb(4) lH by auto
  have "rd ?F (1024 + slot_size h * i) (slot_size h) = rd h (1024 + slot_size h * i) (slot_size h)"
    if i: "i < hd_key_slot_count h" "slot_enabled h i" for i
  proof (rule rd_nth_cong [OF lF])
    fix p assume p: "1024 + slot_size h * i \<le> p" "p < 1024 + slot_size h * i + slot_size h" "p < length ?F"
    have ins: "in_slots h (slot_size h) [0..<hd_key_slot_count h] p" using i p by (auto simp: in_slots_def)
    show "?F ! p = h ! p"
    proof (cases "copied h p")
      case True
      with p lF show ?thesis by (intro Fp) auto
    next
      case False
      have clear_none: "\<not> copied h q" for q
        using False ins i(1) by (auto simp: copied_def)
      have "?B ! q = E ! q" if "q < ?n" "\<not> q < 64" for q
        using that clear_none E(2) ls by (simp add: sealed_def nth_append)
      then have "G ! p = h ! p"
        using p lF in_slots_area(1) [OF ins]
        by (intro unseal_bytes(2) [OF sc sf ul okl E(1) G(1) lB, where P = "\<lambda>p. p < 64"])
          (auto intro: dvd_div_le [of 64])
      with False p lF in_slots_area(1) [OF ins] ls lH show ?thesis by (simp add: H_def nth_append)
    qed
  qed
  moreover have "take 1024 ?F = take 1024 h" using lF l(1) Fp by (intro nth_equalityI) auto
  moreover have "drop (1024 + hd_slot_area_len h) ?F = drop (1024 + hd_slot_area_len h) h"
    using lF Fp by (intro nth_equalityI) auto
  moreover have "\<not> has_slots_flag h \<longrightarrow> ?F = h" using lF Fp by (auto intro!: nth_equalityI)
  ultimately show ?thesis using enc dec tB lF by blast
qed



lemma take_wr: "wr b off xs = Some b' \<Longrightarrow> n \<le> off \<Longrightarrow> take n b' = take n b"
  using take_drop_wr_below [of b off xs b' 0 n] by simp

lemma take_wr_base: "wr b (1024 + k) xs = Some b' \<Longrightarrow> take 1024 b' = take 1024 b"
  by (erule take_wr) simp

text \<open>Copying slots never touches the base.\<close>

lemma copy_slots_base:
  "copy_slots same h inp sz is out = Some out' \<Longrightarrow> take 1024 out' = take 1024 out \<and> length out' = length out"
proof (induction same h inp sz "is" out rule: copy_slots.induct)
  case (2 same h inp sz i "is" out)
  from "2.prems" obtain f o1 where f: "si_flags (if same then out else h) (slot_info_off h i) = Some f"
    and o1: "(if f AND SF_DISABLED = 0 then do {
        s \<leftarrow> rd inp (1024 + sz * i) sz; wr out (1024 + sz * i) s } else Some out) = Some o1"
    and rest: "copy_slots same h inp sz is o1 = Some out'"
    by (auto elim!: bind_SomeE)
  have "take 1024 o1 = take 1024 out \<and> length o1 = length out"
    using o1 by (auto elim!: bind_SomeE split: if_split_asm dest: take_wr_base length_wr)
  with "2.IH" [OF f o1 rest] show ?case by simp
qed simp

lemma cp_copy_keylots_base:
  "map_option snd (cp_copy_keylots same h inp out) = Some out' \<Longrightarrow> take 1024 out' = take 1024 out"
  by (auto simp: cp_copy_keylots_def Let_def split: if_split_asm elim!: bind_SomeE dest: copy_slots_base)



end
