(* ===== verification/Key_Slots.thy ===== *)
theory Key_Slots
  imports Header_Seal
begin

unbundle bit_operations_syntax

text \<open>
  The accessors of single key slots: a slot that was set reads back, with a checksum the reader
  accepts, and nothing else in the header moves.
\<close>

section \<open>Key slots, one at a time\<close>

definition slots_fit :: "buf \<Rightarrow> bool" where
  "slots_fit h \<longleftrightarrow> cp_has_key_slots h \<and> 1024 + slots_len h \<le> length h \<and> 32 \<le> hd_slot_info_size h"

lemma slot_regions:
  assumes "slots_fit h" and "i < hd_key_slot_count h"
  shows "1024 \<le> 1024 + i * slot_size h" "1024 + i * slot_size h + slot_size h \<le> slot_info_off h i"
    "slot_info_off h i + hd_slot_info_size h \<le> length h" "slot_size h < 2 ^ 32"
proof -
  have "i * slot_size h + slot_size h \<le> slot_size h * hd_key_slot_count h"
    using assms(2) by (metis Suc_leI add.commute mult.commute mult_Suc mult_le_mono1)
  then have "i * slot_size h + slot_size h \<le> hd_slot_area_len h" using slot_size_area [of h] by linarith
  then show "1024 + i * slot_size h + slot_size h \<le> slot_info_off h i" by (simp add: slot_info_off_def)
  have "hd_slot_info_size h * i + hd_slot_info_size h \<le> hd_key_slot_count h * hd_slot_info_size h"
    using assms(2) by (metis Suc_leI mult.commute mult_Suc_right mult_le_mono1 add.commute)
  then show "slot_info_off h i + hd_slot_info_size h \<le> length h"
    using assms(1) by (simp add: slots_fit_def slot_info_off_def slots_len_def)
  have "slot_size h \<le> hd_slot_area_len h" by (simp add: slot_size_def)
  then show "slot_size h < 2 ^ 32" using hd_bounds(2) [of h] by simp
qed simp

lemma slot_crc_eq:
  assumes "rd h (info_off + 4) (info_size - 4) = Some d" and "rd h key_off sz = Some s" and "4 \<le> info_size" and "sz < 2 ^ 32"
  shows "slot_crc h info_off info_size key_off sz = Some (crc32 (d @ s))"
proof -
  have "rdi h (info_off + 4) (int info_size - 4) = Some d"
    using assms(1,3) by (simp add: rdi_def nat_diff_distrib)
  moreover have "length s = sz" using assms(2) by (rule length_rd)
  ultimately show ?thesis
    using assms(2,4) crc32_combine_crc32 [of s d] by (simp add: slot_crc_def)
qed

lemma rd_sub: "rd b off n = Some x \<Longrightarrow> i + m \<le> n \<Longrightarrow> rd b (off + i) m = Some (take m (drop i x))"
  by (auto simp: rd_def drop_take min_def add.commute split: if_splits)

lemma rd_join: "rd b off m = Some x \<Longrightarrow> rd b (off + m) n = Some y \<Longrightarrow> rd b off (m + n) = Some (x @ y)"
  by (auto simp: rd_def take_add add.commute split: if_splits)

lemma wr_u32_rd: "wr_u32 h off v = Some h' \<Longrightarrow> rd_u32 h' off = Some v"
proof -
  assume w: "wr_u32 h off v = Some h'"
  then have "rd h' off 4 = Some (le_bytes 4 (unat v))" unfolding wr_u32_def by (rule rd_wr_same) simp
  moreover have "unat v < 256 ^ 4" using unsigned_less [of v, where ?'a = nat] by simp
  ultimately show ?thesis by (simp add: rd_u32_def le_val_le_bytes)
qed

lemma slots_fit_cong:
  assumes "take 1024 h' = take 1024 h" and "length h' = length h" and "slots_fit h"
  shows "slots_fit h'" "slot_size h' = slot_size h" "slot_info_off h' i = slot_info_off h i"
    "hd_slot_info_size h' = hd_slot_info_size h" "hd_key_slot_count h' = hd_key_slot_count h" "hd_salt h' = hd_salt h"
    "slots_len h' = slots_len h"
proof -
  have l: "1024 \<le> length h" using assms(3) by (simp add: slots_fit_def)
  note b = base_cong [OF assms(1), unfolded assms(2), OF l l]
  show "slots_fit h'" "slot_size h' = slot_size h" "slot_info_off h' i = slot_info_off h i"
    "hd_slot_info_size h' = hd_slot_info_size h" "hd_key_slot_count h' = hd_key_slot_count h" "hd_salt h' = hd_salt h"
    "slots_len h' = slots_len h"
    using assms(2,3) by (simp_all add: slots_fit_def cp_has_key_slots_def slots_len_def slot_size_def slot_info_off_def b)
qed

text \<open>What reading slot \<open>i\<close> finds when its descriptor and key material are known and its checksum is right.\<close>

lemma cp_get_slot_info_good:
  assumes fit: "slots_fit h" and i: "i < hd_key_slot_count h"
    and d: "rd h (slot_info_off h i) (hd_slot_info_size h) = Some d"
    and crc: "rd_u32 h (slot_info_off h i) = slot_crc h (slot_info_off h i) (hd_slot_info_size h) (1024 + i * slot_size h) (slot_size h)"
  shows "cp_get_slot_info h (int i) x = Some (ST_OK, take 32 d)"
proof -
  have ins: "32 \<le> hd_slot_info_size h" using fit by (simp add: slots_fit_def)
  have r: "rd h (slot_info_off h i) 32 = Some (take 32 d)" using rd_sub [OF d, of 0 32] ins by simp
  have l: "length (take 32 d) = 32" using length_rd [OF r] .
  have "rd (take 32 d) 4 4 = Some (take 4 (drop 4 (take 32 d)))" unfolding rd_def l by simp
  then obtain fl where f: "si_flags (take 32 d) 0 = Some fl" by (simp add: si_flags_def rd_u32_def)
  note rg = slot_regions [OF fit i]
  obtain c where c: "rd_u32 h (slot_info_off h i) = Some c"
    using rg(3) ins by (auto simp: rd_u32_def rd_def)
  show ?thesis
    using fit i r f c crc ins by (simp add: cp_get_slot_info_def slots_fit_def si_crc_def Let_def min_def)
qed

text \<open>
  C30: a slot that was set reads back. On a header whose slots fit, \<^verbatim>\<open>cp_set_slot\<close> with a descriptor
  and key material succeeds; \<^verbatim>\<open>cp_get_slot_payload\<close> then returns that material and
  \<^verbatim>\<open>cp_get_slot_info\<close> that descriptor with its checksum filled in, not marked corrupt; nothing
  outside the descriptor and the slot changes, and what lies behind the material in the slot is
  random.
\<close>

theorem cp_set_get_slot:
  assumes hs: "host_ok hs" and fit: "slots_fit h" and i: "i < hd_key_slot_count h"
    and b: "length b = 32" and p: "length p \<le> slot_size h" and buf: "length p \<le> length dst"
  shows "\<exists>h' w' c. cp_set_slot hs h (int i) (INFO b) (PAYLOAD p) (int (length p)) w = Some ((ST_OK, h'), w') \<and>
    cp_get_slot_payload h' (int i) (Some dst) (int (length p)) = Some (ST_OK, Some (p @ drop (length p) dst)) \<and>
    cp_get_slot_info h' (int i) x = Some (ST_OK, le_bytes 4 c @ drop 4 b) \<and>
    length h' = length h \<and>
    (\<forall>j n. (j + n \<le> 1024 + i * slot_size h \<or> 1024 + i * slot_size h + slot_size h \<le> j) \<and>
           (j + n \<le> slot_info_off h i \<or> slot_info_off h i + 32 \<le> j) \<longrightarrow> rd h' j n = rd h j n)"
proof -
  let ?sz = "slot_size h" and ?off = "slot_info_off h i" and ?is = "hd_slot_info_size h"
  let ?key = "1024 + i * slot_size h" and ?n = "length p"
  note rg = slot_regions [OF fit i]
  have ins: "32 \<le> ?is" using fit by (simp add: slots_fit_def)
  obtain h1 where h1: "wr h ?off b = Some h1" "length h1 = length h"
    using wr_defined [of ?off b h] rg(3) ins b by auto
  obtain h2 where h2: "wr h1 ?key p = Some h2" "length h2 = length h"
    using wr_defined [of ?key p h1] rg(2,3) h1(2) p by auto
  obtain r w1 where r: "dc_rand hs (?sz - ?n) w = (r, w1)" by force
  have lr: "length r = ?sz - ?n"
    using hs r by (auto simp: dc_rand_def host_ok_def split: prod.split_asm) (metis fst_conv)
  obtain h3 where h3: "wr h2 (?key + ?n) r = Some h3" "length h3 = length h"
    using wr_defined [of "?key + ?n" r h2] rg(2,3) h2(2) p lr by auto
  have rand: "(if int ?n < int ?sz then if int ?key + int ?n < 0 then None
      else dc_rand_at hs h2 (nat (int ?key + int ?n)) (nat (int ?sz - int ?n)) w else Some (h2, w)) =
      Some (h3, if ?n < ?sz then w1 else w)"
  proof (cases "?n < ?sz")
    case True
    have n: "nat (int ?key + int ?n) = ?key + ?n" "nat (int ?sz - int ?n) = ?sz - ?n"
      by (rule nat_int_add, simp)
    have "\<not> int ?key + int ?n < 0" by (simp only: of_nat_add [symmetric])
    then show ?thesis
      using True unfolding if_P [OF True [folded of_nat_less_iff [where ?'a = int]]] n
      by (simp add: dc_rand_at_def r h3(1) del: of_nat_add of_nat_mult)
  next
    case False
    then have "r = []" using lr p by simp
    then have "h3 = h2" using h3(1) by (auto simp: wr_def split: if_splits)
    with False show ?thesis by simp
  qed
  have rd3_b: "rd h3 ?off 32 = Some b"
    using rd_wr_same [OF h1(1) b] rd_wr_other [OF h2(1), of ?off 32] rd_wr_other [OF h3(1), of ?off 32] rg(2) p lr by simp
  have rd3_p: "rd h3 ?key ?n = Some p"
    using rd_wr_same [OF h2(1) refl] rd_wr_other [OF h3(1), of ?key ?n] by simp
  obtain d where d: "rd h3 ?off ?is = Some d" using h3(2) rg(3) by (auto simp: rd_def)
  obtain s where s: "rd h3 ?key ?sz = Some s" using h3(2) rg(2,3) by (auto simp: rd_def)
  have d4: "rd h3 (?off + 4) (?is - 4) = Some (drop 4 d)"
    using rd_sub [OF d, of 4 "?is - 4"] ins length_rd [OF d] by simp
  define c where "c = crc32 (drop 4 d @ s)"
  have crc3: "slot_crc h3 ?off ?is ?key ?sz = Some c"
    unfolding c_def using d4 s ins rg(4) by (intro slot_crc_eq) auto
  obtain h4 where h4: "wr_u32 h3 ?off c = Some h4" "length h4 = length h"
    using wr_defined [of ?off "le_bytes 4 (unat c)" h3] h3(2) rg(3) ins by (auto simp: wr_u32_def)
  have o4: "j + n \<le> ?off \<or> ?off + 4 \<le> j \<Longrightarrow> rd h4 j n = rd h3 j n" for j n
    using rd_wr_other [OF h4(1) [unfolded wr_u32_def], of j n] by simp
  have crc4: "slot_crc h4 ?off ?is ?key ?sz = Some c"
    unfolding c_def using o4 [of "?off + 4" "?is - 4"] o4 [of ?key ?sz] d4 s ins rg(2,4) by (intro slot_crc_eq) auto
  have set: "cp_set_slot hs h (int i) (INFO b) (PAYLOAD p) (int ?n) w = Some ((ST_OK, h4), if ?n < ?sz then w1 else w)"
  proof -
    have si: "set_slot_info h ?off (INFO b) = Some h1"
      using h1(1) b ins by (simp add: set_slot_info_def rd_def min_def)
    have sp: "set_slot_payload hs h1 ?key ?sz (PAYLOAD p) (int ?n) w = Some (h3, if ?n < ?sz then w1 else w)"
      using h2(1) rand by (simp add: set_slot_payload_def rdi_def rd_def)
    have has: "cp_has_key_slots h" using fit by (simp add: slots_fit_def)
    show ?thesis
      using has i p si sp crc3 h4(1) by (simp add: cp_set_slot_def Let_def set_si_crc_def)
  qed
  have oth: "rd h4 j n = rd h j n"
    if "j + n \<le> ?key \<or> ?key + ?sz \<le> j" "j + n \<le> ?off \<or> ?off + 32 \<le> j" for j n
  proof -
    have "rd h4 j n = rd h3 j n" using that(2) by (intro o4) auto
    also have "\<dots> = rd h2 j n" using that(1) lr p by (intro rd_wr_other [OF h3(1)]) auto
    also have "\<dots> = rd h1 j n" using that(1) p by (intro rd_wr_other [OF h2(1)]) auto
    also have "\<dots> = rd h j n" using that(2) b by (intro rd_wr_other [OF h1(1)]) auto
    finally show ?thesis .
  qed
  have t: "take 1024 h4 = take 1024 h"
  proof -
    have "rd h4 0 1024 = rd h 0 1024" using rg(2) by (intro oth) auto
    then show ?thesis using fit h4(2) by (auto simp: rd_def slots_fit_def split: if_splits)
  qed
  note cong = slots_fit_cong [OF t h4(2) fit]
  have i4: "i < hd_key_slot_count h4" using i cong(5) by simp
  have pay: "cp_get_slot_payload h4 (int i) (Some dst) (int ?n) = Some (ST_OK, Some (p @ drop ?n dst))"
  proof -
    have "rdi h4 (1024 + nat (int i) * slot_size h4) (min (int ?n) (int (slot_size h4))) = Some p"
      using rd3_p o4 [of ?key ?n] rg(2) p by (simp add: rdi_def cong min_def)
    with cong(1) i4 p buf show ?thesis
      by (simp add: cp_get_slot_payload_def slots_fit_def cong wr_def)
  qed
  have d4': "rd h4 ?off ?is = Some (le_bytes 4 (unat c) @ drop 4 d)"
  proof -
    have "rd h4 ?off 4 = Some (le_bytes 4 (unat c))"
      using h4(1) unfolding wr_u32_def by (rule rd_wr_same) simp
    moreover have "rd h4 (?off + 4) (?is - 4) = Some (drop 4 d)" using o4 [of "?off + 4" "?is - 4"] d4 by simp
    ultimately show ?thesis using rd_join [of h4 ?off 4 _ "?is - 4"] ins by simp
  qed
  have "cp_get_slot_info h4 (int i) x = Some (ST_OK, take 32 (le_bytes 4 (unat c) @ drop 4 d))"
    using cong(1) i4 d4' crc4 wr_u32_rd [OF h4(1)] by (intro cp_get_slot_info_good) (simp_all add: cong)
  moreover have "take 32 d = b"
    using rd_sub [OF d, of 0 32] ins rd3_b by simp
  then have "take 32 (le_bytes 4 (unat c) @ drop 4 d) = le_bytes 4 (unat c) @ drop 4 b"
    using drop_take [of 4 32 d] by simp
  ultimately show ?thesis using set pay h4(2) oth by metis
qed

text \<open>Four bytes of descriptor and key material that are there to be read.\<close>

theorem cp_set_get_slot_witness:
  "\<exists>h' w' c. cp_set_slot host_ex slots_header 2 (INFO (replicate 32 1)) (PAYLOAD (replicate 192 9)) 192 world_ex = Some ((ST_OK, h'), w') \<and>
    cp_get_slot_payload h' 2 (Some (replicate 192 0)) 192 = Some (ST_OK, Some (replicate 192 9)) \<and>
    cp_get_slot_info h' 2 [] = Some (ST_OK, le_bytes 4 c @ replicate 28 1)"
proof -
  note f = slots_header_facts
  have fit: "slots_fit slots_header" and i: "2 < hd_key_slot_count slots_header" and sz: "slot_size slots_header = 192"
    using f by (simp_all add: slots_fit_def cp_has_key_slots_def slots_len_def slot_size_def DC_HDR_VERSION_2_def)
  show ?thesis
    using cp_set_get_slot [OF host_ex_ok fit i, of "replicate 32 1" "replicate 192 9" "replicate 192 0" world_ex "[]"] sz
    by fastforce
qed

lemma wr_take: "wr b off xs = Some b' \<Longrightarrow> rd b' off n = Some y \<Longrightarrow> n \<le> length xs \<Longrightarrow> y = take n xs"
  by (auto simp: wr_def rd_def split: if_splits)

text \<open>
  \<open>CP_SLOT_RANDOM\<close> with a length. \<^verbatim>\<open>head_util.h\<close> says that it fills the whole slot with random
  bytes, which is how a slot is erased; the code fills what lies behind the first \<open>len\<close> bytes and
  leaves those, the old key material, where they are. Only \<open>len = 0\<close> erases the slot.
\<close>

theorem cp_set_slot_random_keeps:
  assumes fit: "slots_fit h" and i: "i < hd_key_slot_count h" and n: "n \<le> slot_size h" and hs: "host_ok hs"
    and set: "cp_set_slot hs h (int i) INFO_NULL CP_SLOT_RANDOM (int n) w = Some ((ST_OK, h'), w')"
  shows "rd h' (1024 + i * slot_size h) n = rd h (1024 + i * slot_size h) n \<and>
    (n < slot_size h \<longrightarrow> rd h' (1024 + i * slot_size h + n) (slot_size h - n) = Some (fst (dc_rand hs (slot_size h - n) w)))"
proof -
  let ?sz = "slot_size h" and ?off = "slot_info_off h i" and ?key = "1024 + i * slot_size h"
  note rg = slot_regions [OF fit i]
  have has: "cp_has_key_slots h" using fit by (simp add: slots_fit_def)
  obtain h3 w3 c h4 where sp: "set_slot_payload hs h ?key ?sz CP_SLOT_RANDOM (int n) w = Some (h3, w3)"
    and h4: "wr_u32 h3 ?off c = Some h4" "h' = h4"
    using set has i n
    by (auto simp: cp_set_slot_def Let_def set_slot_info_def set_si_crc_def elim!: bind_SomeE)
  have o4: "rd h4 j m = rd h3 j m" if "j + m \<le> ?off" for j m
    using rd_wr_other [OF h4(1) [unfolded wr_u32_def], of j m] that by simp
  show ?thesis
  proof (cases "n < ?sz")
    case False
    then have "h3 = h" using sp by (simp add: set_slot_payload_def)
    then show ?thesis using False n h4(2) o4 [of ?key n] rg(2) by simp
  next
    case True
    have e: "nat (int ?key + int n) = ?key + n" "nat (int ?sz - int n) = ?sz - n"
      by (rule nat_int_add, simp)
    obtain r w1 where r: "dc_rand hs (?sz - n) w = (r, w1)" by force
    have lr: "length r = ?sz - n"
      using hs r by (auto simp: dc_rand_def host_ok_def split: prod.split_asm) (metis fst_conv)
    have nn: "\<not> int ?key + int n < 0" by (simp only: of_nat_add [symmetric])
    have "wr h (?key + n) r = Some h3"
      using sp r True unfolding set_slot_payload_def payload_arg.distinct simp_thms if_False payload_arg.case
        bind.bind_lunit if_P [OF True [folded of_nat_less_iff [where ?'a = int]]] if_not_P [OF nn] e
      by (auto simp: dc_rand_at_def)
    then have "rd h3 ?key n = rd h ?key n" and "rd h3 (?key + n) (?sz - n) = Some r"
      using rd_wr_other [of h "?key + n" r h3 ?key n] rd_wr_same [of h "?key + n" r h3] lr by auto
    then show ?thesis
      using h4(2) r True o4 [of ?key n] o4 [of "?key + n" "?sz - n"] rg(2) by simp
  qed
qed

theorem cp_set_slot_random_keeps_witness:
  "\<exists>h' w'. cp_set_slot host_ex slots_header 0 INFO_NULL CP_SLOT_RANDOM 192 world_ex = Some ((ST_OK, h'), w') \<and>
    rd h' 1024 192 = rd slots_header 1024 192"
proof -
  note f = slots_header_facts
  have fit: "slots_fit slots_header" and i: "0 < hd_key_slot_count slots_header" and sz: "slot_size slots_header = 192"
    and off: "slot_info_off slots_header 0 = 1792"
    using f by (simp_all add: slots_fit_def cp_has_key_slots_def slots_len_def slot_size_def DC_HDR_VERSION_2_def slot_info_off_def)
  have has: "cp_has_key_slots slots_header" using fit by (simp add: slots_fit_def)
  obtain d s where "rd slots_header (1792 + 4) (32 - 4) = Some d" "rd slots_header 1024 192 = Some s"
    using f(1) by (simp add: rd_def)
  from slot_crc_eq [OF this] obtain c where c: "slot_crc slots_header 1792 32 1024 192 = Some c" by simp
  obtain h' where "wr_u32 slots_header 1792 c = Some h'"
    using wr_defined [of 1792 "le_bytes 4 (unat c)" slots_header] f(1) by (auto simp: wr_u32_def)
  then have s: "cp_set_slot host_ex slots_header (int 0) INFO_NULL CP_SLOT_RANDOM (int 192) world_ex = Some ((ST_OK, h'), world_ex)"
    using has i sz off c f(9)
    by (simp add: cp_set_slot_def Let_def set_slot_info_def set_slot_payload_def set_si_crc_def)
  from cp_set_slot_random_keeps [OF fit i _ host_ex_ok s] s sz show ?thesis by auto
qed

end
