(* ===== verification/Header_Write.thy ===== *)
theory Header_Write
  imports Header_Io Key_Slots
begin

unbundle bit_operations_syntax

text \<open>
  What \<^verbatim>\<open>header_io.c\<close> writes and where: the range of a partial update, the bytes of a write as a slice of
  the sealed header that \<^verbatim>\<open>cp_encrypt_header\<close> computes, and the place of the extended header.
\<close>

section \<open>Rounding to sectors\<close>

lemma slots_len_bound: "slots_len h < 2 ^ 24 + 2 ^ 16"
proof -
  have "hd_key_slot_count h * hd_slot_info_size h \<le> 255 * 65535"
    using hd_bounds(3,4) [of h] by (intro mult_le_mono) auto
  then show ?thesis using hd_bounds(2) [of h] by (simp add: slots_len_def)
qed

text \<open>Rounding in 64 bits, in natural numbers.\<close>

lemma round_up_nat:
  fixes x b :: nat
  assumes "0 < b"
  shows "x \<le> (x + b - 1) div b * b" and "b dvd (x + b - 1) div b * b" and "(x + b - 1) div b * b < x + b"
proof -
  let ?q = "(x + b - 1) div b" and ?r = "(x + b - 1) mod b"
  have e: "?q * b + ?r = x + b - 1" by (rule div_mult_mod_eq)
  have r: "?r < b" using assms by simp
  show "x \<le> ?q * b" "?q * b < x + b" using e r by linarith+
qed simp

lemma unat_ROUND:
  fixes x b :: "'a :: len word"
  assumes "b \<noteq> 0" and "unat x + unat b \<le> 2 ^ LENGTH('a)"
  shows "\<exists>r. ROUND_TO_FULL_SECTORS x b = Some r \<and> unat r = (unat x + unat b - 1) div unat b * unat b"
proof -
  have b: "0 < unat b" using assms(1) by (simp add: unat_gt_0)
  have s: "unat (x + b - 1) = unat x + unat b - 1"
  proof -
    have "x + b - 1 = of_nat (unat x + unat b - 1)" using b by (simp add: of_nat_diff)
    then show ?thesis using assms(2) b by (simp only: unat_of_nat) simp
  qed
  have m: "(unat x + unat b - 1) div unat b * unat b < 2 ^ LENGTH('a)"
  proof -
    have "(unat x + unat b - 1) div unat b * unat b \<le> unat x + unat b - 1" by (rule div_times_less_eq_dividend)
    then show ?thesis using assms(2) b by linarith
  qed
  have "unat ((x + b - 1) div b * b) = (unat x + unat b - 1) div unat b * unat b"
    using m by (simp only: unat_word_ariths unat_div s mod_mult_left_eq mod_less)
  then show ?thesis using assms(1) by (simp add: ROUND_TO_FULL_SECTORS_def)
qed

section \<open>The range of a partial update\<close>

lemmas hf_defs = HF_UPDATE_BASE_def HF_UPDATE_SLOTS_def HF_UPDATE_EXT_def

lemma flag_clear [simp]:
  "flag (flags AND NOT HF_UPDATE_EXT) HF_UPDATE_BASE = flag flags HF_UPDATE_BASE"
  "flag (flags AND NOT HF_UPDATE_EXT) HF_UPDATE_SLOTS = flag flags HF_UPDATE_SLOTS"
  "\<not> flag (flags AND NOT HF_UPDATE_EXT) HF_UPDATE_EXT"
  "flag (flags AND NOT HF_UPDATE_SLOTS) HF_UPDATE_BASE = flag flags HF_UPDATE_BASE"
  "flag (flags AND NOT HF_UPDATE_SLOTS) HF_UPDATE_EXT = flag flags HF_UPDATE_EXT"
  "\<not> flag (flags AND NOT HF_UPDATE_SLOTS) HF_UPDATE_SLOTS"
  by (simp_all add: flag_def hf_defs and.assoc)

lemma flag_all: "flag flags HF_UPDATE_ALL \<longleftrightarrow> flag flags HF_UPDATE_BASE \<or> flag flags HF_UPDATE_SLOTS \<or> flag flags HF_UPDATE_EXT"
  by (simp add: flag_def HF_UPDATE_ALL_def bit.conj_disj_distrib or_eq_0_iff)

lemma update_ext_flags_Inr:
  assumes "update_ext_flags h flags len = Inr f"
  shows "flag f HF_UPDATE_BASE = flag flags HF_UPDATE_BASE" "flag f HF_UPDATE_SLOTS = flag flags HF_UPDATE_SLOTS"
    "flag f HF_UPDATE_EXT \<longleftrightarrow> flag flags HF_UPDATE_EXT \<and> hd_ext_hdr_off h \<noteq> 0"
    "flag f HF_UPDATE_EXT \<Longrightarrow> unat len \<le> hd_ext_hdr_off h \<and> hd_ext_hdr_off h + 10 < unat (hd_head_len h)"
proof -
  have u: "unat (of_nat (hd_ext_hdr_off h) :: u32) = hd_ext_hdr_off h"
    "unat (of_nat (hd_ext_hdr_off h) + of_nat MIN_EXT_HDR_SIZE :: u32) = hd_ext_hdr_off h + 10"
    using hd_bounds(1) [of h] by (simp_all add: MIN_EXT_HDR_SIZE_def unat_word_ariths unat_of_nat)
  show "flag f HF_UPDATE_BASE = flag flags HF_UPDATE_BASE" "flag f HF_UPDATE_SLOTS = flag flags HF_UPDATE_SLOTS"
    "flag f HF_UPDATE_EXT \<longleftrightarrow> flag flags HF_UPDATE_EXT \<and> hd_ext_hdr_off h \<noteq> 0"
    using assms by (auto simp: update_ext_flags_def split: if_split_asm)
  show "unat len \<le> hd_ext_hdr_off h \<and> hd_ext_hdr_off h + 10 < unat (hd_head_len h)" if "flag f HF_UPDATE_EXT"
    using assms that u by (auto simp: update_ext_flags_def word_less_nat_alt word_le_nat_alt split: if_split_asm)
qed

lemma update_slot_flags_Inr:
  assumes "update_slot_flags h flags len = Inr f"
  shows "flag f HF_UPDATE_BASE = flag flags HF_UPDATE_BASE" "flag f HF_UPDATE_EXT = flag flags HF_UPDATE_EXT"
    "flag f HF_UPDATE_SLOTS \<longleftrightarrow> flag flags HF_UPDATE_SLOTS \<and> has_slots_flag h"
    "flag f HF_UPDATE_SLOTS \<Longrightarrow> len < hd_head_len h"
  using assms by (auto simp: update_slot_flags_def split: if_split_asm)

lemma unat_ucast_32: "unat (x :: u64) < 2 ^ 32 \<Longrightarrow> unat (ucast x :: u32) = unat x"
  by (simp add: unsigned_ucast_eq take_bit_nat_eq_self)

lemma partial_range_facts:
  assumes bps: "bps \<noteq> 0" and sz: "1024 \<le> unat (hd_head_len h)" "unat bps + unat (hd_head_len h) \<le> 2 ^ 32"
    and p: "partial_range h bps flags = Some (WR_range off len, flags')"
  shows "unat off + unat len \<le> unat (hd_head_len h) \<and> unat bps dvd unat off \<and> unat bps dvd unat len \<and>
    (flag flags HF_UPDATE_BASE \<longrightarrow> unat off = 0 \<and> 1024 \<le> unat len) \<and>
    (flag flags HF_UPDATE_SLOTS \<and> has_slots_flag h \<longrightarrow> unat off \<le> 1024 \<and> 1024 + slots_len h \<le> unat off + unat len) \<and>
    (flag flags HF_UPDATE_EXT \<and> hd_ext_hdr_off h \<noteq> 0 \<longrightarrow>
       unat off \<le> hd_ext_hdr_off h \<and> unat off + unat len = unat (hd_head_len h))"
proof -
  let ?L = "(if has_slots_flag h then 1024 + of_nat (slots_len h) else 1024) :: u32"
  define b where "b = unat bps"
  define n where "n = unat (hd_head_len h)"
  have b0: "0 < b" using bps by (simp add: b_def unat_gt_0)
  have sl: "unat (1024 + of_nat (slots_len h) :: u32) = 1024 + slots_len h"
    using slots_len_bound [of h] by (simp add: unat_word_ariths unat_of_nat)
  from p obtain f1 where f1: "update_ext_flags h flags ?L = Inr f1"
    by (auto simp: partial_range_def Let_def split: sum.split_asm)
  from p f1 obtain f2 where f2: "update_slot_flags h f1 ?L = Inr f2"
    by (auto simp: partial_range_def Let_def split: sum.split_asm)
  note e = update_ext_flags_Inr [OF f1] and s = update_slot_flags_Inr [OF f2]
  define o0 where "o0 = (if flag f2 HF_UPDATE_BASE then 0 else if flag f2 HF_UPDATE_SLOTS then 1024 else hd_ext_hdr_off h)"
  define l1 where "l1 = (if flag f2 HF_UPDATE_EXT then n else if flag f2 HF_UPDATE_SLOTS then 1024 + slots_len h else 1024)"
  let ?start = "(if flag f2 HF_UPDATE_BASE then 0 else if flag f2 HF_UPDATE_SLOTS then 1024 else of_nat (hd_ext_hdr_off h)) :: u64"
  let ?stop = "if flag f2 HF_UPDATE_EXT then hd_head_len h else if flag f2 HF_UPDATE_SLOTS then 1024 + of_nat (slots_len h) else 1024"
  let ?o = "?start div ucast bps * ucast bps"
  have all: "flag f2 HF_UPDATE_ALL"
    using p f1 f2 by (auto simp: partial_range_def Let_def split: if_split_asm)
  from p f1 f2 all bps obtain r where r: "ROUND_TO_FULL_SECTORS (ucast ?stop - ?o) (ucast bps) = Some r"
    and le: "\<not> ucast (hd_head_len h) < ?o + ucast (ucast r :: u32)" and ol: "off = ?o" "len = ucast r"
    by (auto simp: partial_range_def Let_def elim!: bind_SomeE split: if_split_asm)
  have ub: "unat (ucast bps :: u64) = b" by (simp add: b_def unat_ucast32)
  have uo0: "unat ?start = o0" using hd_bounds(1) [of h] by (simp add: o0_def unat_of_nat)
  have ul1: "unat ?stop = l1" using sl by (simp add: l1_def n_def)
  have ul1': "unat (ucast ?stop :: u64) = l1" by (simp only: unat_ucast32 ul1)
  have o_le: "o0 div b * b \<le> o0" by (rule div_times_less_eq_dividend)
  have ord: "o0 \<le> l1" "l1 \<le> n"
    using all e s sl sz by (auto simp: o0_def l1_def n_def flag_all word_less_nat_alt)
  have n: "n < 4294967296" using sz b0 by (simp add: n_def b_def)
  have lt: "o0 div b * b < 18446744073709551616" using o_le ord n by linarith
  have uo: "unat ?o = o0 div b * b"
    using lt by (simp only: unat_word_ariths unat_div uo0 ub mod_mult_left_eq) simp
  have usub: "unat (ucast ?stop - ?o) = l1 - o0 div b * b"
    using o_le ord by (subst unat_sub) (simp_all only: word_le_nat_alt uo ul1')
  define rn where "rn = (l1 - o0 div b * b + b - 1) div b * b"
  have fit: "l1 - o0 div b * b + b \<le> 2 ^ 32" using ord sz by (simp add: n_def b_def)
  have ur: "unat r = rn"
    using unat_ROUND [of "ucast bps :: u64" "ucast ?stop - ?o"] r bps fit b0 unfolding usub ub rn_def
    by (auto simp: unat_gt_0 simp flip: ub)
  note rnd = round_up_nat [OF b0, of "l1 - o0 div b * b", folded rn_def]
  have ulen: "unat len = rn"
    using rnd(3) fit ur by (simp add: ol unat_ucast_32)
  have uoff: "unat off = o0 div b * b" using uo ol by simp
  have sum: "o0 div b * b + rn \<le> n"
  proof -
    have "rn < 4294967296" using rnd(3) fit by simp
    then have lt2: "o0 div b * b + rn < 18446744073709551616" using o_le ord n by linarith
    have "unat (?o + ucast (ucast r :: u32)) = o0 div b * b + rn"
      by (simp only: unat_word_ariths(1) uo unat_ucast32 ulen [unfolded ol]) (simp add: lt2)
    then show ?thesis using le by (simp add: word_less_nat_alt unat_ucast32 n_def)
  qed
  have cover: "l1 \<le> o0 div b * b + rn" using rnd(1) o_le ord by linarith
  show ?thesis
    unfolding uoff ulen b_def [symmetric] n_def [symmetric]
  proof (intro conjI impI)
    show "o0 div b * b + rn \<le> n" by (rule sum)
    show "b dvd o0 div b * b" by simp
    show "b dvd rn" by (rule rnd(2))
    assume "flag flags HF_UPDATE_BASE"
    then have "flag f2 HF_UPDATE_BASE" using e s by simp
    then show z: "o0 div b * b = 0" by (simp add: o0_def)
    show "1024 \<le> rn" using cover z sz by (auto simp: l1_def n_def split: if_split_asm)
  next
    assume "flag flags HF_UPDATE_SLOTS \<and> has_slots_flag h"
    then have f: "flag f2 HF_UPDATE_SLOTS" "has_slots_flag h" using e s by auto
    then have "o0 \<le> 1024" by (simp add: o0_def)
    then show "o0 div b * b \<le> 1024" using o_le by linarith
    have "1024 + slots_len h < n" using s(4) [OF f(1)] f(2) sl by (simp add: word_less_nat_alt n_def)
    then show "1024 + slots_len h \<le> o0 div b * b + rn" using cover f(1) by (auto simp: l1_def split: if_split_asm)
  next
    assume "flag flags HF_UPDATE_EXT \<and> hd_ext_hdr_off h \<noteq> 0"
    then have f: "flag f2 HF_UPDATE_EXT" using e s by auto
    then have "1024 \<le> hd_ext_hdr_off h" using e s sl by (auto split: if_split_asm)
    then have "o0 \<le> hd_ext_hdr_off h" by (simp add: o0_def)
    then show "o0 div b * b \<le> hd_ext_hdr_off h" using o_le by linarith
    show "o0 div b * b + rn = n" using cover f sum by (simp add: l1_def)
  qed
qed


section \<open>The sealed copy\<close>

lemma rd_append: "off + n \<le> length a \<Longrightarrow> rd (a @ b) off n = rd a off n"
  by (simp add: rd_def)

lemma wr_append: "off + length xs \<le> length a \<Longrightarrow> wr (a @ r) off xs = map_option (\<lambda>x. x @ r) (wr a off xs)"
  by (simp add: wr_def)

lemma copy_slots_append:
  "\<forall>i \<in> set is. 1024 + sz * i + sz \<le> length out \<Longrightarrow>
   copy_slots False h inp sz is (out @ r) = map_option (\<lambda>x. x @ r) (copy_slots False h inp sz is out)"
proof (induction "is" arbitrary: out)
  case (Cons i "is")
  show ?case
  proof (cases "si_flags h (slot_info_off h i)")
    case (Some f)
    show ?thesis
    proof (cases "f AND SF_DISABLED = 0")
      case True
      show ?thesis
      proof (cases "rd inp (1024 + sz * i) sz")
        case s: (Some s)
        then have l: "1024 + sz * i + length s \<le> length out" using Cons.prems by (simp add: length_rd)
        then obtain o1 where o1: "wr out (1024 + sz * i) s = Some o1" "length o1 = length out" using wr_defined by blast
        with Some True s l Cons.prems Cons.IH [of o1] show ?thesis by (simp add: wr_append)
      qed (simp add: Some True del: rd_eq_None_iff)
    next
      case False
      with Some Cons show ?thesis by simp
    qed
  qed simp
qed simp

lemma slot_in_area: "i < hd_key_slot_count h \<Longrightarrow> 1024 + slot_size h * i + slot_size h \<le> 1024 + hd_slot_area_len h"
proof -
  assume "i < hd_key_slot_count h"
  then have "slot_size h * i + slot_size h \<le> slot_size h * hd_key_slot_count h"
    by (metis Suc_leI mult_Suc_right mult_le_mono2 add.commute)
  then show ?thesis using slot_size_area [of h] by linarith
qed

lemma cp_copy_keylots_append:
  assumes "unat (hd_head_len h) \<le> length out"
  shows "map_option snd (cp_copy_keylots False h inp (out @ r)) =
    map_option (\<lambda>x. x @ r) (map_option snd (cp_copy_keylots False h inp out))"
proof (cases "\<not> has_slots_flag h \<or> hd_key_slot_count h = 0 \<or>
    unat (hd_head_len h) < DC_BASE_SIZE + hd_slot_area_len h + hd_key_slot_count h * hd_slot_info_size h")
  case True
  then show ?thesis by (auto simp: cp_copy_keylots_def)
next
  case False
  then have "\<forall>i \<in> set [0..<hd_key_slot_count h]. 1024 + slot_size h * i + slot_size h \<le> length out"
    using slot_in_area [of _ h] assms by fastforce
  from copy_slots_append [OF this, of h inp r] False show ?thesis
    by (auto simp: cp_copy_keylots_def slot_size_def Let_def split: bind_split)
qed

lemma sealed_plain: "\<not> has_slots_flag h \<Longrightarrow> length (hd_salt h @ drop 64 E) = length h \<Longrightarrow> sealed h E = hd_salt h @ drop 64 E"
  unfolding sealed_def by (intro nth_equalityI) (auto simp: copied_def)

text \<open>Sealing the copy for a write: what the write covers is a slice of the sealed header.\<close>

lemma write_seal_slice:
  assumes h: "2048 \<le> length h" "length h < 2 ^ 31" and lay: "layout_ok h" and head: "unat (hd_head_len h) = length h"
    and E: "xts_encrypt (h_core hs) h (u64_of_int (int (length h))) 0 key = Some E" "length E = length h"
    and p: "wp_header p = h" "wp_mem_len p = int (length h)" "\<not> flag (wp_flags p) HF_CLEAR_SLOTS"
    and rg: "unat (wp_offset p) + unat (wp_length p) \<le> length h"
  shows "\<exists>X. write_seal hs p key (hd_salt h) (h @ r) w = Some (X @ r, w) \<and>
    rd (X @ r) (unat (wp_offset p)) (unat (wp_length p)) =
      Some (take (unat (wp_length p)) (drop (unat (wp_offset p)) (sealed h E)))"
proof -
  let ?P = "hd_salt h @ drop 64 E" and ?off = "wp_offset p" and ?len = "wp_length p"
  have lP: "length ?P = length h" using h(1) E(2) by (simp add: hd_salt_def)
  have ls: "length (sealed h E) = length h" by (rule sealed_bytes(1) [OF h(1) E(2)])
  have w1: "wr (h @ r) 0 E = Some (E @ r)" using E(2) by (simp add: wr_def)
  have w2: "wr (E @ r) 0 (hd_salt h) = Some (?P @ r)" using h(1) E(2) by (simp add: wr_def hd_salt_def)
  have sum: "unat (?off + ucast ?len) = unat ?off + unat ?len"
    using rg h(2) by (simp add: unat_word_ariths unat_ucast32)
  have area: "unat (of_nat (1024 + hd_slot_area_len h) :: u64) = 1024 + hd_slot_area_len h"
    using hd_bounds(2) [of h] by (simp only: unat_of_nat) simp
  have gap: "\<not> u64_of_int (int (length h)) < ?off + ucast ?len"
    using rg h(2) by (simp add: word_less_nat_alt sum u64_of_int_length)
  have v: "DC_HDR_VERSION_2 \<le> hd_version h" using lay by (simp add: layout_ok_def)
  define cond where "cond \<longleftrightarrow> has_slots_flag h \<and> 1024 < unat ?off + unat ?len \<and> unat ?off < 1024 + hd_slot_area_len h"
  have c: "(DC_HDR_VERSION_2 \<le> hd_version h \<and> \<not> flag (wp_flags p) HF_CLEAR_SLOTS \<and> has_slots_flag h \<and>
      1024 < ?off + ucast ?len \<and> ?off < of_nat (1024 + hd_slot_area_len h)) \<longleftrightarrow> cond"
    using v p(3) by (simp add: cond_def word_less_nat_alt sum area del: of_nat_add)
  have cp: "map_option snd (cp_copy_keylots False h h (?P @ r)) = Some (sealed h E @ r)"
  proof (cases "has_slots_flag h")
    case True
    have "map_option snd (cp_copy_keylots False h h ?P) = Some (sealed h E)"
      using True lay lP by (simp add: cp_copy_keylots_overlay layout_ok_def sealed_def)
    moreover have "unat (hd_head_len h) \<le> length ?P" using head lP by simp
    ultimately show ?thesis by (simp only: cp_copy_keylots_append option.map)
  next
    case False
    then show ?thesis using sealed_plain [OF False lP] by (simp add: cp_copy_keylots_def)
  qed
  define X where "X = (if cond then sealed h E else ?P)"
  have lX: "length X = length h" using ls lP by (simp add: X_def)
  have run: "write_seal hs p key (hd_salt h) (h @ r) w = Some (X @ r, w)"
    unfolding write_seal_def p Let_def nat_int c if_not_P [OF gap]
    using w1 w2 cp E(1) by (auto simp: X_def)
  have same: "X ! q = sealed h E ! q" if "unat ?off \<le> q" "q < unat ?off + unat ?len" for q
  proof (cases cond)
    case False
    have "\<not> copied h q"
      using that False in_slots_area [of h q] by (auto simp: cond_def copied_def)
    then show ?thesis using that rg lP False by (simp add: X_def sealed_def)
  qed (simp add: X_def)
  have "rd (X @ r) (unat ?off) (unat ?len) = Some (take (unat ?len) (drop (unat ?off) (sealed h E)))"
    using rg lX ls same by (auto simp: rd_append rd_def intro!: nth_equalityI)
  with run show ?thesis by blast
qed


section \<open>Writing\<close>

lemma flag_clear_keep [simp]:
  "flag (flags AND NOT HF_UPDATE_EXT) HF_CLEAR_SLOTS = flag flags HF_CLEAR_SLOTS"
  "flag (flags AND NOT HF_UPDATE_SLOTS) HF_CLEAR_SLOTS = flag flags HF_CLEAR_SLOTS"
  by (simp_all add: flag_def hf_defs HF_CLEAR_SLOTS_def and.assoc)

lemma partial_range_flags:
  "partial_range h bps flags = Some (g, flags') \<Longrightarrow> flag flags' HF_CLEAR_SLOTS = flag flags HF_CLEAR_SLOTS"
  by (auto simp: partial_range_def update_ext_flags_def update_slot_flags_def Let_def
      split: if_split_asm sum.split_asm elim!: bind_SomeE)

lemma ROUND_exact:
  fixes x b :: "'a :: len word"
  assumes "b \<noteq> 0" and "unat x + unat b \<le> 2 ^ LENGTH('a)" and "unat b dvd unat x"
  shows "ROUND_TO_FULL_SECTORS x b = Some x"
proof -
  obtain r where r: "ROUND_TO_FULL_SECTORS x b = Some r" "unat r = (unat x + unat b - 1) div unat b * unat b"
    using unat_ROUND [OF assms(1,2)] by auto
  have b: "0 < unat b" using assms(1) by (simp add: unat_gt_0)
  from assms(3) obtain k where k: "unat x = unat b * k" by (elim dvdE)
  have "unat x + unat b - 1 = unat b - 1 + unat b * k" using b k by simp
  then have "(unat x + unat b - 1) div unat b = k" using b by (simp only: div_mult_self2) simp
  with r k show ?thesis by (simp add: word_unat_eq_iff mult.commute)
qed

text \<open>What a write with these flags covers.\<close>

definition write_range_of :: "buf \<Rightarrow> u32 \<Rightarrow> u32 \<Rightarrow> (write_range \<times> u32) option" where
  "write_range_of h bps flags =
     (if flag flags HF_UPDATE_ALL \<and> flags AND HF_UPDATE_ALL \<noteq> HF_UPDATE_ALL then partial_range h bps flags
      else Some (WR_range 0 (hd_head_len h), flags))"

text \<open>A header the write accepts: of the second version, valid, in a buffer of its length, whole sectors long.\<close>

definition writable :: "buf \<Rightarrow> u32 \<Rightarrow> bool" where
  "writable h bps \<longleftrightarrow> layout_ok h \<and> is_volume_header_correct h = Some True \<and> unat (hd_head_len h) = length h \<and>
     2048 \<le> length h \<and> length h < 2 ^ 31 \<and> 512 dvd length h \<and>
     bps \<noteq> 0 \<and> unat bps dvd length h \<and> unat bps + length h \<le> 2 ^ 32"

lemma sint_small: "unat (x :: u32) < 2 ^ 31 \<Longrightarrow> sint x = int (unat x)"
proof -
  assume "unat x < 2 ^ 31"
  then have "int (unat x) < int (2 ^ 31)" by (rule of_nat_less_iff [THEN iffD2])
  then have "uint x < 2 ^ 31" by simp
  then have "signed_take_bit 31 (uint x) = uint x" using uint_ge_0 [of x] by (intro signed_take_bit_int_eq_self) linarith+
  then show ?thesis by (simp add: sint_uint)
qed

lemma write_decide_eq:
  assumes wr: "writable h bps" and clear: "\<not> flag flags HF_CLEAR_SLOTS"
  shows "write_decide hs bps h True flags w =
    (case write_range_of h bps flags of
       None \<Rightarrow> None
     | Some (WR_return e, _) \<Rightarrow> Some (Inl e, w)
     | Some (WR_range off len, f) \<Rightarrow>
         Some (Inr \<lparr>wp_offset = off, wp_length = len, wp_hdr_len = int (length h), wp_mem_len = int (length h),
                    wp_flags = f, wp_header = h\<rparr>, w))"
proof -
  have n: "unat (hd_head_len h) = length h" "length h < 2 ^ 31" and v: "\<not> hd_version h < DC_HDR_VERSION_2"
    using wr by (auto simp: writable_def layout_ok_def)
  have r: "ROUND_TO_FULL_SECTORS (hd_head_len h) bps = Some (hd_head_len h)"
    using wr by (intro ROUND_exact) (simp_all add: writable_def)
  have a: "\<exists>area. ROUND_TO_FULL_SECTORS 2048 bps = Some area"
    using wr by (simp add: writable_def ROUND_TO_FULL_SECTORS_def)
  have s: "sint (hd_head_len h) = int (length h)"
    using n sint_small [of "hd_head_len h"] by simp
  show ?thesis
    using a r v clear partial_range_flags [of h bps flags]
    by (auto simp: write_decide_def write_range_of_def s split: option.split prod.split write_range.split)
qed


lemma io_write_header_eq:
  assumes hs: "host_ok hs" and wr: "writable h (dev_bps dev)" and key: "xts_set_key dk alg k0 = Some (1, key)"
    and pass: "\<forall>p. pass = Some p \<longrightarrow> p_size p \<noteq> 0" and clear: "\<not> flag flags HF_CLEAR_SLOTS"
    and mem: "dc_alloc hs (max (length h) 4096) w = (Some b, w1)"
    and E: "xts_encrypt (h_core hs) h (u64_of_int (int (length h))) 0 key = Some E" "length E = length h"
    and k: "xk_encrypt key \<noteq> XTS_NONE"
  shows "io_write_header hs dev rw pos h (Some key) pass flags w =
    (case write_range_of h (dev_bps dev) flags of
       None \<Rightarrow> None
     | Some (WR_return e, _) \<Rightarrow> Some ((e, h), w)
     | Some (WR_range off len, _) \<Rightarrow>
         (case rw_write rw (take (unat len) (drop (unat off) (sealed h E))) (off + pos) (env w1) of
            (resl, e) \<Rightarrow> Some ((resl, h), dc_free hs (w1\<lparr>env := e\<rparr>))))"
proof -
  let ?n = "length h"
  have n: "2048 \<le> ?n" "?n < 2 ^ 31" "512 dvd ?n" "unat (hd_head_len h) = ?n" and lay: "layout_ok h"
    and ok: "is_volume_header_correct h = Some True" and bps: "dev_bps dev \<noteq> 0"
    using wr by (auto simp: writable_def)
  have lb: "length b = max ?n 4096"
    using hs mem by (auto simp: host_ok_def dc_alloc_def split: prod.split_asm option.split_asm)
  have sz: "size_of_int (max (int ?n) 4096) = max ?n 4096"
  proof -
    have "int (max ?n 4096) mod 2 ^ 64 = int (max ?n 4096)" using n(2) by (intro mod_pos_pos_trivial) auto
    then show ?thesis by (simp add: size_of_int_def)
  qed
  have w0: "wr b 0 h = Some (h @ drop ?n b)" using lb by (simp add: wr_def)
  have r0: "rdi h 0 (int ?n) = Some h" by (simp add: rdi_def rd_def)
  have v: "DC_HDR_VERSION_2 \<le> hd_version h" "0 \<le> hd_footer_cnt h" using lay by (simp_all add: layout_ok_def)
  have okc: "is_volume_header_correct (h @ drop ?n b) = Some True"
    using is_volume_header_correct_cong [of h "h @ drop ?n b"] n(1) v ok by simp
  have m: "int ?n mod 512 = 0" using n(3) by (auto elim!: dvdE)
  have a: "\<exists>area. ROUND_TO_FULL_SECTORS (2048 :: u32) (dev_bps dev) = Some area"
    using bps by (simp add: ROUND_TO_FULL_SECTORS_def)
  have ps: "(case pass of None \<Rightarrow> False | Some p \<Rightarrow> p_size p = 0) = False" using pass by (cases pass) auto
  show ?thesis
  proof (cases "write_range_of h (dev_bps dev) flags")
    case None
    then show ?thesis using a k ps by (auto simp: io_write_header_def write_decide_eq [OF wr clear])
  next
    case (Some gf)
    obtain g f where gf: "gf = (g, f)" by (cases gf)
    show ?thesis
    proof (cases g)
      case (WR_return e)
      then show ?thesis using Some gf a k ps by (auto simp: io_write_header_def write_decide_eq [OF wr clear])
    next
      case (WR_range off len)
      note rg = Some [unfolded gf WR_range]
      let ?p = "\<lparr>wp_offset = off, wp_length = len, wp_hdr_len = int ?n, wp_mem_len = int ?n, wp_flags = f, wp_header = h\<rparr>"
      have cf: "\<not> flag f HF_CLEAR_SLOTS" and le: "unat off + unat len \<le> ?n"
        using rg clear partial_range_flags [of h "dev_bps dev" flags "WR_range off len" f]
          partial_range_facts [of "dev_bps dev" h flags off len f] wr
        by (auto simp: write_range_of_def writable_def split: if_split_asm)
      obtain X where X: "write_seal hs ?p key (hd_salt h) (h @ drop ?n b) w1 = Some (X @ drop ?n b, w1)"
        "rd (X @ drop ?n b) (unat off) (unat len) = Some (take (unat len) (drop (unat off) (sealed h E)))"
        using write_seal_slice [OF n(1,2) lay n(4) E, of ?p "drop ?n b" w1] cf le by auto
      have d: "write_decide hs (dev_bps dev) h True flags w = Some (Inr ?p, w)"
        by (simp add: write_decide_eq [OF wr clear] rg)
      show ?thesis
        unfolding rg option.case prod.case write_range.case
        using a k ps
        by (auto simp: io_write_header_def d Let_def m sz mem r0 w0 okc write_key_def X dc_free_opt_def dev_write_def split: prod.split)
    qed
  qed
qed

lemma header_key_seals:
  assumes core: "aes_core_ok core" and key: "xts_set_key dk alg k0 = Some (1, key)"
    and l: "2048 \<le> length h" "512 dvd length h" "length h < 2 ^ 64"
  shows "\<exists>E. xts_encrypt core h (u64_of_int (int (length h))) 0 key = Some E \<and> length E = length h \<and> xk_encrypt key \<noteq> XTS_NONE"
proof -
  let ?len = "u64_of_int (int (length h))"
  have pairs: "(xk_encrypt key, xk_decrypt key) \<in> set xts_pairs" using key by (rule xts_set_key_pairs)
  have sc: "sector_cipher (\<lambda>P len off. xts_encrypt core P len off key) (\<lambda>C len off. xts_decrypt core C len off key)"
    unfolding xts_encrypt_def xts_decrypt_def using core pairs by (rule xts_call_sector_cipher)
  have ul: "unat ?len = length h" using l(3) by (rule u64_of_int_length)
  have okl: "xts_len_ok ?len h" using ul l(1,2) by (auto simp: xts_len_ok_def simp flip: unat_eq_zero)
  obtain E where "xts_encrypt core h ?len 0 key = Some E" "length E = length h"
    by (rule sector_cipher.encE [OF sc okl ul])
  with pairs show ?thesis by (auto simp: xts_pairs_def)
qed

text \<open>
  C33: a partial update covers what it was asked for and nothing outside of the header. The range
  starts and ends on sectors and inside \<^verbatim>\<open>head_len\<close>; it holds the base, the slots with their
  descriptors, and the header from the extended header to its end, as far as the flags name them and
  the header has them.
\<close>

theorem partial_range_covers:
  assumes "bps \<noteq> 0" and "1024 \<le> unat (hd_head_len h)" "unat bps + unat (hd_head_len h) \<le> 2 ^ 32"
    and "partial_range h bps flags = Some (WR_range off len, flags')"
  shows "unat off + unat len \<le> unat (hd_head_len h) \<and> unat bps dvd unat off \<and> unat bps dvd unat len \<and>
    (flag flags HF_UPDATE_BASE \<longrightarrow> unat off = 0 \<and> 1024 \<le> unat len) \<and>
    (flag flags HF_UPDATE_SLOTS \<and> has_slots_flag h \<longrightarrow> unat off \<le> 1024 \<and> 1024 + slots_len h \<le> unat off + unat len) \<and>
    (flag flags HF_UPDATE_EXT \<and> hd_ext_hdr_off h \<noteq> 0 \<longrightarrow>
       unat off \<le> hd_ext_hdr_off h \<and> unat off + unat len = unat (hd_head_len h))"
  using assms by (rule partial_range_facts)

lemma slots_header_range: "partial_range slots_header 512 HF_UPDATE_SLOTS = Some (WR_range 1024 1024, HF_UPDATE_SLOTS)"
  using slots_header_facts
  by (simp add: partial_range_def update_ext_flags_def update_slot_flags_def flag_def hf_defs HF_UPDATE_ALL_def slots_len_def
      ROUND_TO_FULL_SECTORS_def Let_def)

theorem partial_range_covers_witness:
  "partial_range slots_header 512 HF_UPDATE_SLOTS = Some (WR_range 1024 1024, HF_UPDATE_SLOTS) \<and>
   1024 + slots_len slots_header \<le> 2048"
  using partial_range_covers [OF _ _ _ slots_header_range] slots_header_range slots_header_facts
  by (simp add: flag_def hf_defs)



section \<open>The extended header\<close>

text \<open>The size the extended header states, and where the slots and their descriptors end.\<close>

definition ext_field :: "buf \<Rightarrow> nat \<Rightarrow> nat" where
  "ext_field h off = unat (fld_u32 h off)"

definition slots_end :: "buf \<Rightarrow> nat" where
  "slots_end h = 1024 + (if has_slots_flag h then slots_len h else 0)"

text \<open>The decision in natural numbers: only the sum is taken modulo \<open>2 ^ 32\<close>.\<close>

definition ext_header_spec :: "buf \<Rightarrow> (dc_status + nat) option" where
  "ext_header_spec h =
     (let off = hd_ext_hdr_off h; sz = ext_field h (off + 4); n = unat (hd_head_len h) in
      if hd_version h < DC_HDR_VERSION_2 \<or> off = 0 then Some (Inl ST_INCOMPATIBLE)
      else if off < slots_end h \<or> n < off + 10 then Some (Inl ST_INV_VOLUME)
      else if sz < 10 \<or> n < (off + sz) mod 2 ^ 32 then Some (Inl ST_INV_VOLUME)
      else if length h < off + sz then None
      else if fld_u32 h off = crc32 (take (sz - 4) (drop (off + 4) h)) then Some (Inr off)
      else Some (Inl ST_INV_VOLUME))"

lemma rd_u32_fld: "off + 4 \<le> length h \<Longrightarrow> rd_u32 h off = Some (fld_u32 h off)"
  by (simp add: rd_u32_def rd_def fld_u32_def)

lemma get_ext_header_eq:
  assumes head: "unat (hd_head_len h) \<le> length h" 
  shows "get_ext_header h = ext_header_spec h"
proof (cases "hd_version h < DC_HDR_VERSION_2 \<or> hd_ext_hdr_off h = 0")
  case False
  define off where "off = hd_ext_hdr_off h"
  define sz where "sz = fld_u32 h (off + 4)"
  have o: "off < 65536" by (simp add: off_def hd_bounds)
  have u: "unat (of_nat off :: u32) = off" using o by (simp add: unat_of_nat)
  have u10: "unat (of_nat off + of_nat MIN_EXT_HDR_SIZE :: u32) = off + 10"
    using o by (simp add: MIN_EXT_HDR_SIZE_def unat_word_ariths unat_of_nat)
  have us: "unat (of_nat off + sz) = (off + unat sz) mod 2 ^ 32"
    by (simp add: unat_word_ariths u)
  have z10: "sz < of_nat MIN_EXT_HDR_SIZE \<longleftrightarrow> unat sz < 10"
    by (simp add: MIN_EXT_HDR_SIZE_def word_less_nat_alt)
  show ?thesis
  proof (cases "off < slots_end h \<or> unat (hd_head_len h) < off + 10")
    case True
    with False u10 show ?thesis
      by (auto simp: get_ext_header_def ext_header_spec_def Let_def slots_end_def word_less_nat_alt simp flip: off_def)
  next
    case ok: False
    then have r: "rd_u32 h (off + 4) = Some sz" "rd_u32 h off = Some (fld_u32 h off)"
      using head by (simp_all add: rd_u32_fld sz_def)
    have d: "unat (sz - 4) = unat sz - 4" if "10 \<le> unat sz"
      using that by (subst unat_sub) (simp_all add: word_le_nat_alt)
    have rr: "rd h (off + 4) (unat sz - 4) = (if length h < off + unat sz then None else Some (take (unat sz - 4) (drop (off + 4) h)))"
      if "10 \<le> unat sz" using that by (auto simp: rd_def)
    show ?thesis
    proof (cases "unat sz < 10 \<or> unat (hd_head_len h) < (off + unat sz) mod 2 ^ 32")
      case True
      then have c: "hd_head_len h < of_nat off + sz \<or> sz < of_nat MIN_EXT_HDR_SIZE"
        using z10 us by (simp add: word_less_nat_alt) blast
      from False ok u10 r True show ?thesis
        unfolding get_ext_header_def ext_header_spec_def Let_def off_def [symmetric] ext_field_def sz_def [symmetric]
        by (simp add: slots_end_def word_less_nat_alt c [unfolded word_less_nat_alt])
    next
      case good: False
      then have c: "\<not> (hd_head_len h < of_nat off + sz \<or> sz < of_nat MIN_EXT_HDR_SIZE)"
        using z10 us by (simp add: word_less_nat_alt)
      from False ok u10 r good d rr show ?thesis
        unfolding get_ext_header_def ext_header_spec_def Let_def off_def [symmetric] ext_field_def sz_def [symmetric]
        by (auto simp: slots_end_def word_less_nat_alt c [unfolded word_less_nat_alt])
    qed
  qed
qed (auto simp: get_ext_header_def ext_header_spec_def Let_def)

text \<open>A header whose extended header claims \<open>2 ^ 32 - 16\<close> bytes.\<close>

definition ext_header :: buf where
  "ext_header = make_header (replicate 540 0 @ [0, 8, 0, 0] @ replicate 10 0 @ [0, 0, 0, 0] @ [0, 4] @ replicate 394 0 @
     [0xF0, 0xFF, 0xFF, 0xFF] @ replicate 1016 0)"

lemma ext_header_facts:
  "length ext_header = 2048" "hd_version ext_header = 3" "hd_head_len ext_header = 2048"
  "hd_ext_hdr_off ext_header = 1024" "\<not> has_slots_flag ext_header" "ext_field ext_header 1028 = 4294967280"
proof -
  let ?rest = "replicate 540 0 @ [0, 8, 0, 0] @ replicate 10 0 @ [0, 0, 0, 0] @ [0, 4] @ replicate 394 0 @ [0xF0, 0xFF, 0xFF, 0xFF] @ replicate 1016 0 :: u8 list"
  have r: "length ?rest = 1974" "?rest ! 553 = 0" by (simp_all add: nth_append)
  show "length ext_header = 2048" using make_header_correct [OF r] by (simp only: ext_header_def)
  show "hd_version ext_header = 3" "hd_head_len ext_header = 2048" "hd_ext_hdr_off ext_header = 1024"
    "\<not> has_slots_flag ext_header" "ext_field ext_header 1028 = 4294967280"
    by (simp_all add: ext_header_def make_header_def Let_def hd_version_def hd_head_len_def hd_ext_hdr_off_def
        has_slots_flag_def hd_feature_flags_def FF_KEY_SLOTS_def ext_field_def fld_u16_def fld_u32_def nth_append)
qed

text \<open>
  C35: the extended header. When \<^verbatim>\<open>get_ext_header\<close> returns one, it lies behind the slots and their
  descriptors, has at least its 10 fixed bytes, ends inside the header and has the checksum it states.
  The call reads outside of the header exactly when offset and size together reach \<open>2 ^ 32\<close> and their
  sum modulo \<open>2 ^ 32\<close> passes the bounds check.
\<close>

theorem get_ext_header_bounds:
  assumes head: "unat (hd_head_len h) \<le> length h" and small: "length h < 2 ^ 31"
  shows "let off = hd_ext_hdr_off h; sz = ext_field h (off + 4); n = unat (hd_head_len h) in
    (get_ext_header h = Some (Inr off') \<longrightarrow>
       off' = off \<and> slots_end h \<le> off \<and> 10 \<le> sz \<and> off + sz \<le> n \<and>
       fld_u32 h off = crc32 (take (sz - 4) (drop (off + 4) h))) \<and>
    (get_ext_header h = None \<longleftrightarrow>
       DC_HDR_VERSION_2 \<le> hd_version h \<and> off \<noteq> 0 \<and> slots_end h \<le> off \<and> off + 10 \<le> n \<and>
       2 ^ 32 \<le> off + sz \<and> off + sz - 2 ^ 32 \<le> n)"
proof -
  define off where "off = hd_ext_hdr_off h"
  define n where "n = unat (hd_head_len h)"
  let ?sz = "ext_field h (off + 4)"
  have o: "off < 65536" by (simp add: off_def hd_bounds)
  have z: "?sz < 2 ^ 32" using unsigned_less [of "fld_u32 h (off + 4)", where ?'a = nat] by (simp add: ext_field_def)
  have m: "(off + ?sz) mod 2 ^ 32 = (if off + ?sz < 2 ^ 32 then off + ?sz else off + ?sz - 2 ^ 32)"
    using o z by (simp add: le_mod_geq)
  have w: "\<not> off + ?sz < 2 ^ 32 \<Longrightarrow> 10 \<le> ?sz" using o by simp
  note eq = get_ext_header_eq [OF head, unfolded ext_header_spec_def Let_def, folded off_def n_def, unfolded m]
  have "get_ext_header h = Some (Inr off') \<longrightarrow> off' = off \<and> slots_end h \<le> off \<and>
      10 \<le> ?sz \<and> off + ?sz \<le> n \<and> fld_u32 h off = crc32 (take (?sz - 4) (drop (off + 4) h))"
    unfolding eq using small head [folded n_def] by (auto split: if_split_asm)
  moreover have "get_ext_header h = None \<longleftrightarrow>
      DC_HDR_VERSION_2 \<le> hd_version h \<and> off \<noteq> 0 \<and> slots_end h \<le> off \<and> off + 10 \<le> n \<and>
      2 ^ 32 \<le> off + ?sz \<and> off + ?sz - 2 ^ 32 \<le> n"
    unfolding eq using small head [folded n_def] w by auto
  ultimately show ?thesis unfolding Let_def off_def [symmetric] n_def [symmetric] by blast
qed

theorem get_ext_header_bounds_witness: "get_ext_header ext_header = None"
  using get_ext_header_bounds [of ext_header 0] by (simp add: ext_header_facts slots_end_def DC_HDR_VERSION_2_def Let_def)

end
