(* ===== verification/Volume_Head.thy ===== *)
theory Volume_Head
  imports Key_Slots
begin

unbundle bit_operations_syntax

text \<open>
  \<^verbatim>\<open>volume_lib/volume_head.c\<close>: re-wrapping all slots for a new password, setting the password of one
  slot, and the two operations on the backup header at the end of the device.
\<close>

section \<open>The slots of one header\<close>

text \<open>
  The loop of \<^verbatim>\<open>dc_update_key_slots\<close>: the status (the loop breaks at the first slot of an unknown
  type), the header, and how many slots are in use.
\<close>

fun update_slots ::
  "'w host \<Rightarrow> u8 list \<Rightarrow> u8 list \<Rightarrow> nat \<Rightarrow> nat list \<Rightarrow> buf \<Rightarrow> nat \<Rightarrow> 'w world \<Rightarrow>
   ((dc_status \<times> buf \<times> nat) \<times> 'w world) option" where
  "update_slots hs old_dk new_dk sz [] h used w = Some ((ST_OK, h, used), w)"
| "update_slots hs old_dk new_dk sz (i # is) h used w =
     (let key = DC_BASE_SIZE + sz * i; off = slot_info_off h i; info_size = hd_slot_info_size h in do {
        flags \<leftarrow> si_flags h off;
        if flags AND SF_ACTIVE \<noteq> 0 \<and> flags AND SF_CORRUPT = 0 then do {
          info \<leftarrow> rdi h (off + 4) (int info_size - 4);
          c \<leftarrow> slot_crc h off info_size key sz;
          crc \<leftarrow> si_crc h off;
          if crc = c then do {
            type \<leftarrow> si_type h off;
            (ok, h) \<leftarrow> cp_swap_slot_key h key old_dk new_dk (uint type);
            if \<not> ok then Some ((ST_SLOT_NOT_OK, h, used), w)
            else do {
              s \<leftarrow> rd h key sz;
              c \<leftarrow> crc32_combine (crc32 info) (crc32 s) (of_nat sz);
              h \<leftarrow> set_si_crc h off c;
              update_slots hs old_dk new_dk sz is h (used + 1) w } }
          else do {
            h \<leftarrow> set_si_flags h off (flags OR SF_CORRUPT);
            (h, w) \<leftarrow> dc_rand_at hs h key sz w;
            h \<leftarrow> set_si_crc h off 0;
            update_slots hs old_dk new_dk sz is h used w } }
        else do {
          (h, w) \<leftarrow> dc_rand_at hs h key sz w;
          h \<leftarrow> set_si_crc h off 0;
          update_slots hs old_dk new_dk sz is h used w } })"

text \<open>
  The results of the two derivations are not checked: a failed one leaves the array on the stack as
  it was, \<open>h_dk_mem\<close>. The key is the one left in \<^verbatim>\<open>*hdr_key\<close>, \<open>None\<close> when no slot is in use.
\<close>

definition dc_update_key_slots ::
  "'w host \<Rightarrow> buf \<Rightarrow> dc_pass \<Rightarrow> dc_pass \<Rightarrow> 'w world \<Rightarrow> ((dc_status \<times> buf \<times> xts_key option) \<times> 'w world) option" where
  "dc_update_key_slots hs header old_pass new_pass w = do {
     (old_dk, w) \<leftarrow> dc_derive_key hs old_pass (p_kdf old_pass) (hd_salt header) w;
     (new_dk, w) \<leftarrow> dc_derive_key hs new_pass (p_kdf new_pass) (hd_salt header) w;
     let old_dk = (case old_dk of None \<Rightarrow> h_dk_mem hs | Some k \<Rightarrow> k);
     let new_dk = (case new_dk of None \<Rightarrow> h_dk_mem hs | Some k \<Rightarrow> k);
     if hd_key_slot_count header = 0 then None
     else do {
       ((resl, header, used), w) \<leftarrow>
         update_slots hs old_dk new_dk (slot_size header) [0..<hd_key_slot_count header] header 0 w;
       if 0 < used then
         (case dc_alloc hs (h_key_size hs) w of
            (None, w) \<Rightarrow> Some ((ST_NOMEM, header, None), w)
          | (Some _, w) \<Rightarrow> do {
              ((set, k), w) \<leftarrow> cp_set_header_key hs (h_key_mem hs) (hd_salt header) (hd_alg_1 header) new_pass w;
              Some ((if set then resl else ST_INVALID_PARAM, header, Some k), w) })
       else Some ((resl, header, None), w) } }"

definition dc_change_slot_pass ::
  "'w host \<Rightarrow> buf \<Rightarrow> dc_pass \<Rightarrow> dc_pass \<Rightarrow> 'w world \<Rightarrow> ((dc_status \<times> buf) \<times> 'w world) option" where
  "dc_change_slot_pass hs header old_pass new_pass w =
     (if hd_version header < DC_HDR_VERSION_2 \<or> \<not> has_slots_flag header then Some ((ST_INVALID_PARAM, header), w)
      else if p_slot new_pass < 1 \<or> int (hd_key_slot_count header) < p_slot new_pass then Some ((ST_INVALID_PARAM, header), w)
      else if hd_key_slot_count header = 0 \<or> hd_slot_area_len header = 0 \<or> hd_slot_info_size header < 32
      then Some ((ST_INV_VOLUME, header), w)
      else
        (let slot_index = nat (p_slot new_pass - 1);
             sz = slot_size header;
             slot = DC_BASE_SIZE + sz * slot_index;
             info = slot_info_off header slot_index;
             info_size = hd_slot_info_size header in
         if unat (hd_head_len header) < slot + sz then Some ((ST_INV_VOLUME, header), w)
         else if unat (hd_head_len header) < info + info_size then Some ((ST_INV_VOLUME, header), w)
         else do {
           (dk, w) \<leftarrow> dc_derive_key hs old_pass (p_kdf old_pass) (hd_salt header) w;
           (case dk of
              None \<Rightarrow> Some ((ST_INVALID_PARAM, header), w)
            | Some dk \<Rightarrow> do {
                (sk, w) \<leftarrow> dc_derive_key hs new_pass (p_kdf new_pass) (hd_salt header) w;
                (case sk of
                   None \<Rightarrow> Some ((ST_INVALID_PARAM, header), w)
                 | Some sk \<Rightarrow> do {
                     flags \<leftarrow> si_flags header info;
                     header \<leftarrow> set_si_flags header info ((flags OR SF_ACTIVE) AND NOT SF_CORRUPT);
                     header \<leftarrow> wr header (info + 8) [0, 0];
                     header \<leftarrow> wr header (info + 30) [word_of_int (p_kdf new_pass)];
                     (ok, header) \<leftarrow> cp_wrap_header_key header slot sk dk 0;
                     if \<not> ok then Some ((ST_SLOT_NOT_OK, header), w)
                     else do {
                       c \<leftarrow> slot_crc header info info_size slot sz;
                       header \<leftarrow> set_si_crc header info c;
                       Some ((ST_OK, header), w) } }) }) }))"

section \<open>The backup header\<close>

definition DC_DEV_BACKUP_HEADER :: u32 where "DC_DEV_BACKUP_HEADER = 1"
definition DC_DEV_STORAGE_ON_END :: u32 where "DC_DEV_STORAGE_ON_END = 2"

definition backup_pos :: "dc_dev \<Rightarrow> u64" where
  "backup_pos dev = dev_dsk_size dev - ucast (dev_head_len dev)"

text \<open>The copy of the primary header into the backup: all but the salt and the slots.\<close>

definition copy_primary :: "dc_dev \<Rightarrow> buf \<Rightarrow> buf \<Rightarrow> nat \<Rightarrow> buf option" where
  "copy_primary dev header hback len = do {
     base \<leftarrow> rd header HEADER_SALT_SIZE (DC_BASE_SIZE - HEADER_SALT_SIZE);
     hback \<leftarrow> wr hback HEADER_SALT_SIZE base;
     if DC_BASE_SIZE + len < unat (dev_head_len dev) then do {
       tail \<leftarrow> rd header (DC_BASE_SIZE + len) (unat (dev_head_len dev) - DC_BASE_SIZE - len);
       wr hback (DC_BASE_SIZE + len) tail }
     else Some hback }"

text \<open>The new password of the backup: one slot, or the header and all its slots.\<close>

definition change_bak_pass ::
  "'w host \<Rightarrow> buf \<Rightarrow> buf \<Rightarrow> xts_key \<Rightarrow> dc_pass \<Rightarrow> dc_pass \<Rightarrow> bool \<Rightarrow> nat \<Rightarrow> u32 \<Rightarrow> 'w world \<Rightarrow>
   ((dc_status \<times> buf \<times> xts_key option \<times> u32) \<times> 'w world) option" where
  "change_bak_pass hs header hback bak_key old_pass new_pass slots_valid len flags w =
     (if p_slot new_pass \<noteq> 0 then do {
        ((resl, hback), w) \<leftarrow> dc_change_slot_pass hs hback old_pass new_pass w;
        Some ((resl, hback, Some bak_key, if resl = ST_OK then flags OR HF_UPDATE_SLOTS else flags), w) }
      else
        (let w = dc_free hs w in
         if slots_valid \<and> \<not> flag flags HF_CLEAR_SLOTS then do {
           ((resl, hback, bak_key), w) \<leftarrow> dc_update_key_slots hs hback old_pass new_pass w;
           Some ((resl, hback, bak_key, flags), w) }
         else if 0 < len then do {
           (hback, w) \<leftarrow> clear_slots hs hback (hd_slot_area_len header)
             (hd_key_slot_count header * hd_slot_info_size header) w;
           Some ((ST_OK, hback, None, flags), w) }
         else Some ((ST_OK, hback, None, flags), w)))"

definition dc_change_pass_bak ::
  "'w host \<Rightarrow> dc_dev \<Rightarrow> 'w dc_rw \<Rightarrow> buf \<Rightarrow> dc_pass \<Rightarrow> dc_pass \<Rightarrow> u32 \<Rightarrow> bool \<Rightarrow> 'w world \<Rightarrow> (dc_status \<times> 'w world) option" where
  "dc_change_pass_bak hs dev rw header old_pass new_pass flags wipe w = do {
     let pos = backup_pos dev;
     ((resl, hback, bak_key, _), w) \<leftarrow> io_read_header hs dev rw pos True old_pass w;
     if resl \<noteq> ST_OK then Some (ST_INV_VOLUME, w)
     else do {
       hback \<leftarrow> hback;
       bak_key \<leftarrow> bak_key;
       let has = (DC_HDR_VERSION_2 \<le> hd_version header \<and> has_slots_flag header);
       let len = (if has then slots_len header else 0);
       let slots_valid = (has \<and> hd_slot_area_len hback = hd_slot_area_len header \<and>
         hd_key_slot_count hback = hd_key_slot_count header \<and> hd_slot_info_size hback = hd_slot_info_size header);
       hback \<leftarrow> copy_primary dev header hback len;
       ((resl, hback, bak_key, flags), w) \<leftarrow> change_bak_pass hs header hback bak_key old_pass new_pass slots_valid len flags w;
       if resl \<noteq> ST_OK then Some (resl, dc_free_opt hs (bak_key \<noteq> None) (dc_free hs w))
       else do {
         let w = (if flag flags HF_HEADER_FILL then dc_wipe hs wipe pos (sint (dev_head_len dev)) w else w);
         ((resl, hback), w) \<leftarrow> io_write_header hs dev rw pos hback bak_key (Some new_pass) flags w;
         Some (resl, dc_free_opt hs (bak_key \<noteq> None) (dc_free hs w)) } } }"

text \<open>The checksums of the slots that are in use, over the key material that was put in.\<close>

fun refresh_crcs :: "nat \<Rightarrow> nat list \<Rightarrow> buf \<Rightarrow> buf option" where
  "refresh_crcs sz [] h = Some h"
| "refresh_crcs sz (i # is) h = do {
     let off = slot_info_off h i;
     flags \<leftarrow> si_flags h off;
     h \<leftarrow>
       (if flags AND SF_ACTIVE \<noteq> 0 \<and> flags AND SF_CORRUPT = 0 then do {
          c \<leftarrow> slot_crc h off (hd_slot_info_size h) (DC_BASE_SIZE + sz * i) sz;
          set_si_crc h off c }
        else Some h);
     refresh_crcs sz is h }"

text \<open>
  The key slots of the backup: random, the caller's, or the ones on the device. The last component
  says whether the old backup was allocated.
\<close>

definition backup_slots ::
  "'w host \<Rightarrow> dc_dev \<Rightarrow> 'w dc_rw \<Rightarrow> buf \<Rightarrow> buf \<Rightarrow> buf option \<Rightarrow> u32 \<Rightarrow> 'w world \<Rightarrow>
   ((dc_status \<times> buf \<times> bool) \<times> 'w world) option" where
  "backup_slots hs dev rw header hcopy key_slots flags w =
     (let area_len = hd_slot_area_len header in
      if flag flags HF_CLEAR_SLOTS then do {
        (hcopy, w) \<leftarrow> clear_slots hs hcopy area_len (hd_key_slot_count header * hd_slot_info_size header) w;
        Some ((ST_OK, hcopy, False), w) }
      else do {
        ((resl, slots, own), w) \<leftarrow>
          (case key_slots of
             Some s \<Rightarrow> do { b \<leftarrow> rd s 0 area_len; Some ((ST_OK, b, False), w) }
           | None \<Rightarrow>
               (case dc_alloc hs (unat (dev_head_len dev)) w of
                  (None, w) \<Rightarrow> Some ((ST_NOMEM, [], False), w)
                | (Some old, w) \<Rightarrow> do {
                    ((resl, old), w) \<leftarrow> dev_read rw old 0 (dev_head_len dev) (backup_pos dev) w;
                    if resl \<noteq> ST_OK then Some ((resl, [], True), w)
                    else do {
                      b \<leftarrow> rd old DC_BASE_SIZE area_len;
                      Some ((ST_OK, b, True), w) } }));
        if resl \<noteq> ST_OK then Some ((resl, hcopy, own), w)
        else do {
          hcopy \<leftarrow> wr hcopy DC_BASE_SIZE slots;
          if hd_key_slot_count hcopy = 0 then None
          else do {
            hcopy \<leftarrow> refresh_crcs (slot_size hcopy) [0..<hd_key_slot_count hcopy] hcopy;
            Some ((ST_OK, hcopy, own), w) } } })"

definition dc_update_backup ::
  "'w host \<Rightarrow> dc_dev \<Rightarrow> 'w dc_rw \<Rightarrow> buf \<Rightarrow> u8 list option \<Rightarrow> xts_key option \<Rightarrow> buf option \<Rightarrow> u32 \<Rightarrow> 'w world \<Rightarrow>
   (dc_status \<times> 'w world) option" where
  "dc_update_backup hs dev rw header bak_salt bak_key key_slots flags w =
     (if dev_opt dev AND DC_DEV_BACKUP_HEADER = 0 then Some (ST_ERROR, w)
      else do {
        ok \<leftarrow> is_volume_header_correct header;
        if \<not> ok then Some (ST_INV_VOLUME, w)
        else
          (case (bak_salt, bak_key) of
             (Some salt, Some key) \<Rightarrow>
               if xk_encrypt key = XTS_NONE then Some (ST_ERROR, w)
               else if (if dev_opt dev AND DC_DEV_STORAGE_ON_END \<noteq> 0
                        then dev_stor_len dev < dev_head_len dev * 2
                        else dev_tail_len dev < dev_head_len dev)
               then Some (ST_NF_SPACE, w)
               else
                 (case dc_alloc hs (unat (dev_head_len dev)) w of
                    (None, w) \<Rightarrow> Some (ST_NOMEM, w)
                  | (Some hcopy, w) \<Rightarrow> do {
                      bytes \<leftarrow> rd header 0 (unat (dev_head_len dev));
                      hcopy \<leftarrow> wr hcopy 0 bytes;
                      salt \<leftarrow> rd salt 0 HEADER_SALT_SIZE;
                      hcopy \<leftarrow> wr hcopy 0 salt;
                      if DC_HDR_VERSION_2 \<le> hd_version header \<and> has_slots_flag header \<and> 0 < hd_slot_area_len header then
                        if unat (dev_head_len dev) < DC_BASE_SIZE + hd_slot_area_len header
                        then Some (ST_INV_VOLUME, dc_free hs w)
                        else do {
                          ((resl, hcopy, own), w) \<leftarrow> backup_slots hs dev rw header hcopy key_slots flags w;
                          if resl \<noteq> ST_OK then Some (resl, dc_free hs (dc_free_opt hs own w))
                          else do {
                            ((resl, _), w) \<leftarrow> io_write_header hs dev rw (backup_pos dev) hcopy (Some key) None flags w;
                            Some (resl, dc_free hs (dc_free_opt hs own w)) } }
                      else do {
                        ((resl, _), w) \<leftarrow> io_write_header hs dev rw (backup_pos dev) hcopy (Some key) None flags w;
                        Some (resl, dc_free hs w) } })
           | _ \<Rightarrow> Some (ST_ERROR, w)) })"

section \<open>The password of one slot\<close>

lemma wr_u32_defined: "off + 4 \<le> length h \<Longrightarrow> \<exists>h'. wr_u32 h off v = Some h' \<and> length h' = length h"
  using wr_defined [of off "le_bytes 4 (unat v)" h] by (simp add: wr_u32_def)

lemma wr_u32_other: "wr_u32 h off v = Some h' \<Longrightarrow> j + n \<le> off \<or> off + 4 \<le> j \<Longrightarrow> rd h' j n = rd h j n"
  unfolding wr_u32_def by (erule rd_wr_other) simp

lemma active_bits:
  "((f OR SF_ACTIVE) AND NOT SF_CORRUPT) AND SF_ACTIVE \<noteq> 0" "((f OR SF_ACTIVE) AND NOT SF_CORRUPT) AND SF_CORRUPT = 0"
proof -
  have "bit (((f OR SF_ACTIVE) AND NOT SF_CORRUPT) AND SF_ACTIVE) 0"
    by (simp add: SF_ACTIVE_def SF_CORRUPT_def bit_simps)
  then show "((f OR SF_ACTIVE) AND NOT SF_CORRUPT) AND SF_ACTIVE \<noteq> 0" by auto
  show "((f OR SF_ACTIVE) AND NOT SF_CORRUPT) AND SF_CORRUPT = 0"
    by (simp add: and.assoc)
qed



section \<open>Re-wrapping all slots\<close>

text \<open>A slot in use, with the right checksum, given where its descriptor and its key material are.\<close>

definition slot_good :: "buf \<Rightarrow> nat \<Rightarrow> nat \<Rightarrow> nat \<Rightarrow> nat \<Rightarrow> bool" where
  "slot_good h off isz key sz \<longleftrightarrow>
     (\<exists>fl. si_flags h off = Some fl \<and> fl AND SF_ACTIVE \<noteq> 0 \<and> fl AND SF_CORRUPT = 0) \<and>
     si_crc h off = slot_crc h off isz key sz"

definition same_slot :: "buf \<Rightarrow> buf \<Rightarrow> nat \<Rightarrow> nat \<Rightarrow> nat \<Rightarrow> nat \<Rightarrow> bool" where
  "same_slot h h' off isz key sz \<longleftrightarrow> rd h' off isz = rd h off isz \<and> rd h' key sz = rd h key sz"

text \<open>What the loop does to a slot.\<close>

definition slot_rewrapped :: "u8 list \<Rightarrow> u8 list \<Rightarrow> buf \<Rightarrow> buf \<Rightarrow> nat \<Rightarrow> nat \<Rightarrow> nat \<Rightarrow> nat \<Rightarrow> bool" where
  "slot_rewrapped old_dk new_dk h h' off isz key sz \<longleftrightarrow>
     (if slot_good h off isz key sz
      then slot_good h' off isz key sz \<and>
           (\<forall>s. rd h key 192 = Some s \<longrightarrow> rd h' key 192 = Some (xor_bytes (xor_bytes s old_dk) new_dk))
      else si_crc h' off = Some 0)"

lemma rd_part_cong:
  assumes "rd h' off n = rd h off n" and "i + m \<le> n" and "off + n \<le> length h" and "off + n \<le> length h'"
  shows "rd h' (off + i) m = rd h (off + i) m"
proof -
  obtain x where x: "rd h off n = Some x" using assms(3) by (simp add: rd_def)
  with assms(1) have "rd h' off n = Some x" by simp
  from rd_sub [OF x assms(2)] rd_sub [OF this assms(2)] show ?thesis by simp
qed

lemma slot_good_cong:
  assumes "same_slot h h' off isz key sz" and "32 \<le> isz" and "off + isz \<le> length h" and "off + isz \<le> length h'"
  shows "slot_good h' off isz key sz = slot_good h off isz key sz" "si_crc h' off = si_crc h off"
proof -
  have r: "rd h' (off + i) m = rd h (off + i) m" if "i + m \<le> isz" for i m
    using assms that by (intro rd_part_cong [of h' off isz h]) (auto simp: same_slot_def)
  have "nat (int isz - 4) = isz - 4" by simp
  then have "slot_crc h' off isz key sz = slot_crc h off isz key sz"
    using r [of 4 "isz - 4"] assms(1,2) by (simp add: slot_crc_def rdi_def same_slot_def)
  moreover show c: "si_crc h' off = si_crc h off"
    using r [of 0 4] assms(2) by (simp add: si_crc_def rd_u32_def)
  moreover have "si_flags h' off = si_flags h off" using r [of 4 4] assms(2) by (simp add: si_flags_def rd_u32_def)
  ultimately show "slot_good h' off isz key sz = slot_good h off isz key sz" by (simp add: slot_good_def)
qed

lemma slot_rewrapped_cong:
  assumes r: "slot_rewrapped old_dk new_dk h1 h2 off isz key sz"
    and s: "same_slot h h1 off isz key sz" "same_slot h2 h' off isz key sz"
    and l: "32 \<le> isz" "off + isz \<le> length h" "length h1 = length h" "length h2 = length h" "length h' = length h"
    and k: "192 \<le> sz" "key + sz \<le> length h"
  shows "slot_rewrapped old_dk new_dk h h' off isz key sz"
proof -
  have g1: "slot_good h1 off isz key sz = slot_good h off isz key sz"
    and g2: "slot_good h' off isz key sz = slot_good h2 off isz key sz" "si_crc h' off = si_crc h2 off"
    using slot_good_cong [OF s(1)] slot_good_cong [OF s(2)] l by simp_all
  have "rd h1 key 192 = rd h key 192" "rd h' key 192 = rd h2 key 192"
    using rd_part_cong [of h1 key sz h 0 192] rd_part_cong [of h' key sz h2 0 192] s k l by (auto simp: same_slot_def)
  with r g1 g2 show ?thesis by (auto simp: slot_rewrapped_def)
qed

text \<open>One turn of the loop that does not end it.\<close>

lemma update_slots_turn:
  assumes run: "update_slots hs old_dk new_dk sz (i # is) h used w = Some ((ST_OK, h', u), w')"
    and off: "off = slot_info_off h i" and isz: "isz = hd_slot_info_size h" "32 \<le> isz" and key: "key = 1024 + sz * i"
    and bnd: "key + sz \<le> off" "off + isz \<le> length h" "192 \<le> sz" "sz < 2 ^ 32"
    and dk: "length old_dk = 192" "length new_dk = 192"
    and hs: "host_ok hs"
  shows "\<exists>h1 u1 w1. update_slots hs old_dk new_dk sz is h1 u1 w1 = Some ((ST_OK, h', u), w') \<and> length h1 = length h \<and>
    (\<forall>j n. (j + n \<le> key \<or> key + sz \<le> j) \<and> (j + n \<le> off \<or> off + isz \<le> j) \<longrightarrow> rd h1 j n = rd h j n) \<and>
    slot_rewrapped old_dk new_dk h h1 off isz key sz"
proof -
  obtain fl where fl: "si_flags h off = Some fl" using bnd(2) isz(2) by (auto simp: si_flags_def rd_u32_def rd_def)
  obtain crc where crc: "si_crc h off = Some crc" using bnd(2) isz(2) by (auto simp: si_crc_def rd_u32_def rd_def)
  obtain d where d: "rd h (off + 4) (isz - 4) = Some d" using bnd(2) isz(2) by (auto simp: rd_def)
  obtain s where s: "rd h key sz = Some s" using bnd by (auto simp: rd_def)
  have c: "slot_crc h off isz key sz = Some (crc32 (d @ s))"
    using d s isz(2) bnd(4) by (intro slot_crc_eq) auto
  have di: "rdi h (off + 4) (int isz - 4) = Some d" using d isz(2) by (simp add: rdi_def nat_diff_distrib)
  let ?good = "fl AND SF_ACTIVE \<noteq> 0 \<and> fl AND SF_CORRUPT = 0 \<and> crc = crc32 (d @ s)"
  have good: "slot_good h off isz key sz \<longleftrightarrow> ?good" using fl crc c by (simp add: slot_good_def)
  note step = run [unfolded update_slots.simps Let_def, folded off isz(1) key]
  show ?thesis
  proof (cases ?good)
    case True
    obtain ty where ty: "si_type h off = Some ty" using bnd(2) isz(2) by (auto simp: si_type_def rd_u16_def rd_def)
    have t0: "uint ty = 0"
    proof (rule ccontr)
      assume "uint ty \<noteq> 0"
      then show False using step fl True di c crc ty by (simp add: cp_swap_slot_key_def)
    qed
    obtain k where k: "rd h key 192 = Some k" "length k = 192" using bnd by (auto simp: rd_def)
    let ?x = "xor_bytes (xor_bytes k old_dk) new_dk"
    have lx: "length ?x = 192" "length (xor_bytes k old_dk) = 192" using k(2) dk by simp_all
    obtain h2 where h2: "wr h key ?x = Some h2" "length h2 = length h"
      using wr_defined [of key ?x h] bnd lx by auto
    have sw: "cp_swap_slot_key h key old_dk new_dk 0 = Some (True, h2)"
      using k dk h2(1) lx by (simp add: cp_swap_slot_key_def xor_chunks_eq)
    obtain s2 where s2: "rd h2 key sz = Some s2" "length s2 = sz" using bnd h2(2) by (auto simp: rd_def)
    have c2: "crc32_combine (crc32 d) (crc32 s2) (of_nat sz) = Some (crc32 (d @ s2))"
      using crc32_combine_crc32 [of s2 d] s2(2) bnd(4) by simp
    obtain h3 where h3: "wr_u32 h2 off (crc32 (d @ s2)) = Some h3" "length h3 = length h"
      using wr_u32_defined [of off h2] bnd(2) isz(2) h2(2) by auto
    have rest: "update_slots hs old_dk new_dk sz is h3 (used + 1) w = Some ((ST_OK, h', u), w')"
      using step fl True di c crc ty t0 sw s2(1) c2 h3(1) by (simp add: set_si_crc_def)
    have o: "rd h3 j n = rd h j n" if "j + n \<le> key \<or> key + 192 \<le> j" "j + n \<le> off \<or> off + 4 \<le> j" for j n
      using wr_u32_other [OF h3(1) that(2)] rd_wr_other [OF h2(1), of j n] that(1) lx by simp
    have frame: "\<forall>j n. (j + n \<le> key \<or> key + sz \<le> j) \<and> (j + n \<le> off \<or> off + isz \<le> j) \<longrightarrow> rd h3 j n = rd h j n"
      using o bnd(3) isz(2) by auto
    have d3: "rd h3 (off + 4) (isz - 4) = Some d" using o [of "off + 4" "isz - 4"] d bnd by simp
    have s3: "rd h3 key sz = Some s2" using wr_u32_other [OF h3(1), of key sz] s2(1) bnd by simp
    have "slot_crc h3 off isz key sz = Some (crc32 (d @ s2))"
      using d3 s3 isz(2) bnd(4) by (intro slot_crc_eq) auto
    moreover have "si_flags h3 off = Some fl"
      using o [of "off + 4" 4] fl bnd by (simp add: si_flags_def rd_u32_def)
    ultimately have "slot_good h3 off isz key sz"
      using True wr_u32_rd [OF h3(1)] by (simp add: slot_good_def si_crc_def)
    moreover have "rd h3 key 192 = Some ?x"
      using rd_wr_same [OF h2(1) lx(1)] wr_u32_other [OF h3(1), of key 192] bnd by simp
    ultimately have "slot_rewrapped old_dk new_dk h h3 off isz key sz"
      using good True k by (simp add: slot_rewrapped_def)
    with rest h3(2) frame show ?thesis by blast
  next
    case False
    obtain r w1 where r: "dc_rand hs sz w = (r, w1)" by force
    have lr: "length r = sz"
      using hs r by (auto simp: dc_rand_def host_ok_def split: prod.split_asm) (metis fst_conv)
    have fill: "\<exists>h1. do { (h, w) \<leftarrow> dc_rand_at hs g key sz w; h \<leftarrow> set_si_crc h off 0;
          update_slots hs old_dk new_dk sz is h used w } = update_slots hs old_dk new_dk sz is h1 used w1 \<and>
        length h1 = length g \<and> si_crc h1 off = Some 0 \<and>
        (\<forall>j n. (j + n \<le> key \<or> key + sz \<le> j) \<and> (j + n \<le> off \<or> off + 4 \<le> j) \<longrightarrow> rd h1 j n = rd g j n)"
      if lg: "length g = length h" for g
    proof -
      obtain g1 where g1: "wr g key r = Some g1" "length g1 = length g"
        using wr_defined [of key r g] bnd lr lg by auto
      obtain g2 where g2: "wr_u32 g1 off 0 = Some g2" "length g2 = length g"
        using wr_u32_defined [of off g1 0] bnd(2) isz(2) g1(2) lg by auto
      have "rd g2 j n = rd g j n" if "j + n \<le> key \<or> key + sz \<le> j" "j + n \<le> off \<or> off + 4 \<le> j" for j n
        using wr_u32_other [OF g2(1) that(2)] rd_wr_other [OF g1(1), of j n] that(1) lr by simp
      then show ?thesis
        using r g1(1) g2 wr_u32_rd [OF g2(1)] by (intro exI [of _ g2]) (simp add: dc_rand_at_def set_si_crc_def si_crc_def)
    qed
    have bad: "slot_rewrapped old_dk new_dk h h1 off isz key sz" if "si_crc h1 off = Some 0" for h1
      using that good False by (simp add: slot_rewrapped_def)
    show ?thesis
    proof (cases "fl AND SF_ACTIVE \<noteq> 0 \<and> fl AND SF_CORRUPT = 0")
      case True
      with False have ne: "crc \<noteq> crc32 (d @ s)" by simp
      obtain g where g: "wr_u32 h (off + 4) (fl OR SF_CORRUPT) = Some g" "length g = length h"
        using wr_u32_defined [of "off + 4" h] bnd(2) isz(2) by auto
      obtain h1 where h1: "do { (h, w) \<leftarrow> dc_rand_at hs g key sz w; h \<leftarrow> set_si_crc h off 0;
          update_slots hs old_dk new_dk sz is h used w } = update_slots hs old_dk new_dk sz is h1 used w1"
        "length h1 = length g" "si_crc h1 off = Some 0"
        "\<forall>j n. (j + n \<le> key \<or> key + sz \<le> j) \<and> (j + n \<le> off \<or> off + 4 \<le> j) \<longrightarrow> rd h1 j n = rd g j n"
        using fill [OF g(2)] by blast
      have "update_slots hs old_dk new_dk sz is h1 used w1 = Some ((ST_OK, h', u), w')"
        using step fl True di c crc ne g(1) h1(1) by (simp add: set_si_flags_def)
      moreover have "rd h1 j n = rd h j n" if "j + n \<le> key \<or> key + sz \<le> j" "j + n \<le> off \<or> off + isz \<le> j" for j n
        using h1(4) wr_u32_other [OF g(1), of j n] that isz(2) by auto
      ultimately show ?thesis using h1(2,3) g(2) bad by auto
    next
      case inactive: False
      obtain h1 where h1: "do { (h, w) \<leftarrow> dc_rand_at hs h key sz w; h \<leftarrow> set_si_crc h off 0;
          update_slots hs old_dk new_dk sz is h used w } = update_slots hs old_dk new_dk sz is h1 used w1"
        "length h1 = length h" "si_crc h1 off = Some 0"
        "\<forall>j n. (j + n \<le> key \<or> key + sz \<le> j) \<and> (j + n \<le> off \<or> off + 4 \<le> j) \<longrightarrow> rd h1 j n = rd h j n"
        using fill [OF refl] by blast
      have "update_slots hs old_dk new_dk sz is h1 used w1 = Some ((ST_OK, h', u), w')"
        using step fl inactive h1(1) by (simp add: if_not_P [OF inactive])
      moreover have "rd h1 j n = rd h j n" if "j + n \<le> key \<or> key + sz \<le> j" "j + n \<le> off \<or> off + isz \<le> j" for j n
        using h1(4) that isz(2) by auto
      ultimately show ?thesis using h1(2,3) bad by auto
    qed
  qed
qed

text \<open>The whole loop, over slots that do not overlap.\<close>

lemma slot_size_mult: "i < j \<Longrightarrow> sz * i + sz \<le> sz * (j :: nat)"
  by (metis Suc_leI add.commute mult_Suc_right mult_le_mono2)

lemma update_slots_all:
  assumes fit: "slots_fit H" and sz: "192 \<le> slot_size H"
    and dk: "length old_dk = 192" "length new_dk = 192" and hs: "host_ok hs"
  shows "update_slots hs old_dk new_dk (slot_size H) is h used w = Some ((ST_OK, h', u), w') \<Longrightarrow>
    take 1024 h = take 1024 H \<Longrightarrow> length h = length H \<Longrightarrow> distinct is \<Longrightarrow> set is \<subseteq> {0..<hd_key_slot_count H} \<Longrightarrow>
    length h' = length H \<and> take 1024 h' = take 1024 H \<and>
    (\<forall>i < hd_key_slot_count H.
       if i \<in> set is
       then slot_rewrapped old_dk new_dk h h' (slot_info_off H i) (hd_slot_info_size H) (1024 + slot_size H * i) (slot_size H)
       else same_slot h h' (slot_info_off H i) (hd_slot_info_size H) (1024 + slot_size H * i) (slot_size H))"
proof (induction "is" arbitrary: h used w)
  case Nil
  then show ?case by (simp add: same_slot_def)
next
  case (Cons i "is")
  let ?sz = "slot_size H" and ?isz = "hd_slot_info_size H" and ?off = "slot_info_off H" and ?key = "\<lambda>i. 1024 + slot_size H * i"
  have i: "i < hd_key_slot_count H" using Cons.prems(5) by simp
  have rg: "?key j + ?sz \<le> ?off j" "?off j + ?isz \<le> length H" "?sz < 2 ^ 32" if "j < hd_key_slot_count H" for j
    using slot_regions [OF fit that] by (simp_all add: mult.commute)
  have isz: "32 \<le> ?isz" using fit by (simp add: slots_fit_def)
  note cong = slots_fit_cong [OF Cons.prems(2,3) fit]
  obtain h1 u1 w1 where
    rest: "update_slots hs old_dk new_dk ?sz is h1 u1 w1 = Some ((ST_OK, h', u), w')" and l1: "length h1 = length h"
    and frame: "\<And>j n. j + n \<le> ?key i \<or> ?key i + ?sz \<le> j \<Longrightarrow> j + n \<le> ?off i \<or> ?off i + ?isz \<le> j \<Longrightarrow> rd h1 j n = rd h j n"
    and turn: "slot_rewrapped old_dk new_dk h h1 (?off i) ?isz (?key i) ?sz"
    using update_slots_turn [OF Cons.prems(1) cong(3) [symmetric] cong(4) [symmetric] isz refl _ _ sz _ dk hs] rg [OF i] Cons.prems(3)
    by (auto simp: cong)
  have "rd h1 0 1024 = rd h 0 1024" using rg(1) [OF i] by (intro frame) auto
  then have "take 1024 h1 = take 1024 h" using l1 by (auto simp: rd_def Cons.prems(3) split: if_splits) (use fit in \<open>simp add: slots_fit_def\<close>)
  then have t1: "take 1024 h1 = take 1024 H" using Cons.prems(2) by simp
  have ih: "length h' = length H \<and> take 1024 h' = take 1024 H \<and>
    (\<forall>j < hd_key_slot_count H. if j \<in> set is then slot_rewrapped old_dk new_dk h1 h' (?off j) ?isz (?key j) ?sz
       else same_slot h1 h' (?off j) ?isz (?key j) ?sz)"
    using Cons.prems l1 t1 by (intro Cons.IH [OF rest]) auto
  have other: "same_slot h h1 (?off j) ?isz (?key j) ?sz" if "j < hd_key_slot_count H" "j \<noteq> i" for j
  proof -
    have o: "?off j + ?isz \<le> ?off i \<or> ?off i + ?isz \<le> ?off j"
      using slot_size_mult [of j i ?isz] slot_size_mult [of i j ?isz] that(2) by (simp add: slot_info_off_def) linarith
    have k: "?key j + ?sz \<le> ?key i \<or> ?key i + ?sz \<le> ?key j"
      using slot_size_mult [of j i ?sz] slot_size_mult [of i j ?sz] that(2) by simp linarith
    have area: "?key m + ?sz \<le> 1024 + hd_slot_area_len H" if "m < hd_key_slot_count H" for m
      using slot_size_mult [OF that, of ?sz] slot_size_area [of H] by linarith
    have "1024 + hd_slot_area_len H \<le> ?off m" for m by (simp add: slot_info_off_def)
    then have ko: "?key i + ?sz \<le> ?off j" "?key j + ?sz \<le> ?off i" using area [OF i] area [OF that(1)] le_trans by blast+
    show ?thesis unfolding same_slot_def using o k ko by (intro conjI frame) auto
  qed
  show ?case
  proof (intro conjI allI impI)
    show "length h' = length H" "take 1024 h' = take 1024 H" using ih by auto
    fix j assume j: "j < hd_key_slot_count H"
    have lens: "?off j + ?isz \<le> length h" "length h1 = length h" "length h' = length h" "?key j + ?sz \<le> length h"
      using rg [OF j] l1 ih Cons.prems(3) by auto
    show "if j \<in> set (i # is) then slot_rewrapped old_dk new_dk h h' (?off j) ?isz (?key j) ?sz
      else same_slot h h' (?off j) ?isz (?key j) ?sz"
    proof (cases "j = i")
      case True
      then have "same_slot h1 h' (?off j) ?isz (?key j) ?sz" using ih j Cons.prems(4) by auto
      then show ?thesis
        using True turn slot_rewrapped_cong [of old_dk new_dk h h1 "?off j" ?isz "?key j" ?sz h h'] isz lens sz
        by (simp add: same_slot_def)
    next
      case False
      note oj = other [OF j False]
      show ?thesis
      proof (cases "j \<in> set is")
        case True
        then have r: "slot_rewrapped old_dk new_dk h1 h' (?off j) ?isz (?key j) ?sz" using ih j by auto
        have "slot_rewrapped old_dk new_dk h h' (?off j) ?isz (?key j) ?sz"
          by (rule slot_rewrapped_cong [OF r oj _ isz lens(1,2,3,3) sz lens(4)]) (simp add: same_slot_def)
        with True show ?thesis by simp
      next
        case nin: False
        then have "same_slot h1 h' (?off j) ?isz (?key j) ?sz" using ih j by auto
        with oj nin False show ?thesis by (simp add: same_slot_def)
      qed
    qed
  qed
qed

text \<open>
  C32: changing the header's password keeps every slot working. When \<^verbatim>\<open>dc_update_key_slots\<close> succeeds
  on a header whose slots fit and hold 192 bytes, then for every slot that was in use with a right
  checksum, whatever key unwrapped the old header key from it now unwraps the new one, and its
  checksum is right again; every other slot has its checksum zeroed; salt and base are untouched.
\<close>

theorem dc_update_key_slots_rewraps:
  assumes fit: "slots_fit h" and sz: "192 \<le> slot_size h" and hs: "host_ok hs"
    and pass: "pass_ok old_pass" "pass_ok new_pass"
    and od: "dc_derive_key hs old_pass (p_kdf old_pass) (hd_salt h) w = Some (Some old_dk, w1)"
    and nd: "dc_derive_key hs new_pass (p_kdf new_pass) (hd_salt h) w1 = Some (Some new_dk, w2)"
    and run: "dc_update_key_slots hs h old_pass new_pass w = Some ((ST_OK, h', key), w')"
  shows "take 1024 h' = take 1024 h \<and>
    (\<forall>i < hd_key_slot_count h.
       let off = slot_info_off h i; isz = hd_slot_info_size h; slot = 1024 + slot_size h * i in
       if slot_good h off isz slot (slot_size h)
       then slot_good h' off isz slot (slot_size h) \<and>
            (\<forall>dk. length dk = 192 \<and> try_decrypt_slot dk h slot 0 = Some (Some old_dk) \<longrightarrow>
                  try_decrypt_slot dk h' slot 0 = Some (Some new_dk))
       else si_crc h' off = Some 0)"
proof -
  have salt: "length (hd_salt h) = 64" using fit by (simp add: slots_fit_def hd_salt_def)
  have ldk: "length old_dk = 192" "length new_dk = 192"
    using dc_derive_key_length [OF hs pass(1) salt od] dc_derive_key_length [OF hs pass(2) salt nd] by auto
  have nz: "hd_key_slot_count h \<noteq> 0" using fit by (simp add: slots_fit_def cp_has_key_slots_def)
  from run od nd nz obtain resl h1 u w3 where
    us: "update_slots hs old_dk new_dk (slot_size h) [0..<hd_key_slot_count h] h 0 w2 = Some ((resl, h1, u), w3)"
    and rest: "(if 0 < u then
         (case dc_alloc hs (h_key_size hs) w3 of
            (None, w) \<Rightarrow> Some ((ST_NOMEM, h1, None), w)
          | (Some _, w) \<Rightarrow> do {
              ((set, k), w) \<leftarrow> cp_set_header_key hs (h_key_mem hs) (hd_salt h1) (hd_alg_1 h1) new_pass w;
              Some ((if set then resl else ST_INVALID_PARAM, h1, Some k), w) })
       else Some ((resl, h1, None), w3)) = Some ((ST_OK, h', key), w')"
    by (simp add: dc_update_key_slots_def) (elim bind_SomeE; auto)
  have r: "resl = ST_OK" "h1 = h'"
    using rest by (auto split: if_split_asm prod.split_asm option.split_asm elim!: bind_SomeE)
  have all: "length h' = length h \<and> take 1024 h' = take 1024 h \<and>
    (\<forall>i < hd_key_slot_count h.
       if i \<in> set [0..<hd_key_slot_count h]
       then slot_rewrapped old_dk new_dk h h' (slot_info_off h i) (hd_slot_info_size h) (1024 + slot_size h * i) (slot_size h)
       else same_slot h h' (slot_info_off h i) (hd_slot_info_size h) (1024 + slot_size h * i) (slot_size h))"
    using us [unfolded r] by (intro update_slots_all [OF fit sz ldk hs]) auto
  have unwrap: "try_decrypt_slot dk h' slot 0 = Some (Some new_dk)"
    if "\<forall>s. rd h slot 192 = Some s \<longrightarrow> rd h' slot 192 = Some (xor_bytes (xor_bytes s old_dk) new_dk)"
      and "length dk = 192" and "try_decrypt_slot dk h slot 0 = Some (Some old_dk)" for dk slot
  proof -
    from that(3) obtain s where s: "rd h slot 192 = Some s" "xor_chunks s dk = old_dk"
      by (auto simp: try_decrypt_slot_def elim!: bind_SomeE)
    have ls: "length s = 192" using s(1) by (rule length_rd)
    then have "xor_bytes s dk = old_dk" using s(2) that(2) by (simp add: xor_chunks_eq)
    then have "s = xor_bytes old_dk dk" using ls that(2) by auto
    then have "xor_bytes (xor_bytes s old_dk) new_dk = xor_bytes dk new_dk"
      using ldk that(2) by (simp add: xor_bytes_commute [of old_dk dk])
    moreover have "xor_bytes (xor_bytes dk new_dk) dk = new_dk"
      using ldk that(2) by (simp add: xor_bytes_commute [of dk new_dk])
    ultimately show ?thesis
      using that(1,2) s(1) ldk by (simp add: try_decrypt_slot_def xor_chunks_eq)
  qed
  show ?thesis
    unfolding Let_def
  proof (intro conjI allI impI)
    show "take 1024 h' = take 1024 h" using all by simp
    fix i assume i: "i < hd_key_slot_count h"
    let ?g = "\<lambda>h. slot_good h (slot_info_off h i) (hd_slot_info_size h) (1024 + slot_size h * i) (slot_size h)"
    have "slot_rewrapped old_dk new_dk h h' (slot_info_off h i) (hd_slot_info_size h) (1024 + slot_size h * i) (slot_size h)"
      using all i by auto
    then show "if slot_good h (slot_info_off h i) (hd_slot_info_size h) (1024 + slot_size h * i) (slot_size h)
      then slot_good h' (slot_info_off h i) (hd_slot_info_size h) (1024 + slot_size h * i) (slot_size h) \<and>
           (\<forall>dk. length dk = 192 \<and> try_decrypt_slot dk h (1024 + slot_size h * i) 0 = Some (Some old_dk) \<longrightarrow>
                 try_decrypt_slot dk h' (1024 + slot_size h * i) 0 = Some (Some new_dk))
      else si_crc h' (slot_info_off h i) = Some 0"
      unfolding slot_rewrapped_def using unwrap by auto
  qed
qed

lemma slots_header_zero: "1024 + a + n \<le> 2048 \<Longrightarrow> take n (drop (1024 + a) slots_header) = replicate n 0"
proof -
  assume le: "1024 + a + n \<le> 2048"
  have "drop (1024 + a) slots_header = drop a (drop 1024 slots_header)" by (simp add: add.commute)
  also have "\<dots> = replicate (1024 - a) 0" by (simp only: slots_header_facts(10) drop_replicate)
  finally show ?thesis using le by simp
qed

lemma slots_header_wr: "1024 + a + n \<le> 2048 \<Longrightarrow> wr slots_header (1024 + a) (replicate n 0) = Some slots_header"
proof -
  assume le: "1024 + a + n \<le> 2048"
  then obtain b where b: "wr slots_header (1024 + a) (replicate n 0) = Some b"
    using wr_defined [of "1024 + a" "replicate n 0" slots_header] slots_header_facts(1) by auto
  then show ?thesis
    using wr_same_bytes [of slots_header "1024 + a" n b] slots_header_zero [OF le] le slots_header_facts(1) by simp
qed

lemma le_bytes_zero: "le_bytes n 0 = replicate n 0"
  by (induction n) simp_all

lemma slots_header_update:
  "set is \<subseteq> {0..<4} \<Longrightarrow> update_slots host_ex od nd 192 is slots_header u world_ex = Some ((ST_OK, slots_header, u), world_ex)"
proof (induction "is")
  case (Cons i "is")
  note f = slots_header_facts
  have i: "i < 4" using Cons.prems by simp
  have off: "slot_info_off slots_header i = 1792 + 32 * i" by (simp add: slot_info_off_def f)
  have z: "le_val (replicate 4 (0 :: u8)) = 0" by (simp add: numeral_eq_Suc)
  have fl: "si_flags slots_header (1792 + 32 * i) = Some 0"
    using slots_header_zero [of "768 + 32 * i + 4" 4] i f(1) by (simp add: si_flags_def rd_u32_def rd_def add.assoc z)
  have r: "dc_rand_at host_ex slots_header (1024 + 192 * i) 192 world_ex = Some (slots_header, world_ex)"
    using slots_header_wr [of "192 * i" 192] i by (simp add: dc_rand_at_def dc_rand_def host_ex_def world_ex_def)
  have c: "set_si_crc slots_header (1792 + 32 * i) 0 = Some slots_header"
    using slots_header_wr [of "768 + 32 * i" 4] i
    by (simp add: set_si_crc_def wr_u32_def le_bytes_zero)
  show ?case using Cons by (simp add: off fl r c Let_def)
qed simp

theorem dc_update_key_slots_rewraps_witness:
  "\<exists>h' key w'. dc_update_key_slots host_ex slots_header raw_pass (raw_pass\<lparr>p_kdf := 5\<rparr>) world_ex = Some ((ST_OK, h', key), w') \<and>
    take 1024 h' = take 1024 slots_header"
proof -
  note f = slots_header_facts
  have fit: "slots_fit slots_header" and sz: "slot_size slots_header = 192"
    using f by (simp_all add: slots_fit_def cp_has_key_slots_def slots_len_def slot_size_def DC_HDR_VERSION_2_def)
  let ?new = "raw_pass\<lparr>p_kdf := 5\<rparr>"
  have ok: "pass_ok raw_pass" "pass_ok ?new" by (simp_all add: pass_ok_def raw_pass_def)
  have salt: "length (hd_salt slots_header) = 64" using f(1) by (simp add: hd_salt_def)
  have od: "dc_derive_key host_ex raw_pass (p_kdf raw_pass) (hd_salt slots_header) world_ex = Some (Some (replicate 192 0), world_ex)"
    and nd: "dc_derive_key host_ex ?new (p_kdf ?new) (hd_salt slots_header) world_ex = Some (Some (replicate 192 7), world_ex)"
    unfolding dc_derive_key_eq [OF host_ex_ok ok(1) salt] dc_derive_key_eq [OF host_ex_ok ok(2) salt]
    by (simp_all add: kdf_spec_def raw_pass_def host_ex_def world_ex_def Let_def)
  have "update_slots host_ex (replicate 192 0) (replicate 192 7) 192 [0..<4] slots_header 0 world_ex =
      Some ((ST_OK, slots_header, 0), world_ex)"
    by (rule slots_header_update) auto
  then have run: "dc_update_key_slots host_ex slots_header raw_pass ?new world_ex = Some ((ST_OK, slots_header, None), world_ex)"
    using od nd f sz by (simp add: dc_update_key_slots_def)
  have le: "192 \<le> slot_size slots_header" using sz by simp
  have "take 1024 slots_header = take 1024 slots_header"
    by (rule conjunct1 [OF dc_update_key_slots_rewraps [OF fit le host_ex_ok ok od nd run]])
  with run show ?thesis by blast
qed

end
