(* ===== verification/Dc_Buffer.thy ===== *)
theory Dc_Buffer
  imports Head_Util
begin

unbundle bit_operations_syntax

text \<open>
  \<^verbatim>\<open>volume_lib/dc_buffer.c\<close>: a memory buffer as a device. The descriptor and the caller's buffer may be
  NULL pointers, \<open>None\<close> here.
\<close>

section \<open>The device\<close>

record dc_buffer =
  db_data :: "buf option"
  db_size :: u32

text \<open>The result: status, the caller's buffer, the descriptor with the memory behind it.\<close>

definition dc_buffer_rw_impl ::
  "dc_buffer option \<Rightarrow> buf option \<Rightarrow> u32 \<Rightarrow> u64 \<Rightarrow> bool \<Rightarrow> (dc_status \<times> buf option \<times> dc_buffer option) option" where
  "dc_buffer_rw_impl ctx buff len offset is_read =
     (case (ctx, buff) of
        (Some b, Some dst) \<Rightarrow>
          (case db_data b of
             None \<Rightarrow> Some (ST_INVALID_PARAM, buff, ctx)
           | Some data \<Rightarrow>
               if ucast (db_size b) < offset \<or> ucast (db_size b) - offset < ucast len
               then Some (ST_RW_ERR, buff, ctx)
               else if is_read then do {
                 bytes \<leftarrow> rd data (unat offset) (unat len);
                 dst \<leftarrow> wr dst 0 bytes;
                 Some (ST_OK, Some dst, ctx) }
               else do {
                 bytes \<leftarrow> rd dst 0 (unat len);
                 data \<leftarrow> wr data (unat offset) bytes;
                 Some (ST_OK, buff, Some (b\<lparr>db_data := Some data\<rparr>)) })
      | _ \<Rightarrow> Some (ST_INVALID_PARAM, buff, ctx))"

definition SECTOR_SIZE :: u32 where "SECTOR_SIZE = 512"

definition dc_dev_from_buffer :: "buf option \<Rightarrow> u32 \<Rightarrow> u32 \<Rightarrow> dc_status \<times> (dc_dev \<times> dc_buffer) option" where
  "dc_dev_from_buffer buff sz bps =
     (if buff = None \<or> sz = 0 then (ST_INVALID_PARAM, None)
      else
        (let bps = (if bps = 0 then SECTOR_SIZE else bps);
             head_len = min sz 2048
         in (ST_OK, Some
              (\<lparr>dev_bps = bps, dev_dsk_size = ucast sz, dev_head_len = head_len, dev_tail_len = head_len,
                dev_stor_len = 0, dev_opt = 0\<rparr>,
               \<lparr>db_data = buff, db_size = sz\<rparr>))))"

text \<open>The callback as the library sees it: the environment is the descriptor.\<close>

definition dc_buffer_rw :: "dc_buffer dc_rw" where
  "dc_buffer_rw = \<lparr>
     rw_read = \<lambda>len off b.
       (case dc_buffer_rw_impl (Some b) (Some (replicate (unat len) 0)) len off True of
          Some (resl, Some bytes, Some b) \<Rightarrow> ((resl, bytes), b)
        | _ \<Rightarrow> ((ST_RW_ERR, []), b)),
     rw_write = \<lambda>bytes off b.
       (case dc_buffer_rw_impl (Some b) (Some bytes) (of_nat (length bytes)) off False of
          Some (resl, _, Some b) \<Rightarrow> (resl, b)
        | _ \<Rightarrow> (ST_RW_ERR, b))\<rparr>"

section \<open>Accesses stay inside the buffer\<close>

definition buffer_ok :: "dc_buffer \<Rightarrow> bool" where
  "buffer_ok b \<longleftrightarrow> (\<exists>data. db_data b = Some data \<and> unat (db_size b) \<le> length data)"

lemma buffer_range:
  "ucast (n :: u32) < (off :: u64) \<or> ucast n - off < ucast (len :: u32) \<longleftrightarrow> unat n < unat off + unat len"
proof (cases "ucast n < off")
  case True
  then show ?thesis by (simp add: word_less_nat_alt unat_ucast32)
next
  case False
  then have le: "unat off \<le> unat n" by (simp add: word_less_nat_alt unat_ucast32)
  have "unat (ucast n - off) = unat n - unat off"
    using False by (simp add: unat_sub unat_ucast32)
  with False le show ?thesis by (auto simp: word_less_nat_alt unat_ucast32)
qed

text \<open>
  C19: a buffer device answers every request inside its buffers. On a descriptor whose memory holds
  \<open>size\<close> bytes, a request succeeds exactly when \<open>offset + length\<close>, added without wrapping, is at
  most \<open>size\<close>; a read then returns those bytes and changes nothing, a write changes those bytes and
  no other, and reading them back gives what was written; any other request fails with
  \<open>ST_RW_ERR\<close> and changes nothing.
\<close>

theorem dc_buffer_rw_correct:
  assumes "buffer_ok b" and "db_data b = Some data" and "unat len \<le> length buff"
  shows "if unat off + unat len \<le> unat (db_size b) then
      (\<exists>data'. dc_buffer_rw_impl (Some b) (Some buff) len off True =
          Some (ST_OK, Some (take (unat len) (drop (unat off) data) @ drop (unat len) buff), Some b) \<and>
        dc_buffer_rw_impl (Some b) (Some buff) len off False = Some (ST_OK, Some buff, Some (b\<lparr>db_data := Some data'\<rparr>)) \<and>
        rd data' (unat off) (unat len) = Some (take (unat len) buff) \<and>
        (\<forall>i n. i + n \<le> unat off \<or> unat off + unat len \<le> i \<longrightarrow> rd data' i n = rd data i n))
    else dc_buffer_rw_impl (Some b) (Some buff) len off r = Some (ST_RW_ERR, Some buff, Some b)"
proof (cases "unat off + unat len \<le> unat (db_size b)")
  case True
  then have le: "unat off + unat len \<le> length data" using assms(1,2) by (auto simp: buffer_ok_def)
  have g: "\<not> (ucast (db_size b) < off \<or> ucast (db_size b) - off < ucast len)"
    using True by (simp only: buffer_range not_less)
  obtain data' where w: "wr data (unat off) (take (unat len) buff) = Some data'"
    using wr_defined [of "unat off" "take (unat len) buff" data] le assms(3) by auto
  have s: "rd data' (unat off) (unat len) = Some (take (unat len) buff)"
    using rd_wr_same [OF w] assms(3) by simp
  have o: "\<forall>i n. i + n \<le> unat off \<or> unat off + unat len \<le> i \<longrightarrow> rd data' i n = rd data i n"
    using rd_wr_other [OF w] assms(3) by simp
  let ?c = "take (unat len) (drop (unat off) data)"
  have "rd data (unat off) (unat len) = Some ?c" using le by (simp add: rd_Some)
  moreover have "length ?c = unat len" using le by simp
  then have "wr buff 0 ?c = Some (?c @ drop (unat len) buff)" using assms(3) by (simp only: wr_def) simp
  moreover have "rd buff 0 (unat len) = Some (take (unat len) buff)" using assms(3) by (simp add: rd_Some)
  ultimately have "dc_buffer_rw_impl (Some b) (Some buff) len off True = Some (ST_OK, Some (?c @ drop (unat len) buff), Some b)"
    and "dc_buffer_rw_impl (Some b) (Some buff) len off False = Some (ST_OK, Some buff, Some (b\<lparr>db_data := Some data'\<rparr>))"
    using g w assms(2) by (simp_all only: dc_buffer_rw_impl_def prod.case option.case if_False if_True bind.bind_lunit)
  with True s o show ?thesis by auto
next
  case False
  then have "ucast (db_size b) < off \<or> ucast (db_size b) - off < ucast len"
    by (simp only: buffer_range)
  with False assms(2) show ?thesis by (simp add: dc_buffer_rw_impl_def)
qed

theorem dc_buffer_rw_correct_witness:
  "dc_buffer_rw_impl (Some \<lparr>db_data = Some (replicate 8 1), db_size = 8\<rparr>) (Some (replicate 4 0)) 4 0xFFFFFFFFFFFFFFFE True =
     Some (ST_RW_ERR, Some (replicate 4 0), Some \<lparr>db_data = Some (replicate 8 1), db_size = 8\<rparr>)"
  using dc_buffer_rw_correct [of "\<lparr>db_data = Some (replicate 8 1), db_size = 8\<rparr>" "replicate 8 1" 4 "replicate 4 0"
      "0xFFFFFFFFFFFFFFFE" True]
  by (simp add: buffer_ok_def)

end
