(* ===== verification/SVariant.thy ===== *)
theory SVariant
  imports Prelude
begin

unbundle bit_operations_syntax

text \<open>
  \<^verbatim>\<open>Framework/Common/SVariant.c\<close>: the self-describing values that processes exchange. A variant is
  a type byte, a length where the type byte does not imply it, and the payload; maps, lists and
  indices hold further variants. The readers walk a message in place, the writers fill a buffer that
  the caller provides.

  The bytes are one memory, a pointer into it is an offset; the union of a pointer and eight payload
  bytes is the datatype \<open>vdata\<close>. Sizes of type \<^verbatim>\<open>size_t\<close> are sizes of objects in memory and are
  natural numbers, the 32-bit fields of a variant are words, and casts between them are written out.
\<close>

section \<open>Type bytes\<close>

definition VAR_TYPE_MASK :: u8 where "VAR_TYPE_MASK = 0x1F"
definition VAR_TYPE_EMPTY :: u8 where "VAR_TYPE_EMPTY = 0x00"
definition VAR_TYPE_MAP :: u8 where "VAR_TYPE_MAP = 0x01"
definition VAR_TYPE_LIST :: u8 where "VAR_TYPE_LIST = 0x02"
definition VAR_TYPE_INDEX :: u8 where "VAR_TYPE_INDEX = 0x03"
definition VAR_TYPE_BYTES :: u8 where "VAR_TYPE_BYTES = 0x07"
definition VAR_TYPE_ASCII :: u8 where "VAR_TYPE_ASCII = 0x08"
definition VAR_TYPE_UNICODE :: u8 where "VAR_TYPE_UNICODE = 0x0A"
definition VAR_TYPE_UINT :: u8 where "VAR_TYPE_UINT = 0x0C"
definition VAR_TYPE_SINT :: u8 where "VAR_TYPE_SINT = 0x0D"
definition VAR_LEN_FIELD :: u8 where "VAR_LEN_FIELD = 0x20"
definition VAR_LEN_MASK :: u8 where "VAR_LEN_MASK = 0xC0"
definition VAR_LEN8 :: u8 where "VAR_LEN8 = 0x00"
definition VAR_LEN16 :: u8 where "VAR_LEN16 = 0x40"
definition VAR_LEN32 :: u8 where "VAR_LEN32 = 0x80"
definition VAR_LEN64 :: u8 where "VAR_LEN64 = 0xC0"
definition VAR_STATIC :: u8 where "VAR_STATIC = 0xC0"
definition VAR_ERR_BAD_SIZE :: u8 where "VAR_ERR_BAD_SIZE = 1"
definition VAR_ERR_BAD_TYPE :: u8 where "VAR_ERR_BAD_TYPE = 2"

abbreviation UCHAR_MAX :: nat where "UCHAR_MAX \<equiv> 255"
abbreviation USHRT_MAX :: nat where "USHRT_MAX \<equiv> 65535"
abbreviation ULONG_MAX :: nat where "ULONG_MAX \<equiv> 4294967295"

lemmas var_type_defs = VAR_TYPE_MASK_def VAR_TYPE_EMPTY_def VAR_TYPE_MAP_def VAR_TYPE_LIST_def VAR_TYPE_INDEX_def
  VAR_TYPE_BYTES_def VAR_TYPE_ASCII_def VAR_TYPE_UNICODE_def VAR_TYPE_UINT_def VAR_TYPE_SINT_def
lemmas var_len_defs = VAR_LEN_FIELD_def VAR_LEN_MASK_def VAR_LEN8_def VAR_LEN16_def VAR_LEN32_def VAR_LEN64_def VAR_STATIC_def

section \<open>Variants\<close>

datatype vdata = VNull | VAt nat | VPayload "u8 list"

record variant =
  v_type :: u8
  v_error :: u8
  v_size :: u32
  v_max :: u32
  v_data :: vdata

text \<open>The pointer member of the union; a dereference of another one is undefined.\<close>

definition v_ptr :: "variant \<Rightarrow> nat option" where
  "v_ptr v = (case v_data v of VAt p \<Rightarrow> Some p | _ \<Rightarrow> None)"

section \<open>Sizes\<close>

text \<open>The length a type byte announces, and the pointer behind it.\<close>

definition Variant_ReadSize :: "buf \<Rightarrow> nat \<Rightarrow> nat \<Rightarrow> (u32 \<times> nat) option" where
  "Variant_ReadSize mem ptr sz = do {
     type \<leftarrow> rd_u8 mem ptr;
     let ptr = ptr + 1;
     if type AND VAR_LEN_FIELD \<noteq> 0 then
       (if type AND VAR_LEN_MASK = VAR_LEN8 \<and> 1 + 1 \<le> sz then do {
          len \<leftarrow> rd_u8 mem ptr;
          Some (ucast len, ptr + 1) }
        else if type AND VAR_LEN_MASK = VAR_LEN16 \<and> 1 + 2 \<le> sz then do {
          len \<leftarrow> rd_u16 mem ptr;
          Some (ucast len, ptr + 2) }
        else if type AND VAR_LEN_MASK = VAR_LEN32 \<and> 1 + 4 \<le> sz then do {
          len \<leftarrow> rd_u32 mem ptr;
          Some (len, ptr + 4) }
        else Some (- 1, ptr))
     else if type AND VAR_TYPE_MASK = VAR_TYPE_EMPTY then Some (0, ptr)
     else if type AND VAR_LEN_MASK = VAR_LEN8 then Some (1, ptr)
     else if type AND VAR_LEN_MASK = VAR_LEN16 then Some (2, ptr)
     else if type AND VAR_LEN_MASK = VAR_LEN32 then Some (4, ptr)
     else if type AND VAR_LEN_MASK = VAR_LEN64 then Some (8, ptr)
     else Some (- 1, ptr) }"

definition Variant_WriteSize :: "buf \<Rightarrow> nat \<Rightarrow> u8 \<Rightarrow> nat \<Rightarrow> ((u32 \<times> nat) \<times> buf) option" where
  "Variant_WriteSize mem ptr type sz =
     (let t = type AND VAR_TYPE_MASK in do {
        (hdr_size, mem) \<leftarrow>
          (if t = VAR_TYPE_EMPTY then map_option (Pair 1) (wr mem ptr [t])
           else if sz = 1 then map_option (Pair 1) (wr mem ptr [t OR VAR_LEN8])
           else if sz = 2 then map_option (Pair 1) (wr mem ptr [t OR VAR_LEN16])
           else if sz = 4 then map_option (Pair 1) (wr mem ptr [t OR VAR_LEN32])
           else if sz = 8 then map_option (Pair 1) (wr mem ptr [t OR VAR_LEN64])
           else if USHRT_MAX \<le> sz then
             map_option (Pair 5) (wr mem ptr ((t OR (VAR_LEN_FIELD OR VAR_LEN32)) # le_bytes 4 sz))
           else if UCHAR_MAX \<le> sz then
             map_option (Pair 3) (wr mem ptr ((t OR (VAR_LEN_FIELD OR VAR_LEN16)) # le_bytes 2 sz))
           else map_option (Pair 2) (wr mem ptr ((t OR (VAR_LEN_FIELD OR VAR_LEN8)) # le_bytes 1 sz)));
        Some ((hdr_size, ptr + unat hdr_size), mem) })"

section \<open>Readers\<close>

text \<open>
  Each reader returns its result and the variant it filled in; a failing \<^verbatim>\<open>Variant_FromBuffer\<close> has
  already set the type and the pointer.
\<close>

definition Variant_FromBuffer :: "buf \<Rightarrow> nat \<Rightarrow> nat \<Rightarrow> variant \<Rightarrow> (nat \<times> variant) option" where
  "Variant_FromBuffer mem buffer sz out_var =
     (if sz < 1 \<or> ULONG_MAX < sz then Some (0, out_var)
      else do {
        type \<leftarrow> rd_u8 mem buffer;
        (length, ptr) \<leftarrow> Variant_ReadSize mem buffer sz;
        let out_var = out_var\<lparr>v_type := type AND VAR_TYPE_MASK, v_data := VAt ptr\<rparr>;
        if length = - 1 \<or> int (buffer + sz) - int ptr < int (unat length) then Some (0, out_var)
        else Some (ptr - buffer + unat length, out_var\<lparr>v_size := length, v_max := length\<rparr>) })"

text \<open>\<^verbatim>\<open>max_name - 1\<close> in \<^verbatim>\<open>size_t\<close>.\<close>

definition size_pred :: "nat \<Rightarrow> nat" where
  "size_pred n = (if n = 0 then 2 ^ 64 - 1 else n - 1)"

definition Variant_FromPacket ::
  "buf \<Rightarrow> nat \<Rightarrow> nat \<Rightarrow> buf \<Rightarrow> nat \<Rightarrow> variant \<Rightarrow> (nat \<times> buf \<times> variant) option" where
  "Variant_FromPacket mem buffer sz out_name max_name out_var =
     (if sz < 1 then Some (0, out_name, out_var)
      else do {
        len \<leftarrow> rd_u8 mem buffer;
        let name_len = unat len;
        if sz < 1 + name_len \<or> size_pred max_name < name_len then Some (0, out_name, out_var)
        else do {
          name \<leftarrow> rd mem (buffer + 1) name_len;
          out_name \<leftarrow> wr out_name 0 name;
          out_name \<leftarrow> wr out_name name_len [0];
          (n, out_var) \<leftarrow> Variant_FromBuffer mem (buffer + 1 + name_len) (sz - (1 + name_len)) out_var;
          Some (n, out_name, out_var) } })"

lemma Variant_ReadSize_pos: "Variant_ReadSize mem ptr sz = Some (len, ptr') \<Longrightarrow> ptr < ptr'"
  by (auto simp: Variant_ReadSize_def Let_def split: if_split_asm elim!: bind_SomeE)

text \<open>
  The loops over the entries of a container. \<^verbatim>\<open>ptr += Variant_ReadSize(&ptr, ...)\<close> is meant to add the
  length to the pointer that the call has moved, and that is what is modelled; C leaves the order of
  the two evaluations open.
\<close>

function find_loop :: "buf \<Rightarrow> u8 list \<Rightarrow> nat \<Rightarrow> nat \<Rightarrow> variant \<Rightarrow> (bool \<times> variant) option" where
  "find_loop mem name ptr end_p out_var =
     (if ptr < end_p then
        (case rd_u8 mem ptr of
           None \<Rightarrow> None
         | Some cur_len \<Rightarrow>
             if end_p \<le> ptr + 1 + unat cur_len then Some (False, out_var)
             else
               (case rd mem (ptr + 1) (unat cur_len) of
                  None \<Rightarrow> None
                | Some cur_name \<Rightarrow>
                    let p = ptr + 1 + unat cur_len in
                    if length name = unat cur_len \<and> cur_name = name then
                      map_option (\<lambda>(n, v). (n \<noteq> 0, v)) (Variant_FromBuffer mem p (end_p - p) out_var)
                    else
                      (case Variant_ReadSize mem p (end_p - p) of
                         None \<Rightarrow> None
                       | Some (len, p') \<Rightarrow> find_loop mem name (p' + unat len) end_p out_var)))
      else Some (False, out_var))"
  by pat_completeness auto
termination
  by (relation "measure (\<lambda>(mem, name, ptr, end_p, out_var). end_p - ptr)")
    (auto dest!: Variant_ReadSize_pos)

declare find_loop.simps [simp del]

definition Variant_Find :: "buf \<Rightarrow> variant \<Rightarrow> u8 list \<Rightarrow> variant \<Rightarrow> (bool \<times> variant) option" where
  "Variant_Find mem var name out_var =
     (if v_size var = 0 \<or> v_type var \<noteq> VAR_TYPE_MAP then Some (False, out_var)
      else do {
        ptr \<leftarrow> v_ptr var;
        find_loop mem name ptr (ptr + unat (v_size var)) out_var })"

function get_loop :: "buf \<Rightarrow> u32 \<Rightarrow> nat \<Rightarrow> nat \<Rightarrow> variant \<Rightarrow> (bool \<times> variant) option" where
  "get_loop mem index ptr end_p out_var =
     (if ptr < end_p then
        if end_p \<le> ptr + 4 then Some (False, out_var)
        else
          (case rd_u32 mem ptr of
             None \<Rightarrow> None
           | Some cur_index \<Rightarrow>
               let p = ptr + 4 in
               if cur_index = index then
                 map_option (\<lambda>(n, v). (n \<noteq> 0, v)) (Variant_FromBuffer mem p (end_p - p) out_var)
               else
                 (case Variant_ReadSize mem p (end_p - p) of
                    None \<Rightarrow> None
                  | Some (len, p') \<Rightarrow> get_loop mem index (p' + unat len) end_p out_var))
      else Some (False, out_var))"
  by pat_completeness auto
termination
  by (relation "measure (\<lambda>(mem, index, ptr, end_p, out_var). end_p - ptr)")
    (auto dest!: Variant_ReadSize_pos)

declare get_loop.simps [simp del]

definition Variant_Get :: "buf \<Rightarrow> variant \<Rightarrow> u32 \<Rightarrow> variant \<Rightarrow> (bool \<times> variant) option" where
  "Variant_Get mem var index out_var =
     (if v_size var = 0 \<or> v_type var \<noteq> VAR_TYPE_INDEX then Some (False, out_var)
      else do {
        ptr \<leftarrow> v_ptr var;
        get_loop mem index ptr (ptr + unat (v_size var)) out_var })"

function at_loop :: "buf \<Rightarrow> int \<Rightarrow> nat \<Rightarrow> nat \<Rightarrow> variant \<Rightarrow> (bool \<times> variant) option" where
  "at_loop mem pos ptr end_p out_var =
     (if ptr < end_p then
        if pos = 0 then
          map_option (\<lambda>(n, v). (n \<noteq> 0, v)) (Variant_FromBuffer mem ptr (end_p - ptr) out_var)
        else
          (case Variant_ReadSize mem ptr (end_p - ptr) of
             None \<Rightarrow> None
           | Some (len, p') \<Rightarrow> at_loop mem (pos - 1) (p' + unat len) end_p out_var)
      else Some (False, out_var))"
  by pat_completeness auto
termination
  by (relation "measure (\<lambda>(mem, pos, ptr, end_p, out_var). end_p - ptr)")
    (auto dest!: Variant_ReadSize_pos)

declare at_loop.simps [simp del]

definition Variant_At :: "buf \<Rightarrow> variant \<Rightarrow> int \<Rightarrow> variant \<Rightarrow> (bool \<times> variant) option" where
  "Variant_At mem var pos out_var =
     (if v_size var = 0 \<or> v_type var \<noteq> VAR_TYPE_LIST then Some (False, out_var)
      else do {
        ptr \<leftarrow> v_ptr var;
        at_loop mem pos ptr (ptr + unat (v_size var)) out_var })"

text \<open>The iterator over a list.\<close>

record variant_it =
  it_ptr :: nat
  it_end :: nat

definition Variant_Begin :: "variant \<Rightarrow> variant_it \<Rightarrow> (bool \<times> variant_it) option" where
  "Variant_Begin var it =
     (if v_size var = 0 \<or> v_type var \<noteq> VAR_TYPE_LIST then Some (False, it)
      else do {
        ptr \<leftarrow> v_ptr var;
        Some (True, \<lparr>it_ptr = ptr, it_end = ptr + unat (v_size var)\<rparr>) })"

definition Variant_Next :: "buf \<Rightarrow> variant_it \<Rightarrow> variant \<Rightarrow> (bool \<times> variant_it \<times> variant) option" where
  "Variant_Next mem it out_var = do {
     (n, out_var) \<leftarrow> Variant_FromBuffer mem (it_ptr it) (it_end it - it_ptr it) out_var;
     if n = 0 then Some (False, it, out_var)
     else Some (True, it\<lparr>it_ptr := it_ptr it + n\<rparr>, out_var) }"

section \<open>Conversions\<close>

text \<open>\<^verbatim>\<open>memset\<close> and \<^verbatim>\<open>memcpy\<close> into the caller's \<open>out\<close>, an object of its own.\<close>

definition Variant_ToInt :: "buf \<Rightarrow> variant \<Rightarrow> buf \<Rightarrow> nat \<Rightarrow> (bool \<times> buf) option" where
  "Variant_ToInt mem var out sz =
     (if v_size var = 0 \<or> (v_type var \<noteq> VAR_TYPE_SINT \<and> v_type var \<noteq> VAR_TYPE_UINT) then Some (False, out)
      else do {
        ptr \<leftarrow> v_ptr var;
        let n = unat (v_size var);
        high \<leftarrow> (if sz < n then rd mem (ptr + sz) (n - sz) else Some []);
        if \<exists>b \<in> set high. b \<noteq> 0 then Some (False, out)
        else do {
          out \<leftarrow> (if n < sz then wr out n (replicate (sz - n) 0) else Some out);
          bytes \<leftarrow> rd mem ptr n;
          out \<leftarrow> wr out 0 bytes;
          Some (True, out) } })"

definition Variant_ToUInt :: "buf \<Rightarrow> variant \<Rightarrow> nat \<Rightarrow> u8 list \<Rightarrow> u8 list option" where
  "Variant_ToUInt mem var sz def_val = do {
     (ok, val) \<leftarrow> Variant_ToInt mem var (replicate sz 0xCC) sz;
     Some (if ok then val else def_val) }"

definition Variant_RawBytesOfType :: "variant \<Rightarrow> u8 \<Rightarrow> u8 \<Rightarrow> nat \<times> vdata option" where
  "Variant_RawBytesOfType var type1 type2 =
     (if v_size var = 0 \<or> v_type var = VAR_TYPE_EMPTY \<or> (v_type var \<noteq> type1 \<and> v_type var \<noteq> type2) then (0, None)
      else (unat (v_size var), Some (v_data var)))"

definition Variant_RawBytes :: "variant \<Rightarrow> nat \<times> vdata option" where
  "Variant_RawBytes var = Variant_RawBytesOfType var VAR_TYPE_BYTES VAR_TYPE_ASCII"

definition Variant_RawWStr :: "variant \<Rightarrow> nat \<times> vdata option" where
  "Variant_RawWStr var = (case Variant_RawBytesOfType var VAR_TYPE_UNICODE 0 of (n, p) \<Rightarrow> (n div 2, p))"

text \<open>Copying \<open>n\<close> bytes from where the raw pointer points; nothing is read for \<open>n = 0\<close>.\<close>

definition raw_copy :: "buf \<Rightarrow> vdata option \<Rightarrow> nat \<Rightarrow> u8 list option" where
  "raw_copy mem p n =
     (if n = 0 then Some [] else (case p of Some (VAt ptr) \<Rightarrow> rd mem ptr n | _ \<Rightarrow> None))"

definition Variant_ToBytes :: "buf \<Rightarrow> variant \<Rightarrow> buf \<Rightarrow> nat \<Rightarrow> (nat \<times> buf) option" where
  "Variant_ToBytes mem var out max_size =
     (case Variant_RawBytes var of (sz, ptr) \<Rightarrow>
        if max_size < sz then Some (0, out)
        else do {
          bytes \<leftarrow> raw_copy mem ptr sz;
          out \<leftarrow> wr out 0 bytes;
          Some (sz, out) })"

definition Variant_ToAStr :: "buf \<Rightarrow> variant \<Rightarrow> buf \<Rightarrow> nat \<Rightarrow> (nat \<times> buf) option" where
  "Variant_ToAStr mem var out max_count = do {
     (sz, out) \<leftarrow> Variant_ToBytes mem var out (size_pred max_count);
     out \<leftarrow> wr out sz [0];
     Some (sz, out) }"

text \<open>A \<^verbatim>\<open>wchar_t\<close> is two bytes.\<close>

definition Variant_ToWStr :: "buf \<Rightarrow> variant \<Rightarrow> buf \<Rightarrow> nat \<Rightarrow> (nat \<times> buf) option" where
  "Variant_ToWStr mem var out max_count =
     (case Variant_RawWStr var of (sz, ptr) \<Rightarrow>
        if size_pred max_count < sz then Some (0, out)
        else do {
          bytes \<leftarrow> raw_copy mem ptr (2 * sz);
          out \<leftarrow> wr out 0 bytes;
          out \<leftarrow> wr out (2 * sz) [0, 0];
          Some (sz, out) })"

section \<open>Writers\<close>

definition Variant_Init :: "u8 \<Rightarrow> nat option \<Rightarrow> nat \<Rightarrow> variant \<Rightarrow> variant" where
  "Variant_Init type buffer max_size out_var =
     out_var\<lparr>v_max := of_nat max_size, v_data := (case buffer of None \<Rightarrow> VNull | Some p \<Rightarrow> VAt p),
             v_size := 0, v_type := type, v_error := 0\<rparr>"

text \<open>The subtraction is one of \<^verbatim>\<open>size_t\<close>.\<close>

definition Variant_Prepare :: "u8 \<Rightarrow> nat option \<Rightarrow> nat \<Rightarrow> variant \<Rightarrow> variant" where
  "Variant_Prepare type buffer max_size out_var =
     (let m = (if max_size < 5 then max_size + 2 ^ 64 - 5 else max_size - 5);
          hdr_size = (if USHRT_MAX \<le> m then 1 + 4 else if UCHAR_MAX \<le> m then 1 + 2 else 1 + 1)
      in Variant_Init type (map_option (\<lambda>p. p + hdr_size) buffer) (if buffer = None then 0 else m) out_var)"

definition Variant_Finish :: "buf \<Rightarrow> nat option \<Rightarrow> variant \<Rightarrow> (nat \<times> buf) option" where
  "Variant_Finish mem buffer v =
     (if v_error v \<noteq> 0 then Some (0, mem)
      else
        (case buffer of
           None \<Rightarrow> Some (0, mem)
         | Some p \<Rightarrow>
             if v_type v = VAR_TYPE_EMPTY then Some (0, mem)
             else
               (let t = v_type v AND VAR_TYPE_MASK; n = unat (v_size v) in
                if v_type v AND VAR_STATIC \<noteq> 0 then do {
                  mem \<leftarrow> wr mem p [t OR VAR_LEN_FIELD OR VAR_LEN8, ucast (v_size v)];
                  bytes \<leftarrow> (case v_data v of VPayload b \<Rightarrow> rd b 0 n | _ \<Rightarrow> None);
                  mem \<leftarrow> wr mem (p + 2) bytes;
                  Some (2 + n, mem) }
                else if of_nat USHRT_MAX \<le> v_max v then do {
                  mem \<leftarrow> wr mem p ((t OR (VAR_LEN_FIELD OR VAR_LEN32)) # le_bytes 4 n);
                  Some (5 + n, mem) }
                else if of_nat UCHAR_MAX \<le> v_max v then do {
                  mem \<leftarrow> wr mem p ((t OR (VAR_LEN_FIELD OR VAR_LEN16)) # le_bytes 2 n);
                  Some (3 + n, mem) }
                else do {
                  mem \<leftarrow> wr mem p ((t OR (VAR_LEN_FIELD OR VAR_LEN8)) # le_bytes 1 n);
                  Some (2 + n, mem) })))"

definition Variant_PrepareEntry :: "variant \<Rightarrow> u8 \<Rightarrow> variant \<Rightarrow> variant option" where
  "Variant_PrepareEntry var type out_var = do {
     p \<leftarrow> v_ptr var;
     Some (Variant_Prepare type (Some (p + unat (v_size var))) (unat (v_max var - v_size var)) out_var) }"

definition Variant_FinishEntry :: "buf \<Rightarrow> variant \<Rightarrow> variant \<Rightarrow> (variant \<times> buf) option" where
  "Variant_FinishEntry mem var out_var = do {
     p \<leftarrow> v_ptr var;
     (len, mem) \<leftarrow> Variant_Finish mem (Some (p + unat (v_size var))) out_var;
     Some (var\<lparr>v_size := v_size var + of_nat len\<rparr>, mem) }"

definition Variant_SInit :: "u8 \<Rightarrow> u8 list \<Rightarrow> nat \<Rightarrow> variant \<Rightarrow> (bool \<times> variant) option" where
  "Variant_SInit type inp sz out_var =
     (if 8 < sz then Some (False, out_var)
      else do {
        bytes \<leftarrow> rd inp 0 sz;
        Some (True, out_var\<lparr>v_type := type OR VAR_STATIC, v_size := of_nat sz, v_max := 0, v_data := VPayload bytes\<rparr>) })"

definition Variant_Set :: "buf \<Rightarrow> u8 \<Rightarrow> u8 list \<Rightarrow> nat \<Rightarrow> variant \<Rightarrow> (bool \<times> variant \<times> buf) option" where
  "Variant_Set mem type inp sz out_var =
     (if unat (v_max out_var) < sz then Some (False, out_var, mem)
      else do {
        p \<leftarrow> v_ptr out_var;
        bytes \<leftarrow> rd inp 0 sz;
        mem \<leftarrow> wr mem p bytes;
        Some (True, out_var\<lparr>v_type := type, v_size := of_nat sz\<rparr>, mem) })"

text \<open>The source of a raw value: \<^verbatim>\<open>NULL\<close>, \<open>-1\<close> for a hole that the caller fills, or bytes.\<close>

datatype raw_in = RawNull | RawHole | Raw "u8 list"

definition Variant_WriteRaw :: "buf \<Rightarrow> nat \<Rightarrow> u8 \<Rightarrow> raw_in \<Rightarrow> nat \<Rightarrow> (nat \<times> buf) option" where
  "Variant_WriteRaw mem ptr type inp sz = do {
     ((hdr_size, ptr), mem) \<leftarrow> Variant_WriteSize mem ptr type sz;
     mem \<leftarrow>
       (case inp of
          RawHole \<Rightarrow> Some mem
        | RawNull \<Rightarrow> if sz = 0 then Some mem else None
        | Raw bs \<Rightarrow> do { bytes \<leftarrow> rd bs 0 sz; wr mem ptr bytes });
     Some (unat hdr_size + sz, mem) }"

text \<open>
  The value behind a key. The result is the pointer to the payload, the container and the memory.
\<close>

definition write_value :: "buf \<Rightarrow> nat \<Rightarrow> variant \<Rightarrow> u8 \<Rightarrow> raw_in \<Rightarrow> nat \<Rightarrow> (nat option \<times> variant \<times> buf) option" where
  "write_value mem ptr var type inp sz =
     (if inp = RawNull then Some (Some ptr, var, mem)
      else do {
        (len, mem) \<leftarrow> Variant_WriteRaw mem ptr type inp sz;
        Some (Some (ptr + (len - sz)), var\<lparr>v_size := v_size var + of_nat len\<rparr>, mem) })"

text \<open>The container has no type yet and takes the one of the operation, or must have it.\<close>

definition container_type :: "variant \<Rightarrow> u8 \<Rightarrow> variant option" where
  "container_type var type =
     (if v_type var = VAR_TYPE_EMPTY then Some (var\<lparr>v_type := type\<rparr>)
      else if v_type var \<noteq> type then None else Some var)"

definition Variant_InsertRaw ::
  "buf \<Rightarrow> variant \<Rightarrow> u8 list \<Rightarrow> u8 \<Rightarrow> raw_in \<Rightarrow> nat \<Rightarrow> (nat option \<times> variant \<times> buf) option" where
  "Variant_InsertRaw mem var name type inp sz =
     (case container_type var VAR_TYPE_MAP of
        None \<Rightarrow> Some (None, var\<lparr>v_error := v_error var OR VAR_ERR_BAD_TYPE\<rparr>, mem)
      | Some var \<Rightarrow>
          if unat (v_max var - v_size var) < 1 + length name + 1 + 4 + sz
          then Some (None, var\<lparr>v_error := v_error var OR VAR_ERR_BAD_SIZE\<rparr>, mem)
          else do {
            base \<leftarrow> v_ptr var;
            let ptr = base + unat (v_size var);
            mem \<leftarrow> wr mem ptr [of_nat (length name)];
            mem \<leftarrow> wr mem (ptr + 1) name;
            write_value mem (ptr + 1 + length name)
              (var\<lparr>v_size := v_size var + (1 + of_nat (length name))\<rparr>) type inp sz })"

definition Variant_AddRaw ::
  "buf \<Rightarrow> variant \<Rightarrow> u32 \<Rightarrow> u8 \<Rightarrow> raw_in \<Rightarrow> nat \<Rightarrow> (nat option \<times> variant \<times> buf) option" where
  "Variant_AddRaw mem var index type inp sz =
     (case container_type var VAR_TYPE_INDEX of
        None \<Rightarrow> Some (None, var\<lparr>v_error := v_error var OR VAR_ERR_BAD_TYPE\<rparr>, mem)
      | Some var \<Rightarrow>
          if unat (v_max var - v_size var) < 4 + 1 + 4 + sz
          then Some (None, var\<lparr>v_error := v_error var OR VAR_ERR_BAD_SIZE\<rparr>, mem)
          else do {
            base \<leftarrow> v_ptr var;
            let ptr = base + unat (v_size var);
            mem \<leftarrow> wr_u32 mem ptr index;
            write_value mem (ptr + 4) (var\<lparr>v_size := v_size var + 4\<rparr>) type inp sz })"

definition Variant_AppendRaw :: "buf \<Rightarrow> variant \<Rightarrow> u8 \<Rightarrow> raw_in \<Rightarrow> nat \<Rightarrow> (nat option \<times> variant \<times> buf) option" where
  "Variant_AppendRaw mem var type inp sz =
     (case container_type var VAR_TYPE_LIST of
        None \<Rightarrow> Some (None, var\<lparr>v_error := v_error var OR VAR_ERR_BAD_TYPE\<rparr>, mem)
      | Some var \<Rightarrow>
          if unat (v_max var - v_size var) < 1 + 4 + sz
          then Some (None, var\<lparr>v_error := v_error var OR VAR_ERR_BAD_SIZE\<rparr>, mem)
          else do {
            base \<leftarrow> v_ptr var;
            write_value mem (base + unat (v_size var)) var type inp sz })"

text \<open>Opening an entry whose value is a container of its own.\<close>

definition prepare_entry ::
  "(nat option \<times> variant \<times> buf) option \<Rightarrow> u8 \<Rightarrow> variant \<Rightarrow> (bool \<times> variant \<times> variant \<times> buf) option" where
  "prepare_entry r type out_var = do {
     (p, var, mem) \<leftarrow> r;
     if p = None then Some (False, var, out_var, mem)
     else do {
       out_var \<leftarrow> Variant_PrepareEntry var type out_var;
       Some (True, var, out_var, mem) } }"

definition Variant_PrepareInsert ::
  "buf \<Rightarrow> variant \<Rightarrow> u8 list \<Rightarrow> u8 \<Rightarrow> variant \<Rightarrow> (bool \<times> variant \<times> variant \<times> buf) option" where
  "Variant_PrepareInsert mem var name type out_var =
     prepare_entry (Variant_InsertRaw mem var name 0 RawNull 0) type out_var"

definition Variant_PrepareAdd ::
  "buf \<Rightarrow> variant \<Rightarrow> u32 \<Rightarrow> u8 \<Rightarrow> variant \<Rightarrow> (bool \<times> variant \<times> variant \<times> buf) option" where
  "Variant_PrepareAdd mem var index type out_var =
     prepare_entry (Variant_AddRaw mem var index 0 RawNull 0) type out_var"

definition Variant_PrepareAppend ::
  "buf \<Rightarrow> variant \<Rightarrow> u8 \<Rightarrow> variant \<Rightarrow> (bool \<times> variant \<times> variant \<times> buf) option" where
  "Variant_PrepareAppend mem var type out_var =
     prepare_entry (Variant_AppendRaw mem var 0 RawNull 0) type out_var"

text \<open>
  Entering a variant: its payload bytes, or the bytes it points to in a memory of its own.
\<close>

definition raw_of :: "buf \<Rightarrow> variant \<Rightarrow> raw_in option" where
  "raw_of imem v =
     (if v_type v AND VAR_STATIC \<noteq> 0 then (case v_data v of VPayload b \<Rightarrow> Some (Raw b) | _ \<Rightarrow> None)
      else
        (case v_data v of
           VNull \<Rightarrow> Some RawNull
         | VAt p \<Rightarrow> map_option Raw (rd imem p (unat (v_size v)))
         | VPayload _ \<Rightarrow> None))"

definition Variant_Insert :: "buf \<Rightarrow> variant \<Rightarrow> u8 list \<Rightarrow> buf \<Rightarrow> variant \<Rightarrow> (bool \<times> variant \<times> buf) option" where
  "Variant_Insert mem var name imem in_var = do {
     r \<leftarrow> raw_of imem in_var;
     (p, var, mem) \<leftarrow> Variant_InsertRaw mem var name (v_type in_var AND VAR_TYPE_MASK) r (unat (v_size in_var));
     Some (p \<noteq> None, var, mem) }"

definition Variant_Add :: "buf \<Rightarrow> variant \<Rightarrow> u32 \<Rightarrow> buf \<Rightarrow> variant \<Rightarrow> (bool \<times> variant \<times> buf) option" where
  "Variant_Add mem var index imem in_var = do {
     r \<leftarrow> raw_of imem in_var;
     (p, var, mem) \<leftarrow> Variant_AddRaw mem var index (v_type in_var AND VAR_TYPE_MASK) r (unat (v_size in_var));
     Some (p \<noteq> None, var, mem) }"

definition Variant_Append :: "buf \<Rightarrow> variant \<Rightarrow> buf \<Rightarrow> variant \<Rightarrow> (bool \<times> variant \<times> buf) option" where
  "Variant_Append mem var imem in_var = do {
     r \<leftarrow> raw_of imem in_var;
     (p, var, mem) \<leftarrow> Variant_AppendRaw mem var (v_type in_var AND VAR_TYPE_MASK) r (unat (v_size in_var));
     Some (p \<noteq> None, var, mem) }"

definition Variant_ToBuffer :: "buf \<Rightarrow> variant \<Rightarrow> buf \<Rightarrow> nat \<Rightarrow> nat \<Rightarrow> (nat \<times> buf) option" where
  "Variant_ToBuffer imem var mem ptr max_size =
     (if max_size < 1 + 4 + unat (v_size var) then Some (0, mem)
      else do {
        r \<leftarrow> raw_of imem var;
        Variant_WriteRaw mem ptr (v_type var AND VAR_TYPE_MASK) r (unat (v_size var)) })"

definition Variant_ToPacket :: "u8 list \<Rightarrow> buf \<Rightarrow> variant \<Rightarrow> buf \<Rightarrow> nat \<Rightarrow> nat \<Rightarrow> (nat \<times> buf) option" where
  "Variant_ToPacket name imem var mem ptr max_size =
     (if max_size < 1 + length name \<or> 127 < length name then Some (0, mem)
      else do {
        mem \<leftarrow> wr mem ptr [of_nat (length name)];
        mem \<leftarrow> wr mem (ptr + 1) name;
        Variant_ToBuffer imem var mem (ptr + 1 + length name) (max_size - (1 + length name)) })"

end
