(* ===== verification/Variant_Read.thy ===== *)
theory Variant_Read
  imports SVariant
begin

unbundle bit_operations_syntax

text \<open>
  Reading variants: the readers stay inside the memory for any bytes, and a value that was written is
  the value that is read.
\<close>

section \<open>Bytes at a place\<close>

definition bytes_at :: "buf \<Rightarrow> nat \<Rightarrow> u8 list \<Rightarrow> bool" where
  "bytes_at mem p xs \<longleftrightarrow> rd mem p (length xs) = Some xs"

lemma bytes_at_nth: "bytes_at mem p xs \<longleftrightarrow> p + length xs \<le> length mem \<and> (\<forall>i < length xs. mem ! (p + i) = xs ! i)"
  by (auto simp: bytes_at_def rd_def list_eq_iff_nth_eq)

lemma bytes_at_append: "bytes_at mem p (xs @ ys) \<longleftrightarrow> bytes_at mem p xs \<and> bytes_at mem (p + length xs) ys"
proof
  assume a: "bytes_at mem p (xs @ ys)"
  have "mem ! (p + length xs + i) = ys ! i" if "i < length ys" for i
    using a that spec [of "\<lambda>i. i < length (xs @ ys) \<longrightarrow> mem ! (p + i) = (xs @ ys) ! i" "length xs + i"]
    by (simp add: bytes_at_nth add.assoc)
  with a show "bytes_at mem p xs \<and> bytes_at mem (p + length xs) ys"
    by (auto simp: bytes_at_nth nth_append)
next
  assume a: "bytes_at mem p xs \<and> bytes_at mem (p + length xs) ys"
  have "mem ! (p + i) = (xs @ ys) ! i" if "i < length (xs @ ys)" for i
  proof (cases "i < length xs")
    case False
    with a that spec [of "\<lambda>i. i < length ys \<longrightarrow> mem ! (p + length xs + i) = ys ! i" "i - length xs"]
    show ?thesis by (simp add: bytes_at_nth nth_append)
  qed (use a in \<open>simp add: bytes_at_nth nth_append\<close>)
  with a show "bytes_at mem p (xs @ ys)" by (auto simp: bytes_at_nth)
qed

lemma bytes_at_Nil [simp]: "bytes_at mem p [] \<longleftrightarrow> p \<le> length mem"
  by (simp add: bytes_at_nth)

lemma bytes_at_Cons: "bytes_at mem p (x # xs) \<longleftrightarrow> rd_u8 mem p = Some x \<and> bytes_at mem (p + 1) xs"
  using bytes_at_append [of mem p "[x]" xs] by (auto simp: bytes_at_nth rd_u8_def)

lemma bytes_at_wr: "wr mem p xs = Some mem' \<Longrightarrow> bytes_at mem' p xs"
  by (simp add: bytes_at_def rd_wr_same)

lemma bytes_at_wr_other:
  "bytes_at mem q ys \<Longrightarrow> wr mem p xs = Some mem' \<Longrightarrow> q + length ys \<le> p \<or> p + length xs \<le> q \<Longrightarrow> bytes_at mem' q ys"
  unfolding bytes_at_def using rd_wr_other [of mem p xs mem' q "length ys"] by auto

lemma bytes_at_u16: "bytes_at mem p (le_bytes 2 n) \<Longrightarrow> n < 2 ^ 16 \<Longrightarrow> rd_u16 mem p = Some (of_nat n)"
  by (simp add: bytes_at_def rd_u16_def le_val_le_bytes)

lemma bytes_at_u32: "bytes_at mem p (le_bytes 4 n) \<Longrightarrow> n < 2 ^ 32 \<Longrightarrow> rd_u32 mem p = Some (of_nat n)"
  by (simp add: bytes_at_def rd_u32_def le_val_le_bytes)

section \<open>Readers stay inside\<close>

lemma Variant_ReadSize_total:
  assumes "p + sz \<le> length mem" and "1 \<le> sz"
  shows "\<exists>len p'. Variant_ReadSize mem p sz = Some (len, p') \<and> p < p' \<and> p' \<le> p + sz"
  using assms
  by (auto simp: Variant_ReadSize_def Let_def rd_u8_def rd_u16_def rd_u32_def rd_def)

lemma int_room: "int a - int b < int c \<longleftrightarrow> a < b + c"
  by linarith

lemma Variant_FromBuffer_total:
  assumes "p + sz \<le> length mem"
  shows "\<exists>n v. Variant_FromBuffer mem p sz out = Some (n, v) \<and> n \<le> sz \<and>
    (n \<noteq> 0 \<longrightarrow> (\<exists>q. v_data v = VAt q \<and> p < q \<and> q + unat (v_size v) = p + n \<and> v_max v = v_size v \<and> v_type v AND VAR_TYPE_MASK = v_type v))"
proof (cases "sz < 1 \<or> ULONG_MAX < sz")
  case False
  then obtain len p' where r: "Variant_ReadSize mem p sz = Some (len, p')" "p < p'" "p' \<le> p + sz"
    using Variant_ReadSize_total [of p sz mem] assms by auto
  moreover have "rd_u8 mem p = Some (mem ! p)" using False assms by (simp add: rd_u8_def)
  ultimately show ?thesis
    using False unfolding Variant_FromBuffer_def int_room by (auto simp: Let_def and.assoc)
qed (auto simp: Variant_FromBuffer_def)

lemma ReadSize_inside: "p < e \<Longrightarrow> e \<le> length mem \<Longrightarrow> \<exists>len p'. Variant_ReadSize mem p (e - p) = Some (len, p') \<and> p < p'"
  using Variant_ReadSize_total [of p "e - p" mem] by (auto simp: Suc_le_eq)

text \<open>A variant that lies within a part of the memory.\<close>

definition inside :: "variant \<Rightarrow> nat \<Rightarrow> nat \<Rightarrow> bool" where
  "inside v lo hi \<longleftrightarrow> (\<exists>q. v_data v = VAt q \<and> lo \<le> q \<and> q + unat (v_size v) \<le> hi)"

lemma FromBuffer_inside:
  assumes "p \<le> e" and "e \<le> length mem"
  shows "\<exists>b v. map_option (\<lambda>(n, v). (n \<noteq> 0, v)) (Variant_FromBuffer mem p (e - p) out) = Some (b, v) \<and> (b \<longrightarrow> inside v p e)"
proof -
  have "p + (e - p) \<le> length mem" using assms by simp
  from Variant_FromBuffer_total [OF this, of out] obtain n v where v: "Variant_FromBuffer mem p (e - p) out = Some (n, v)"
    "n \<le> e - p" "n \<noteq> 0 \<longrightarrow> (\<exists>q. v_data v = VAt q \<and> p < q \<and> q + unat (v_size v) = p + n)"
    by blast
  then have "n \<noteq> 0 \<longrightarrow> inside v p e" using assms by (auto simp: inside_def)
  with v(1) show ?thesis by simp
qed

lemma inside_mono: "inside v lo hi \<Longrightarrow> lo' \<le> lo \<Longrightarrow> inside v lo' hi"
  by (auto simp: inside_def)

lemma find_loop_inside:
  "e \<le> length mem \<Longrightarrow> \<exists>b v. find_loop mem name p e out = Some (b, v) \<and> (b \<longrightarrow> inside v p e)"
proof (induction mem name p e out rule: find_loop.induct)
  case (1 mem name p e out)
  show ?case
  proof (cases "p < e \<and> p + 1 + unat (mem ! p) < e")
    case False
    then show ?thesis using 1(2) by (subst find_loop.simps) (auto simp: rd_u8_def)
  next
    case True
    let ?k = "unat (mem ! p)" and ?q = "p + 1 + unat (mem ! p)"
    have r: "rd_u8 mem p = Some (mem ! p)" "rd mem (p + 1) ?k = Some (take ?k (drop (p + 1) mem))"
      using True 1(2) by (auto simp: rd_u8_def rd_def)
    show ?thesis
    proof (cases "length name = ?k \<and> take ?k (drop (p + 1) mem) = name")
      case eq: True
      obtain b v where "map_option (\<lambda>(n, v). (n \<noteq> 0, v)) (Variant_FromBuffer mem ?q (e - ?q) out) = Some (b, v)" "b \<longrightarrow> inside v ?q e"
        using FromBuffer_inside [of ?q e mem out] True 1(2) by auto
      then show ?thesis
        using True eq r inside_mono [of v ?q e p] by (subst find_loop.simps) (auto simp: Let_def)
    next
      case ne: False
      obtain len p' where s: "Variant_ReadSize mem ?q (e - ?q) = Some (len, p')" "?q < p'"
        using ReadSize_inside [of ?q e mem] True 1(2) by auto
      have "\<exists>b v. find_loop mem name (p' + unat len) e out = Some (b, v) \<and> (b \<longrightarrow> inside v (p' + unat len) e)"
        using True ne r s 1(2) by (intro 1(1)) auto
      then show ?thesis
        using True ne r s inside_mono [of _ "p' + unat len" e p] by (subst find_loop.simps) (auto simp: Let_def)
    qed
  qed
qed

lemma get_loop_inside:
  "e \<le> length mem \<Longrightarrow> \<exists>b v. get_loop mem index p e out = Some (b, v) \<and> (b \<longrightarrow> inside v p e)"
proof (induction mem index p e out rule: get_loop.induct)
  case (1 mem index p e out)
  show ?case
  proof (cases "p < e \<and> p + 4 < e")
    case False
    then show ?thesis using 1(2) by (subst get_loop.simps) auto
  next
    case True
    then obtain i where r: "rd_u32 mem p = Some i" using 1(2) by (auto simp: rd_u32_def rd_def)
    show ?thesis
    proof (cases "i = index")
      case eq: True
      obtain b v where "map_option (\<lambda>(n, v). (n \<noteq> 0, v)) (Variant_FromBuffer mem (p + 4) (e - (p + 4)) out) = Some (b, v)" "b \<longrightarrow> inside v (p + 4) e"
        using FromBuffer_inside [of "p + 4" e mem out] True 1(2) by auto
      then show ?thesis
        using True eq r inside_mono [of v "p + 4" e p] by (subst get_loop.simps) (auto simp: Let_def)
    next
      case ne: False
      obtain len p' where s: "Variant_ReadSize mem (p + 4) (e - (p + 4)) = Some (len, p')" "p + 4 < p'"
        using ReadSize_inside [of "p + 4" e mem] True 1(2) by auto
      have "\<exists>b v. get_loop mem index (p' + unat len) e out = Some (b, v) \<and> (b \<longrightarrow> inside v (p' + unat len) e)"
        using True ne r s 1(2) by (intro 1(1)) auto
      then show ?thesis
        using True ne r s inside_mono [of _ "p' + unat len" e p] by (subst get_loop.simps) (auto simp: Let_def)
    qed
  qed
qed

lemma at_loop_inside:
  "e \<le> length mem \<Longrightarrow> \<exists>b v. at_loop mem pos p e out = Some (b, v) \<and> (b \<longrightarrow> inside v p e)"
proof (induction mem pos p e out rule: at_loop.induct)
  case (1 mem pos p e out)
  show ?case
  proof (cases "p < e")
    case False
    then show ?thesis by (subst at_loop.simps) auto
  next
    case True
    show ?thesis
    proof (cases "pos = 0")
      case eq: True
      then show ?thesis
        using True FromBuffer_inside [of p e mem out] 1(2) by (subst at_loop.simps) auto
    next
      case ne: False
      obtain len p' where s: "Variant_ReadSize mem p (e - p) = Some (len, p')" "p < p'"
        using ReadSize_inside [of p e mem] True 1(2) by auto
      have "\<exists>b v. at_loop mem (pos - 1) (p' + unat len) e out = Some (b, v) \<and> (b \<longrightarrow> inside v (p' + unat len) e)"
        using True ne s 1(2) by (intro 1(1)) auto
      then show ?thesis
        using True ne s inside_mono [of _ "p' + unat len" e p] by (subst at_loop.simps) auto
    qed
  qed
qed

text \<open>
  C36: the readers are total and stay inside. Whatever bytes a message holds, looking up a name, an
  index or a position in a variant that lies within the memory reads nothing outside of it,
  terminates, and a variant that is found lies within the one it was found in; so does what the
  iterator delivers, and the iterator stays within the list.
\<close>

theorem Variant_readers_inside:
  assumes v: "inside var lo hi" and mem: "hi \<le> length mem"
  shows "(\<exists>b v. Variant_Find mem var name out = Some (b, v) \<and> (b \<longrightarrow> inside v lo hi)) \<and>
    (\<exists>b v. Variant_Get mem var index out = Some (b, v) \<and> (b \<longrightarrow> inside v lo hi)) \<and>
    (\<exists>b v. Variant_At mem var pos out = Some (b, v) \<and> (b \<longrightarrow> inside v lo hi)) \<and>
    (\<exists>b it. Variant_Begin var it0 = Some (b, it) \<and> (b \<longrightarrow> lo \<le> it_ptr it \<and> it_ptr it \<le> it_end it \<and> it_end it \<le> hi)) \<and>
    (lo \<le> it_ptr it1 \<and> it_ptr it1 \<le> it_end it1 \<and> it_end it1 \<le> hi \<longrightarrow>
      (\<exists>b it2 v. Variant_Next mem it1 out = Some (b, it2, v) \<and> it_ptr it1 \<le> it_ptr it2 \<and> it_ptr it2 \<le> it_end it2 \<and>
         it_end it2 = it_end it1 \<and> (b \<longrightarrow> it_ptr it1 < it_ptr it2 \<and> inside v lo hi)))"
proof -
  obtain p where p: "v_data var = VAt p" "lo \<le> p" "p + unat (v_size var) \<le> hi" using v by (auto simp: inside_def)
  have up: "inside w p (p + unat (v_size var)) \<Longrightarrow> inside w lo hi" for w using p by (auto simp: inside_def)
  have e: "p + unat (v_size var) \<le> length mem" using p mem by simp
  have f: "\<exists>b v. Variant_Find mem var name out = Some (b, v) \<and> (b \<longrightarrow> inside v lo hi)"
    using find_loop_inside [OF e, of name p out] up p by (auto simp: Variant_Find_def v_ptr_def)
  have g: "\<exists>b v. Variant_Get mem var index out = Some (b, v) \<and> (b \<longrightarrow> inside v lo hi)"
    using get_loop_inside [OF e, of index p out] up p by (auto simp: Variant_Get_def v_ptr_def)
  have a: "\<exists>b v. Variant_At mem var pos out = Some (b, v) \<and> (b \<longrightarrow> inside v lo hi)"
    using at_loop_inside [OF e, of pos p out] up p by (auto simp: Variant_At_def v_ptr_def)
  have b: "\<exists>b it. Variant_Begin var it0 = Some (b, it) \<and> (b \<longrightarrow> lo \<le> it_ptr it \<and> it_ptr it \<le> it_end it \<and> it_end it \<le> hi)"
    using p by (auto simp: Variant_Begin_def v_ptr_def)
  have n: "\<exists>b it2 v. Variant_Next mem it1 out = Some (b, it2, v) \<and> it_ptr it1 \<le> it_ptr it2 \<and> it_ptr it2 \<le> it_end it2 \<and>
      it_end it2 = it_end it1 \<and> (b \<longrightarrow> it_ptr it1 < it_ptr it2 \<and> inside v lo hi)"
    if it: "lo \<le> it_ptr it1" "it_ptr it1 \<le> it_end it1" "it_end it1 \<le> hi"
  proof -
    have "it_ptr it1 + (it_end it1 - it_ptr it1) \<le> length mem" using it mem by simp
    from Variant_FromBuffer_total [OF this, of out] obtain n v where
      r: "Variant_FromBuffer mem (it_ptr it1) (it_end it1 - it_ptr it1) out = Some (n, v)" and n: "n \<le> it_end it1 - it_ptr it1"
      and q: "n \<noteq> 0 \<longrightarrow> (\<exists>q. v_data v = VAt q \<and> it_ptr it1 < q \<and> q + unat (v_size v) = it_ptr it1 + n)" by blast
    show ?thesis
    proof (cases "n = 0")
      case True
      then show ?thesis using it r by (auto simp: Variant_Next_def)
    next
      case False
      with q n it have "inside v lo hi" by (auto simp: inside_def)
      with False n it r show ?thesis by (auto simp: Variant_Next_def)
    qed
  qed
  have n': "lo \<le> it_ptr it1 \<and> it_ptr it1 \<le> it_end it1 \<and> it_end it1 \<le> hi \<longrightarrow>
      (\<exists>b it2 v. Variant_Next mem it1 out = Some (b, it2, v) \<and> it_ptr it1 \<le> it_ptr it2 \<and> it_ptr it2 \<le> it_end it2 \<and>
         it_end it2 = it_end it1 \<and> (b \<longrightarrow> it_ptr it1 < it_ptr it2 \<and> inside v lo hi))" by (intro impI, elim conjE, rule n)
  show ?thesis by (rule conjI [OF f conjI [OF g conjI [OF a conjI [OF b n']]]])
qed

definition msg_ex :: buf where "msg_ex = [1, 65, 0x2C, 9, 7]"
definition map_ex :: variant where
  "map_ex = \<lparr>v_type = VAR_TYPE_MAP, v_error = 0, v_size = 5, v_max = 5, v_data = VAt 0\<rparr>"

theorem Variant_readers_inside_witness: "\<exists>b v. Variant_Find msg_ex map_ex [65] map_ex = Some (b, v) \<and> (b \<longrightarrow> inside v 0 5)"
proof -
  have "inside map_ex 0 5" "5 \<le> length msg_ex" by (simp_all add: inside_def map_ex_def msg_ex_def)
  from conjunct1 [OF Variant_readers_inside [OF this]] show ?thesis .
qed

section \<open>Values\<close>

text \<open>The header that \<^verbatim>\<open>Variant_WriteSize\<close> writes.\<close>

definition value_header :: "u8 \<Rightarrow> nat \<Rightarrow> u8 list" where
  "value_header t n =
     (if n = 1 then [t OR VAR_LEN8]
      else if n = 2 then [t OR VAR_LEN16]
      else if n = 4 then [t OR VAR_LEN32]
      else if n = 8 then [t OR VAR_LEN64]
      else if USHRT_MAX \<le> n then (t OR (VAR_LEN_FIELD OR VAR_LEN32)) # le_bytes 4 n
      else if UCHAR_MAX \<le> n then (t OR (VAR_LEN_FIELD OR VAR_LEN16)) # le_bytes 2 n
      else (t OR (VAR_LEN_FIELD OR VAR_LEN8)) # le_bytes 1 n)"

text \<open>A type that fits the type byte and has a payload.\<close>

definition value_type :: "u8 \<Rightarrow> bool" where
  "value_type t \<longleftrightarrow> t AND VAR_TYPE_MASK = t \<and> t \<noteq> VAR_TYPE_EMPTY"

lemma Variant_WriteSize_eq:
  assumes "value_type t"
  shows "Variant_WriteSize mem p t n = map_option (\<lambda>m. ((of_nat (length (value_header t n)), p + length (value_header t n)), m)) (wr mem p (value_header t n))"
proof -
  have b: "(map_option (Pair c) m \<bind> (\<lambda>(k, mem). Some ((k, p + unat k), mem))) = map_option (\<lambda>mem. ((c, p + unat c), mem)) m"
    for c :: u32 and m :: "buf option" by (cases m) simp_all
  have t: "t AND VAR_TYPE_MASK = t" "t \<noteq> VAR_TYPE_EMPTY" using assms by (simp_all add: value_type_def)
  show ?thesis
    unfolding Variant_WriteSize_def value_header_def Let_def t(1) if_not_P [OF t(2)] if_distrib [of "\<lambda>x. Option.bind x _"] b
    by simp
qed

text \<open>A header from which the reader takes the length \<open>n\<close>.\<close>

definition header_ok :: "u8 \<Rightarrow> nat \<Rightarrow> u8 list \<Rightarrow> bool" where
  "header_ok t n h \<longleftrightarrow> h \<noteq> [] \<and> hd h AND VAR_TYPE_MASK = t \<and> n < ULONG_MAX \<and>
     (\<forall>mem p sz. bytes_at mem p h \<longrightarrow> length h \<le> sz \<longrightarrow> Variant_ReadSize mem p sz = Some (of_nat n, p + length h))"

lemma type_bits:
  assumes "value_type t"
  shows "(t OR b) AND VAR_TYPE_MASK = t OR (b AND VAR_TYPE_MASK)"
    "(t OR b) AND VAR_LEN_FIELD = b AND VAR_LEN_FIELD" "(t OR b) AND VAR_LEN_MASK = b AND VAR_LEN_MASK"
proof -
  have t: "t AND VAR_TYPE_MASK = t" using assms by (simp add: value_type_def)
  have f: "t AND VAR_LEN_FIELD = 0" "t AND VAR_LEN_MASK = 0"
    by (subst t [symmetric]; simp only: and.assoc; simp add: var_type_defs var_len_defs)+
  show "(t OR b) AND VAR_TYPE_MASK = t OR (b AND VAR_TYPE_MASK)"
    using t by (simp add: bit.conj_disj_distrib2)
  show "(t OR b) AND VAR_LEN_FIELD = b AND VAR_LEN_FIELD" "(t OR b) AND VAR_LEN_MASK = b AND VAR_LEN_MASK"
    using f by (simp_all add: bit.conj_disj_distrib2)
qed

lemma ucast_of_nat_small:
  "n < 256 \<Longrightarrow> (ucast (of_nat n :: u8) :: u32) = of_nat n"
  "n < 65536 \<Longrightarrow> (ucast (of_nat n :: u16) :: u32) = of_nat n"
  by (simp_all add: word_unat_eq_iff unsigned_ucast_eq unat_of_nat take_bit_nat_eq_self)

lemma value_header_ok:
  assumes t: "value_type t" and n: "n < ULONG_MAX"
  shows "header_ok t n (value_header t n)"
proof -
  note bits = type_bits [OF t]
  have tm: "t AND VAR_TYPE_MASK = t" "t \<noteq> VAR_TYPE_EMPTY" using t by (simp_all add: value_type_def)
  have fixed: "header_ok t m [t OR b]"
    if "b AND VAR_LEN_FIELD = 0" "b AND VAR_TYPE_MASK = 0"
      "(b AND VAR_LEN_MASK, m) \<in> {(VAR_LEN8, 1), (VAR_LEN16, 2), (VAR_LEN32, 4), (VAR_LEN64, 8)}" for b m
    using that bits [of b] tm
    by (auto simp: header_ok_def bytes_at_Cons Variant_ReadSize_def Let_def) (simp_all add: var_len_defs)
  have hd: "(t OR (VAR_LEN_FIELD OR b)) AND VAR_TYPE_MASK = t" "(t OR (VAR_LEN_FIELD OR b)) AND VAR_LEN_FIELD \<noteq> 0"
    "(t OR (VAR_LEN_FIELD OR b)) AND VAR_LEN_MASK = b"
    if "b \<in> {VAR_LEN8, VAR_LEN16, VAR_LEN32}" for b
    using that bits [of "VAR_LEN_FIELD OR b"] tm by (auto simp: var_len_defs VAR_TYPE_MASK_def)
  have u8: "header_ok t n ((t OR (VAR_LEN_FIELD OR VAR_LEN8)) # le_bytes 1 n)" if "n < UCHAR_MAX"
    using that n hd [of VAR_LEN8]
    by (auto simp: header_ok_def bytes_at_Cons Variant_ReadSize_def Let_def ucast_of_nat_small)
  have u16: "header_ok t n ((t OR (VAR_LEN_FIELD OR VAR_LEN16)) # le_bytes 2 n)" if "n < USHRT_MAX"
    using that n hd [of VAR_LEN16] bytes_at_u16 [of _ _ n]
    by (auto simp: header_ok_def bytes_at_Cons Variant_ReadSize_def Let_def ucast_of_nat_small VAR_LEN8_def VAR_LEN16_def)
  have u32: "header_ok t n ((t OR (VAR_LEN_FIELD OR VAR_LEN32)) # le_bytes 4 n)"
    using n hd [of VAR_LEN32] bytes_at_u32 [of _ _ n]
    by (auto simp: header_ok_def bytes_at_Cons Variant_ReadSize_def Let_def VAR_LEN8_def VAR_LEN16_def VAR_LEN32_def)
  show ?thesis
    using fixed [of VAR_LEN8 1] fixed [of VAR_LEN16 2] fixed [of VAR_LEN32 4] fixed [of VAR_LEN64 8] u8 u16 u32
    by (auto simp: value_header_def var_len_defs VAR_TYPE_MASK_def)
qed

lemma FromBuffer_value:
  assumes h: "header_ok t n h" and at: "bytes_at mem p h" and sz: "length h + n \<le> sz" "sz \<le> ULONG_MAX"
  shows "Variant_FromBuffer mem p sz out =
    Some (length h + n, out\<lparr>v_type := t, v_data := VAt (p + length h), v_size := of_nat n, v_max := of_nat n\<rparr>)"
proof -
  obtain b h' where b: "h = b # h'" using h by (cases h) (auto simp: header_ok_def)
  have r: "rd_u8 mem p = Some b" using at b by (simp add: bytes_at_Cons)
  have n: "n < ULONG_MAX" and s: "Variant_ReadSize mem p sz = Some (of_nat n, p + length h)" and t: "b AND VAR_TYPE_MASK = t"
    using h at sz b by (auto simp: header_ok_def)
  have u: "unat (of_nat n :: u32) = n" using n by (simp add: unat_of_nat)
  have "unat (- 1 :: u32) = ULONG_MAX" by (simp add: unsigned_minus_1_eq_mask mask_eq_exp_minus_1)
  then have "(of_nat n :: u32) \<noteq> - 1" using n u by auto
  then show ?thesis
    using r s t u sz b unfolding Variant_FromBuffer_def int_room by (auto simp: Let_def)
qed

end
