(* ===== verification/Variant_Containers.thy ===== *)
theory Variant_Containers
  imports Variant_Read
begin

unbundle bit_operations_syntax

text \<open>
  Maps, indices and lists as lists of entries: what an insertion appends, what a lookup finds, packets,
  integers, and entries that are abandoned half-way.
\<close>

section \<open>Containers\<close>

text \<open>An entry: the bytes of its key, the header of its value, the type and the payload.\<close>

type_synonym entry = "u8 list \<times> u8 list \<times> u8 \<times> u8 list"

fun entry_bytes :: "entry \<Rightarrow> u8 list" where
  "entry_bytes (k, h, t, b) = k @ h @ b"

fun entry_ok :: "entry \<Rightarrow> bool" where
  "entry_ok (k, h, t, b) \<longleftrightarrow> header_ok t (length b) h"

fun entry_item :: "entry \<Rightarrow> u8 list \<times> u8 \<times> u8 list" where
  "entry_item (k, h, t, b) = (k, t, b)"

abbreviation entries_bytes :: "entry list \<Rightarrow> u8 list" where
  "entries_bytes es \<equiv> concat (map entry_bytes es)"

text \<open>The keys of a map and of an index; a list has none.\<close>

definition name_key :: "u8 list \<Rightarrow> u8 list" where "name_key name = of_nat (length name) # name"
definition index_key :: "u32 \<Rightarrow> u8 list" where "index_key i = le_bytes 4 (unat i)"

lemma index_key_inj: "index_key i = index_key j \<Longrightarrow> i = j"
proof -
  assume "index_key i = index_key j"
  then have "le_val (le_bytes 4 (unat i)) = le_val (le_bytes 4 (unat j))" by (simp add: index_key_def)
  moreover have "unat x < 256 ^ 4" for x :: u32 using unsigned_less [of x, where ?'a = nat] by simp
  ultimately show ?thesis by (simp add: le_val_le_bytes word_unat_eq_iff)
qed

text \<open>What a variant stands for.\<close>

definition denotes :: "buf \<Rightarrow> variant \<Rightarrow> u8 \<Rightarrow> u8 list \<Rightarrow> bool" where
  "denotes mem v t b \<longleftrightarrow> v_type v = t \<and> unat (v_size v) = length b \<and> (\<exists>q. v_data v = VAt q \<and> bytes_at mem q b)"

definition found :: "buf \<Rightarrow> (bool \<times> variant) option \<Rightarrow> (u8 \<times> u8 list) option \<Rightarrow> bool" where
  "found mem r item \<longleftrightarrow> (\<exists>b v. r = Some (b, v) \<and> (case item of None \<Rightarrow> \<not> b | Some (t, bs) \<Rightarrow> b \<and> denotes mem v t bs))"

lemma found_Some [simp]:
  "found mem (Some (b, v)) item \<longleftrightarrow> (case item of None \<Rightarrow> \<not> b | Some (t, bs) \<Rightarrow> b \<and> denotes mem v t bs)"
  by (auto simp: found_def)

lemma found_value:
  assumes "header_ok t (length b) h" and "bytes_at mem p (h @ b)" and "length h + length b \<le> sz" "sz \<le> ULONG_MAX"
  shows "found mem (map_option (\<lambda>(n, v). (n \<noteq> 0, v)) (Variant_FromBuffer mem p sz out)) (Some (t, b))"
proof -
  have n: "length b < ULONG_MAX" and ne: "h \<noteq> []" using assms(1) by (auto simp: header_ok_def)
  then have "unat (of_nat (length b) :: u32) = length b" by (simp add: unat_of_nat)
  then show ?thesis
    using FromBuffer_value [OF assms(1) _ assms(3,4), of mem p out] assms(2) ne
    by (simp add: bytes_at_append denotes_def)
qed

lemma header_skip:
  assumes "header_ok t (length b) h" and "bytes_at mem p h" and "length h \<le> sz"
  shows "Variant_ReadSize mem p sz = Some (of_nat (length b), p + length h)" "unat (of_nat (length b) :: u32) = length b" "h \<noteq> []"
  using assms by (auto simp: header_ok_def unat_of_nat)

lemma find_loop_entries:
  "bytes_at mem p (entries_bytes es) \<Longrightarrow> length (entries_bytes es) \<le> ULONG_MAX \<Longrightarrow>
   \<forall>e \<in> set es. entry_ok e \<and> (\<exists>n. fst e = name_key n \<and> length n < 256) \<Longrightarrow>
   found mem (find_loop mem name p (p + length (entries_bytes es)) out) (map_of (map entry_item es) (name_key name))"
proof (induction es arbitrary: p)
  case Nil
  then show ?case by (subst find_loop.simps) simp
next
  case (Cons e es)
  obtain k h t b where e: "e = (k, h, t, b)" by (cases e)
  obtain n where n: "k = name_key n" "length n < 256" and ok: "header_ok t (length b) h" using Cons.prems(3) e by auto
  define E where "E = p + length (entries_bytes (e # es))"
  let ?q = "p + 1 + length n"
  have u: "unat (of_nat (length n) :: u8) = length n" using n(2) by (simp add: unat_of_nat)
  have at: "rd_u8 mem p = Some (of_nat (length n))" "bytes_at mem (p + 1) n" "bytes_at mem ?q h" "bytes_at mem (?q + length h) b"
    "bytes_at mem (?q + length h + length b) (entries_bytes es)"
    using Cons.prems(1) by (simp_all add: e n name_key_def bytes_at_append bytes_at_Cons add.assoc)
  note r = at(1) at(2) [unfolded bytes_at_def]
  have E: "E = ?q + length h + length b + length (entries_bytes es)" by (simp add: E_def e n name_key_def)
  have h: "0 < length h" using ok by (simp add: header_ok_def)
  have lt: "p < E" "\<not> E \<le> p + 1 + length n" using E h by linarith+
  have le: "length h + length b \<le> E - ?q" using E by linarith
  have le2: "E - ?q \<le> ULONG_MAX" using E Cons.prems(2) by (simp add: e n name_key_def)
  have "length h \<le> E - ?q" using le by simp
  note sk = header_skip [OF ok at(3) this]
  show ?case
  proof (cases "n = name")
    case True
    have "find_loop mem name p E out = map_option (\<lambda>(n, v). (n \<noteq> 0, v)) (Variant_FromBuffer mem ?q (E - ?q) out)"
      using lt r u True by (subst find_loop.simps) (simp add: Let_def)
    moreover have "found mem (map_option (\<lambda>(n, v). (n \<noteq> 0, v)) (Variant_FromBuffer mem ?q (E - ?q) out)) (Some (t, b))"
      using at(3,4) by (intro found_value [OF ok _ le le2]) (simp add: bytes_at_append)
    ultimately show ?thesis unfolding E_def [symmetric] using True by (simp add: e n)
  next
    case False
    have "find_loop mem name p E out = find_loop mem name (?q + length h + length b) E out"
      using lt r u False sk by (subst find_loop.simps) (simp add: Let_def)
    moreover have "found mem (find_loop mem name (?q + length h + length b) E out) (map_of (map entry_item es) (name_key name))"
      unfolding E using Cons.prems at(5) by (intro Cons.IH) (auto simp: e n)
    moreover have "name_key n \<noteq> name_key name" using False by (simp add: name_key_def)
    ultimately show ?thesis unfolding E_def [symmetric] by (simp add: e n)
  qed
qed

lemma get_loop_entries:
  "bytes_at mem p (entries_bytes es) \<Longrightarrow> length (entries_bytes es) \<le> ULONG_MAX \<Longrightarrow>
   \<forall>e \<in> set es. entry_ok e \<and> (\<exists>i. fst e = index_key i) \<Longrightarrow>
   found mem (get_loop mem i p (p + length (entries_bytes es)) out) (map_of (map entry_item es) (index_key i))"
proof (induction es arbitrary: p)
  case Nil
  then show ?case by (subst get_loop.simps) simp
next
  case (Cons e es)
  obtain k h t b where e: "e = (k, h, t, b)" by (cases e)
  obtain j where n: "k = index_key j" and ok: "header_ok t (length b) h" using Cons.prems(3) e by auto
  define E where "E = p + length (entries_bytes (e # es))"
  let ?q = "p + 4"
  have l4: "length (index_key j) = 4" by (simp add: index_key_def)
  have at: "bytes_at mem p (index_key j)" "bytes_at mem ?q h" "bytes_at mem (?q + length h) b"
    "bytes_at mem (?q + length h + length b) (entries_bytes es)"
    using Cons.prems(1) l4 by (simp_all add: e n bytes_at_append add.assoc)
  have r: "rd_u32 mem p = Some j"
    using bytes_at_u32 [OF at(1) [unfolded index_key_def]] unsigned_less [of j, where ?'a = nat] by simp
  have E: "E = ?q + length h + length b + length (entries_bytes es)" by (simp add: E_def e n l4)
  have h: "0 < length h" using ok by (simp add: header_ok_def)
  have lt: "p < E" "\<not> E \<le> p + 4" using E h by linarith+
  have le: "length h + length b \<le> E - ?q" using E by linarith
  have le2: "E - ?q \<le> ULONG_MAX" using E Cons.prems(2) by (simp add: e n l4)
  have "length h \<le> E - ?q" using le by simp
  note sk = header_skip [OF ok at(2) this]
  show ?case
  proof (cases "j = i")
    case True
    have "get_loop mem i p E out = map_option (\<lambda>(n, v). (n \<noteq> 0, v)) (Variant_FromBuffer mem ?q (E - ?q) out)"
      using lt r True by (subst get_loop.simps) (simp add: Let_def)
    moreover have "found mem (map_option (\<lambda>(n, v). (n \<noteq> 0, v)) (Variant_FromBuffer mem ?q (E - ?q) out)) (Some (t, b))"
      using at(2,3) by (intro found_value [OF ok _ le le2]) (simp add: bytes_at_append)
    ultimately show ?thesis unfolding E_def [symmetric] using True by (simp add: e n)
  next
    case False
    have "get_loop mem i p E out = get_loop mem i (?q + length h + length b) E out"
      using lt r False sk by (subst get_loop.simps) (simp add: Let_def)
    moreover have "found mem (get_loop mem i (?q + length h + length b) E out) (map_of (map entry_item es) (index_key i))"
      unfolding E using Cons.prems at(4) by (intro Cons.IH) (auto simp: e n)
    moreover have "index_key j \<noteq> index_key i" using False index_key_inj by blast
    ultimately show ?thesis unfolding E_def [symmetric] by (simp add: e n)
  qed
qed

lemma at_loop_entries:
  "bytes_at mem p (entries_bytes es) \<Longrightarrow> length (entries_bytes es) \<le> ULONG_MAX \<Longrightarrow>
   \<forall>e \<in> set es. entry_ok e \<and> fst e = [] \<Longrightarrow>
   found mem (at_loop mem (int i) p (p + length (entries_bytes es)) out) (if i < length es then Some (snd (entry_item (es ! i))) else None)"
proof (induction es arbitrary: p i)
  case Nil
  then show ?case by (subst at_loop.simps) simp
next
  case (Cons e es)
  obtain h t b where e: "e = ([], h, t, b)" using Cons.prems(3) by (cases e) auto
  have ok: "header_ok t (length b) h" using Cons.prems(3) e by auto
  define E where "E = p + length (entries_bytes (e # es))"
  have at: "bytes_at mem p h" "bytes_at mem (p + length h) b" "bytes_at mem (p + length h + length b) (entries_bytes es)"
    using Cons.prems(1) by (simp_all add: e bytes_at_append add.assoc)
  have E: "E = p + length h + length b + length (entries_bytes es)" by (simp add: E_def e)
  have h: "0 < length h" using ok by (simp add: header_ok_def)
  have lt: "p < E" using E h by linarith
  have le: "length h + length b \<le> E - p" using E by linarith
  have le2: "E - p \<le> ULONG_MAX" using E Cons.prems(2) by (simp add: e)
  have "length h \<le> E - p" using le by simp
  note sk = header_skip [OF ok at(1) this]
  show ?case
  proof (cases i)
    case 0
    have "at_loop mem 0 p E out = map_option (\<lambda>(n, v). (n \<noteq> 0, v)) (Variant_FromBuffer mem p (E - p) out)"
      using lt by (subst at_loop.simps) simp
    moreover have "found mem (map_option (\<lambda>(n, v). (n \<noteq> 0, v)) (Variant_FromBuffer mem p (E - p) out)) (Some (t, b))"
      using at(1,2) by (intro found_value [OF ok _ le le2]) (simp add: bytes_at_append)
    ultimately show ?thesis unfolding E_def [symmetric] using 0 by (simp add: e)
  next
    case (Suc j)
    have "at_loop mem (int i) p E out = at_loop mem (int j) (p + length h + length b) E out"
      using lt Suc sk by (subst at_loop.simps) simp
    moreover have "found mem (at_loop mem (int j) (p + length h + length b) E out)
        (if j < length es then Some (snd (entry_item (es ! j))) else None)"
      unfolding E using Cons.prems at(3) by (intro Cons.IH) (auto simp: e)
    ultimately show ?thesis unfolding E_def [symmetric] using Suc by (simp split: if_split_asm)
  qed
qed

section \<open>Writing entries\<close>

lemma wr_seq: "wr m p a = Some m1 \<Longrightarrow> wr m1 (p + length a) b = Some m2 \<Longrightarrow> wr m p (a @ b) = Some m2"
  by (auto simp: wr_def ac_simps split: if_split_asm)

lemma wr_total: "p + length a \<le> length m \<Longrightarrow> \<exists>m'. wr m p a = Some m' \<and> length m' = length m"
  by (rule wr_defined)

lemma write_value_eq:
  assumes t: "value_type t" and room: "ptr + length (value_header t (length b)) + length b \<le> length mem"
    and n: "length b < ULONG_MAX"
  shows "\<exists>mem'. wr mem ptr (value_header t (length b) @ b) = Some mem' \<and>
    write_value mem ptr var t (Raw b) (length b) =
      Some (Some (ptr + length (value_header t (length b))),
        var\<lparr>v_size := v_size var + of_nat (length (value_header t (length b)) + length b)\<rparr>, mem')"
proof -
  let ?h = "value_header t (length b)"
  have lh: "length ?h \<le> 5" by (simp add: value_header_def)
  then have u: "unat (of_nat (length ?h) :: u32) = length ?h" by (simp add: unat_of_nat)
  obtain m1 where m1: "wr mem ptr ?h = Some m1" "length m1 = length mem" using wr_total [of ptr ?h mem] room by auto
  obtain m2 where m2: "wr m1 (ptr + length ?h) b = Some m2" using wr_total [of "ptr + length ?h" b m1] m1(2) room by auto
  have "Variant_WriteRaw mem ptr t (Raw b) (length b) = Some (length ?h + length b, m2)"
    using m1(1) m2 u by (simp add: Variant_WriteRaw_def Variant_WriteSize_eq [OF t] rd_def)
  with wr_seq [OF m1(1) m2] show ?thesis by (auto simp: write_value_def)
qed

text \<open>A container holds a list of entries.\<close>

definition container :: "(u8 list \<Rightarrow> bool) \<Rightarrow> u8 \<Rightarrow> buf \<Rightarrow> variant \<Rightarrow> entry list \<Rightarrow> bool" where
  "container K T mem v es \<longleftrightarrow>
     (\<exists>p. v_data v = VAt p \<and> bytes_at mem p (entries_bytes es) \<and> p + unat (v_max v) \<le> length mem) \<and>
     unat (v_size v) = length (entries_bytes es) \<and> v_size v \<le> v_max v \<and>
     (v_type v = T \<or> v_type v = VAR_TYPE_EMPTY \<and> es = []) \<and>
     (\<forall>e \<in> set es. entry_ok e \<and> K (fst e))"

definition new_entry :: "u8 list \<Rightarrow> u8 \<Rightarrow> u8 list \<Rightarrow> entry" where
  "new_entry k t b = (k, value_header t (length b), t, b)"

text \<open>What a successful insertion does to the container.\<close>

definition appended :: "(u8 list \<Rightarrow> bool) \<Rightarrow> u8 \<Rightarrow> buf \<Rightarrow> variant \<Rightarrow> entry list \<Rightarrow> u8 list \<Rightarrow> u8 \<Rightarrow> u8 list \<Rightarrow>
    (nat option \<times> variant \<times> buf) option \<Rightarrow> bool" where
  "appended K T mem v es k t b r \<longleftrightarrow>
     (\<exists>q v' mem'. r = Some (Some q, v', mem') \<and> container K T mem' v' (es @ [new_entry k t b]) \<and>
        v_max v' = v_max v \<and> v_data v' = v_data v \<and> v_type v' = T \<and> v_error v' = v_error v \<and>
        length mem' = length mem \<and>
        unat (v_size v') \<le> unat (v_size v) + length k + 5 + length b \<and>
        (\<forall>p i n. v_data v = VAt p \<and> (i + n \<le> p + unat (v_size v) \<or> p + unat (v_max v) \<le> i) \<longrightarrow> rd mem' i n = rd mem i n))"

lemma append_entry:
  assumes c: "container K T mem v es" and t: "value_type t" and b: "length b < ULONG_MAX" and k: "K k"
    and room: "length k + 5 + length b \<le> unat (v_max v - v_size v)" and p: "v_data v = VAt p"
    and w: "wr mem (p + unat (v_size v)) (k @ value_header t (length b) @ b) = Some mem'"
    and v': "v' = v\<lparr>v_type := T, v_size := v_size v + of_nat (length k + length (value_header t (length b)) + length b)\<rparr>"
  shows "appended K T mem v es k t b (Some (Some q, v', mem'))"
proof -
  let ?h = "value_header t (length b)" and ?p = "p + unat (v_size v)"
  have lh: "length ?h \<le> 5" by (simp add: value_header_def)
  have le: "v_size v \<le> v_max v" and sz: "unat (v_size v) = length (entries_bytes es)"
    and at: "bytes_at mem p (entries_bytes es)" and mem: "p + unat (v_max v) \<le> length mem"
    using c p by (auto simp: container_def)
  have d: "unat (v_max v - v_size v) = unat (v_max v) - unat (v_size v)" using le by (rule unat_sub)
  have fit: "unat (v_size v) + (length k + length ?h + length b) \<le> unat (v_max v)"
    using room lh d le by (simp add: word_le_nat_alt)
  have mx: "unat (v_max v) < 2 ^ 32" using unsigned_less [of "v_max v", where ?'a = nat] by simp
  have us: "unat (v_size v + of_nat (length k + length ?h + length b)) = unat (v_size v) + (length k + length ?h + length b)"
    using fit mx by (simp only: unat_word_ariths unat_of_nat) (simp add: mod_simps)
  have sz': "unat (v_size v') = length (entries_bytes (es @ [new_entry k t b]))"
    using us sz by (simp add: v' new_entry_def)
  have at': "bytes_at mem' p (entries_bytes (es @ [new_entry k t b]))"
    using bytes_at_wr_other [OF at w] bytes_at_wr [OF w] sz by (simp add: bytes_at_append new_entry_def)
  have l: "length mem' = length mem" using w by (rule length_wr)
  have "container K T mem' v' (es @ [new_entry k t b])"
    using c p at' sz' l fit us value_header_ok [OF t b] k
    by (auto simp: container_def v' word_le_nat_alt new_entry_def)
  moreover have "rd mem' i n = rd mem i n" if "i + n \<le> p + unat (v_size v) \<or> p + unat (v_max v) \<le> i" for i n
    using that fit by (intro rd_wr_other [OF w]) auto
  moreover have "unat (v_size v') \<le> unat (v_size v) + length k + 5 + length b" using us lh by (simp add: v')
  ultimately show ?thesis using l p by (auto simp: appended_def v')
qed

text \<open>The guards of an insertion.\<close>

lemma container_type_ok: "container K T mem v es \<Longrightarrow> container_type v T = Some (v\<lparr>v_type := T\<rparr>)"
  by (auto simp: container_def container_type_def)

lemma entry_room:
  assumes c: "container K T mem v es" and p: "v_data v = VAt p"
    and room: "length k + 5 + length b \<le> unat (v_max v - v_size v)"
  shows "p + unat (v_size v) + length k + length (value_header t (length b)) + length b \<le> length mem"
proof -
  have "length (value_header t (length b)) \<le> 5" by (simp add: value_header_def)
  moreover have "unat (v_max v - v_size v) = unat (v_max v) - unat (v_size v)" "v_size v \<le> v_max v" "p + unat (v_max v) \<le> length mem"
    using c p by (auto simp: container_def unat_sub)
  ultimately show ?thesis using room by (simp add: word_le_nat_alt)
qed

lemma write_entry:
  assumes c: "container K T mem v es" and t: "value_type t" and b: "length b < ULONG_MAX" and k: "K k"
    and room: "length k + 5 + length b \<le> unat (v_max v - v_size v)" and p: "v_data v = VAt p"
    and w: "wr mem (p + unat (v_size v)) k = Some m1"
  shows "appended K T mem v es k t b
    (write_value m1 (p + unat (v_size v) + length k) (v\<lparr>v_type := T, v_size := v_size v + of_nat (length k)\<rparr>) t (Raw b) (length b))"
proof -
  have l: "length m1 = length mem" using w by (rule length_wr)
  obtain m2 where m2: "wr m1 (p + unat (v_size v) + length k) (value_header t (length b) @ b) = Some m2"
    "write_value m1 (p + unat (v_size v) + length k) (v\<lparr>v_type := T, v_size := v_size v + of_nat (length k)\<rparr>) t (Raw b) (length b) =
      Some (Some (p + unat (v_size v) + length k + length (value_header t (length b))),
        v\<lparr>v_type := T, v_size := v_size v + of_nat (length k) + of_nat (length (value_header t (length b)) + length b)\<rparr>, m2)"
    using write_value_eq [OF t _ b, of "p + unat (v_size v) + length k" m1 "v\<lparr>v_type := T, v_size := v_size v + of_nat (length k)\<rparr>"]
      entry_room [OF c p room, of t] l by auto
  show ?thesis
    unfolding m2(2) by (rule append_entry [OF c t b k room p wr_seq [OF w m2(1)]]) (simp add: add.assoc)
qed

lemma InsertRaw_appended:
  assumes c: "container K VAR_TYPE_MAP mem v es" and t: "value_type t" and b: "length b < ULONG_MAX" and k: "K (name_key name)"
    and room: "length (name_key name) + 5 + length b \<le> unat (v_max v - v_size v)"
  shows "appended K VAR_TYPE_MAP mem v es (name_key name) t b (Variant_InsertRaw mem v name t (Raw b) (length b))"
proof -
  obtain p where p: "v_data v = VAt p" using c by (auto simp: container_def)
  let ?p = "p + unat (v_size v)"
  have le: "?p + 1 + length name \<le> length mem" using entry_room [OF c p room, of t] by (simp add: name_key_def)
  obtain m1 where m1: "wr mem ?p [of_nat (length name)] = Some m1" "length m1 = length mem"
    using wr_total [of ?p "[of_nat (length name)]" mem] le by auto
  obtain m2 where m2: "wr m1 (?p + 1) name = Some m2" using wr_total [of "?p + 1" name m1] m1 le by auto
  have w: "wr mem ?p (name_key name) = Some m2"
    using wr_seq [OF m1(1), of name m2] m2 by (simp add: name_key_def)
  have "\<not> unat (v_max v - v_size v) < 1 + length name + 1 + 4 + length b" using room by (simp add: name_key_def)
  then have "Variant_InsertRaw mem v name t (Raw b) (length b) =
      write_value m2 (?p + length (name_key name)) (v\<lparr>v_type := VAR_TYPE_MAP, v_size := v_size v + of_nat (length (name_key name))\<rparr>) t (Raw b) (length b)"
    using p m1(1) m2 by (simp add: Variant_InsertRaw_def container_type_ok [OF c] v_ptr_def name_key_def)
  with write_entry [OF c t b k room p w] show ?thesis by simp
qed

lemma AddRaw_appended:
  assumes c: "container K VAR_TYPE_INDEX mem v es" and t: "value_type t" and b: "length b < ULONG_MAX" and k: "K (index_key i)"
    and room: "length (index_key i) + 5 + length b \<le> unat (v_max v - v_size v)"
  shows "appended K VAR_TYPE_INDEX mem v es (index_key i) t b (Variant_AddRaw mem v i t (Raw b) (length b))"
proof -
  obtain p where p: "v_data v = VAt p" using c by (auto simp: container_def)
  let ?p = "p + unat (v_size v)"
  obtain m1 where m1: "wr mem ?p (index_key i) = Some m1"
    using wr_total [of ?p "index_key i" mem] entry_room [OF c p room, of t] by auto
  have "\<not> unat (v_max v - v_size v) < 4 + 1 + 4 + length b" using room by (simp add: index_key_def)
  then have "Variant_AddRaw mem v i t (Raw b) (length b) =
      write_value m1 (?p + length (index_key i)) (v\<lparr>v_type := VAR_TYPE_INDEX, v_size := v_size v + of_nat (length (index_key i))\<rparr>) t (Raw b) (length b)"
    using p m1 by (simp add: Variant_AddRaw_def container_type_ok [OF c] v_ptr_def wr_u32_def index_key_def)
  with write_entry [OF c t b k room p m1] show ?thesis by simp
qed

lemma AppendRaw_appended:
  assumes c: "container K VAR_TYPE_LIST mem v es" and t: "value_type t" and b: "length b < ULONG_MAX" and k: "K []"
    and room: "5 + length b \<le> unat (v_max v - v_size v)"
  shows "appended K VAR_TYPE_LIST mem v es [] t b (Variant_AppendRaw mem v t (Raw b) (length b))"
proof -
  obtain p where p: "v_data v = VAt p" using c by (auto simp: container_def)
  let ?p = "p + unat (v_size v)"
  have r: "length [] + 5 + length b \<le> unat (v_max v - v_size v)" using room by simp
  have w: "wr mem ?p [] = Some mem" using entry_room [OF c p r, of t] by (simp add: wr_def)
  have "\<not> unat (v_max v - v_size v) < 1 + 4 + length b" using room by simp
  then have "Variant_AppendRaw mem v t (Raw b) (length b) =
      write_value mem (?p + length ([] :: u8 list)) (v\<lparr>v_type := VAR_TYPE_LIST, v_size := v_size v + of_nat (length ([] :: u8 list))\<rparr>) t (Raw b) (length b)"
    using p by (simp add: Variant_AppendRaw_def container_type_ok [OF c] v_ptr_def)
  with write_entry [OF c t b k r p w] show ?thesis by simp
qed

section \<open>Filling a container and reading it back\<close>

text \<open>Entering a list of items, one insertion after the other.\<close>

fun fill ::
  "(buf \<Rightarrow> variant \<Rightarrow> 'k \<Rightarrow> u8 \<Rightarrow> u8 list \<Rightarrow> (nat option \<times> variant \<times> buf) option) \<Rightarrow>
   buf \<Rightarrow> variant \<Rightarrow> ('k \<times> u8 \<times> u8 list) list \<Rightarrow> (variant \<times> buf) option" where
  "fill ins mem v [] = Some (v, mem)"
| "fill ins mem v ((x, t, b) # xs) =
     do { (q, v, mem) \<leftarrow> ins mem v x t b; if q = None then None else fill ins mem v xs }"

text \<open>The room a list of items asks for: the code reserves five bytes for each header.\<close>

definition items_room :: "('k \<Rightarrow> u8 list) \<Rightarrow> ('k \<times> u8 \<times> u8 list) list \<Rightarrow> nat" where
  "items_room key xs = sum_list (map (\<lambda>(x, t, b). length (key x) + 5 + length b) xs)"

definition item_ok :: "('k \<Rightarrow> bool) \<Rightarrow> 'k \<times> u8 \<times> u8 list \<Rightarrow> bool" where
  "item_ok fits i \<longleftrightarrow> (case i of (x, t, b) \<Rightarrow> fits x \<and> value_type t \<and> length b < ULONG_MAX)"

text \<open>
  The contract of a keyed container: an insertion that has room appends its entry, a lookup finds the
  first entry under its key.
\<close>

locale keyed_container =
  fixes ins :: "buf \<Rightarrow> variant \<Rightarrow> 'k \<Rightarrow> u8 \<Rightarrow> u8 list \<Rightarrow> (nat option \<times> variant \<times> buf) option"
    and look :: "buf \<Rightarrow> variant \<Rightarrow> 'k \<Rightarrow> variant \<Rightarrow> (bool \<times> variant) option"
    and key :: "'k \<Rightarrow> u8 list"
    and fits :: "'k \<Rightarrow> bool"
    and T :: u8
  assumes ins_appends: "container (\<lambda>k. \<exists>x. fits x \<and> k = key x) T mem v es \<Longrightarrow> value_type t \<Longrightarrow> length b < ULONG_MAX \<Longrightarrow> fits x \<Longrightarrow>
      length (key x) + 5 + length b \<le> unat (v_max v - v_size v) \<Longrightarrow>
      appended (\<lambda>k. \<exists>x. fits x \<and> k = key x) T mem v es (key x) t b (ins mem v x t b)"
    and look_finds: "container (\<lambda>k. \<exists>x. fits x \<and> k = key x) T mem v es \<Longrightarrow>
      found mem (look mem v x out) (map_of (map entry_item es) (key x))"
    and key_inj: "key x = key y \<Longrightarrow> x = y"
begin

abbreviation holds :: "buf \<Rightarrow> variant \<Rightarrow> entry list \<Rightarrow> bool" where
  "holds \<equiv> container (\<lambda>k. \<exists>x. fits x \<and> k = key x) T"

lemma fill_holds:
  "holds mem v es \<Longrightarrow> \<forall>i \<in> set xs. item_ok fits i \<Longrightarrow> items_room key xs \<le> unat (v_max v - v_size v) \<Longrightarrow>
   \<exists>v' mem'. fill ins mem v xs = Some (v', mem') \<and>
     holds mem' v' (es @ map (\<lambda>(x, t, b). new_entry (key x) t b) xs) \<and> v_error v' = v_error v \<and> length mem' = length mem"
proof (induction xs arbitrary: mem v es)
  case (Cons i xs)
  obtain x t b where i: "i = (x, t, b)" by (cases i)
  have ok: "fits x" "value_type t" "length b < ULONG_MAX" using Cons.prems(2) by (auto simp: i item_ok_def)
  have r: "length (key x) + 5 + length b \<le> unat (v_max v - v_size v)"
    using Cons.prems(3) by (simp add: i items_room_def)
  obtain q v1 m1 where ins: "ins mem v x t b = Some (Some q, v1, m1)" and h: "holds m1 v1 (es @ [new_entry (key x) t b])"
    and max: "v_max v1 = v_max v" and e: "v_error v1 = v_error v" and l: "length m1 = length mem"
    and sz: "unat (v_size v1) \<le> unat (v_size v) + length (key x) + 5 + length b"
    using ins_appends [OF Cons.prems(1) ok(2,3,1) r] by (auto simp: appended_def)
  have "unat (v_max v - v_size v) = unat (v_max v) - unat (v_size v)" "unat (v_max v1 - v_size v1) = unat (v_max v) - unat (v_size v1)"
    using Cons.prems(1) h max by (auto simp: container_def unat_sub)
  then have "items_room key xs \<le> unat (v_max v1 - v_size v1)" using Cons.prems(3) sz by (simp add: i items_room_def)
  then obtain v2 m2 where "fill ins m1 v1 xs = Some (v2, m2)"
    "holds m2 v2 ((es @ [new_entry (key x) t b]) @ map (\<lambda>(x, t, b). new_entry (key x) t b) xs)" "v_error v2 = v_error v1" "length m2 = length m1"
    using Cons.IH [OF h] Cons.prems(2) by auto
  with ins e l show ?case by (simp add: i)
qed simp

lemma map_of_items: "map_of (map entry_item (map (\<lambda>(x, t, b). new_entry (key x) t b) xs)) (key x) = map_of xs x"
  by (induction xs) (auto simp: new_entry_def dest: key_inj)

lemma fill_look:
  assumes "holds mem v []" and "\<forall>i \<in> set xs. item_ok fits i" and "items_room key xs \<le> unat (v_max v - v_size v)"
  shows "\<exists>v' mem'. fill ins mem v xs = Some (v', mem') \<and> v_error v' = v_error v \<and> (\<forall>x out. found mem' (look mem' v' x out) (map_of xs x))"
proof -
  obtain v' mem' where f: "fill ins mem v xs = Some (v', mem')" "holds mem' v' (map (\<lambda>(x, t, b). new_entry (key x) t b) xs)"
    "v_error v' = v_error v"
    using fill_holds [OF assms] by auto
  have "found mem' (look mem' v' x out) (map_of xs x)" for x out
    using look_finds [OF f(2), of x out] unfolding map_of_items .
  with f show ?thesis by blast
qed

end

lemma container_loop:
  assumes "container K T mem v es"
  shows "\<exists>p. v_data v = VAt p \<and> bytes_at mem p (entries_bytes es) \<and> unat (v_size v) = length (entries_bytes es) \<and>
    length (entries_bytes es) \<le> ULONG_MAX \<and> (\<forall>e \<in> set es. entry_ok e \<and> K (fst e)) \<and> (v_type v = T \<or> es = [])"
  using assms unsigned_less [of "v_size v", where ?'a = nat] by (auto simp: container_def)

lemma entries_bytes_empty: "\<forall>e \<in> set es. entry_ok e \<Longrightarrow> entries_bytes es = [] \<longleftrightarrow> es = []"
  by (cases es) (auto simp: header_ok_def)

interpretation var_map: keyed_container
  "\<lambda>mem v x t b. Variant_InsertRaw mem v x t (Raw b) (length b)" Variant_Find name_key "\<lambda>n. length n < 256" VAR_TYPE_MAP
proof unfold_locales
  fix mem v es x out
  assume c: "container (\<lambda>k. \<exists>n. length n < 256 \<and> k = name_key n) VAR_TYPE_MAP mem v es"
  obtain p where p: "v_data v = VAt p" "bytes_at mem p (entries_bytes es)" "unat (v_size v) = length (entries_bytes es)"
    "length (entries_bytes es) \<le> ULONG_MAX" and e: "\<forall>e \<in> set es. entry_ok e \<and> (\<exists>n. length n < 256 \<and> fst e = name_key n)"
    and T: "v_type v = VAR_TYPE_MAP \<or> es = []"
    using container_loop [OF c] by blast
  have "found mem (find_loop mem x p (p + length (entries_bytes es)) out) (map_of (map entry_item es) (name_key x))"
    using e by (intro find_loop_entries p) auto
  moreover have "v_size v = 0 \<longleftrightarrow> es = []"
    using p(3) e entries_bytes_empty [of es] by (simp flip: unat_eq_zero)
  ultimately show "found mem (Variant_Find mem v x out) (map_of (map entry_item es) (name_key x))"
    using p T by (auto simp: Variant_Find_def v_ptr_def)
qed (rule InsertRaw_appended, assumption, assumption, assumption, blast, assumption, simp add: name_key_def)

interpretation var_index: keyed_container
  "\<lambda>mem v x t b. Variant_AddRaw mem v x t (Raw b) (length b)" Variant_Get index_key "\<lambda>_. True" VAR_TYPE_INDEX
proof unfold_locales
  fix mem v es x out
  assume c: "container (\<lambda>k. \<exists>i. True \<and> k = index_key i) VAR_TYPE_INDEX mem v es"
  obtain p where p: "v_data v = VAt p" "bytes_at mem p (entries_bytes es)" "unat (v_size v) = length (entries_bytes es)"
    "length (entries_bytes es) \<le> ULONG_MAX" and e: "\<forall>e \<in> set es. entry_ok e \<and> (\<exists>i. fst e = index_key i)"
    and T: "v_type v = VAR_TYPE_INDEX \<or> es = []"
    using container_loop [OF c] by blast
  have "found mem (get_loop mem x p (p + length (entries_bytes es)) out) (map_of (map entry_item es) (index_key x))"
    using e by (intro get_loop_entries p) auto
  moreover have "v_size v = 0 \<longleftrightarrow> es = []"
    using p(3) e entries_bytes_empty [of es] by (simp flip: unat_eq_zero)
  ultimately show "found mem (Variant_Get mem v x out) (map_of (map entry_item es) (index_key x))"
    using p T by (auto simp: Variant_Get_def v_ptr_def)
qed (auto intro!: AddRaw_appended intro: index_key_inj)

text \<open>
  C37: a map that was filled is read back. From an empty variant over a buffer, entering any list of
  items for which there is room succeeds without an error flag, and looking up a name then finds the
  value that was entered first under it, with its type and bytes, and nothing else: a later entry of the same name does
  not replace an earlier one, and a name that was not entered is not found. Names have at most 255 bytes, values
  fewer than \<open>2 ^ 32 - 1\<close>.
\<close>

theorem Variant_map_lookup:
  assumes buf: "p + sz \<le> length mem" "sz < 2 ^ 32"
    and xs: "\<forall>i \<in> set xs. item_ok (\<lambda>n. length n < 256) i" and room: "items_room name_key xs \<le> sz"
  shows "\<exists>v mem'. fill (\<lambda>mem v name t b. Variant_InsertRaw mem v name t (Raw b) (length b)) mem
      (Variant_Init VAR_TYPE_MAP (Some p) sz v0) xs = Some (v, mem') \<and> v_error v = 0 \<and>
    (\<forall>name out. found mem' (Variant_Find mem' v name out) (map_of xs name))"
proof -
  let ?v = "Variant_Init VAR_TYPE_MAP (Some p) sz v0"
  have "var_map.holds mem ?v []" and "items_room name_key xs \<le> unat (v_max ?v - v_size ?v)"
    using buf room by (simp_all add: container_def Variant_Init_def unat_of_nat)
  from var_map.fill_look [OF this(1) xs this(2)] show ?thesis by (auto simp: Variant_Init_def)
qed

theorem Variant_map_lookup_witness:
  "\<exists>v mem'. fill (\<lambda>mem v name t b. Variant_InsertRaw mem v name t (Raw b) (length b)) (replicate 40 0)
      (Variant_Init VAR_TYPE_MAP (Some 0) 40 map_ex) [([65], VAR_TYPE_UINT, [9]), ([65], VAR_TYPE_BYTES, [1, 2, 3])] = Some (v, mem') \<and>
    found mem' (Variant_Find mem' v [65] map_ex) (Some (VAR_TYPE_UINT, [9]))"
proof -
  let ?xs = "[([65], VAR_TYPE_UINT, [9]), ([65], VAR_TYPE_BYTES, [1, 2, 3])] :: (u8 list \<times> u8 \<times> u8 list) list"
  have "\<forall>i \<in> set ?xs. item_ok (\<lambda>n. length n < 256) i" by (simp add: item_ok_def value_type_def var_type_defs)
  moreover have "items_room name_key ?xs \<le> 40" by (simp add: items_room_def name_key_def)
  ultimately obtain v mem' where f: "fill (\<lambda>mem v name t b. Variant_InsertRaw mem v name t (Raw b) (length b)) (replicate 40 0)
      (Variant_Init VAR_TYPE_MAP (Some 0) 40 map_ex) ?xs = Some (v, mem')"
    "\<forall>name out. found mem' (Variant_Find mem' v name out) (map_of ?xs name)"
    using Variant_map_lookup [of 0 40 "replicate 40 0" ?xs map_ex] by auto
  from f(2) have "found mem' (Variant_Find mem' v [65] map_ex) (map_of ?xs [65])" by blast
  with f(1) show ?thesis by auto
qed

text \<open>
  The same for an index, whose keys are 32-bit numbers.
\<close>

theorem Variant_index_lookup:
  assumes buf: "p + sz \<le> length mem" "sz < 2 ^ 32"
    and xs: "\<forall>i \<in> set xs. item_ok (\<lambda>_. True) i" and room: "items_room index_key xs \<le> sz"
  shows "\<exists>v mem'. fill (\<lambda>mem v i t b. Variant_AddRaw mem v i t (Raw b) (length b)) mem
      (Variant_Init VAR_TYPE_INDEX (Some p) sz v0) xs = Some (v, mem') \<and> v_error v = 0 \<and>
    (\<forall>i out. found mem' (Variant_Get mem' v i out) (map_of xs i))"
proof -
  let ?v = "Variant_Init VAR_TYPE_INDEX (Some p) sz v0"
  have "var_index.holds mem ?v []" and "items_room index_key xs \<le> unat (v_max ?v - v_size ?v)"
    using buf room by (simp_all add: container_def Variant_Init_def unat_of_nat)
  from var_index.fill_look [OF this(1) xs this(2)] show ?thesis by (auto simp: Variant_Init_def)
qed

theorem Variant_index_lookup_witness:
  "\<exists>v mem'. fill (\<lambda>mem v i t b. Variant_AddRaw mem v i t (Raw b) (length b)) (replicate 20 0)
      (Variant_Init VAR_TYPE_INDEX (Some 0) 20 map_ex) [(7, VAR_TYPE_SINT, [255, 255])] = Some (v, mem') \<and>
    found mem' (Variant_Get mem' v 7 map_ex) (Some (VAR_TYPE_SINT, [255, 255])) \<and> found mem' (Variant_Get mem' v 8 map_ex) None"
proof -
  let ?xs = "[(7, VAR_TYPE_SINT, [255, 255])] :: (u32 \<times> u8 \<times> u8 list) list"
  have "\<forall>i \<in> set ?xs. item_ok (\<lambda>_. True) i" by (simp add: item_ok_def value_type_def var_type_defs)
  moreover have "items_room index_key ?xs \<le> 20" by (simp add: items_room_def index_key_def)
  ultimately obtain v mem' where f: "fill (\<lambda>mem v i t b. Variant_AddRaw mem v i t (Raw b) (length b)) (replicate 20 0)
      (Variant_Init VAR_TYPE_INDEX (Some 0) 20 map_ex) ?xs = Some (v, mem')"
    "\<forall>i out. found mem' (Variant_Get mem' v i out) (map_of ?xs i)"
    using Variant_index_lookup [of 0 20 "replicate 20 0" ?xs map_ex] by auto
  from f(2) have "found mem' (Variant_Get mem' v 7 map_ex) (map_of ?xs 7)" "found mem' (Variant_Get mem' v 8 map_ex) (map_of ?xs 8)" by blast+
  with f(1) show ?thesis by auto
qed

section \<open>Lists\<close>

fun append_all :: "buf \<Rightarrow> variant \<Rightarrow> (u8 \<times> u8 list) list \<Rightarrow> (variant \<times> buf) option" where
  "append_all mem v [] = Some (v, mem)"
| "append_all mem v ((t, b) # xs) =
     do { (q, v, mem) \<leftarrow> Variant_AppendRaw mem v t (Raw b) (length b); if q = None then None else append_all mem v xs }"

lemma append_all_list:
  "container (\<lambda>k. k = []) VAR_TYPE_LIST mem v es \<Longrightarrow> \<forall>(t, b) \<in> set xs. value_type t \<and> length b < ULONG_MAX \<Longrightarrow>
   sum_list (map (\<lambda>(t, b). 5 + length b) xs) \<le> unat (v_max v - v_size v) \<Longrightarrow>
   \<exists>v' mem'. append_all mem v xs = Some (v', mem') \<and>
     container (\<lambda>k. k = []) VAR_TYPE_LIST mem' v' (es @ map (\<lambda>(t, b). new_entry [] t b) xs) \<and> v_error v' = v_error v"
proof (induction xs arbitrary: mem v es)
  case (Cons i xs)
  obtain t b where i: "i = (t, b)" by (cases i)
  have ok: "value_type t" "length b < ULONG_MAX" using Cons.prems(2) by (auto simp: i)
  have r: "5 + length b \<le> unat (v_max v - v_size v)" using Cons.prems(3) by (simp add: i)
  obtain q v1 m1 where app: "Variant_AppendRaw mem v t (Raw b) (length b) = Some (Some q, v1, m1)"
    and h: "container (\<lambda>k. k = []) VAR_TYPE_LIST m1 v1 (es @ [new_entry [] t b])"
    and max: "v_max v1 = v_max v" and e: "v_error v1 = v_error v"
    and sz: "unat (v_size v1) \<le> unat (v_size v) + 5 + length b"
    using AppendRaw_appended [OF Cons.prems(1) ok _ r] by (auto simp: appended_def)
  have "unat (v_max v - v_size v) = unat (v_max v) - unat (v_size v)" "unat (v_max v1 - v_size v1) = unat (v_max v) - unat (v_size v1)"
    using Cons.prems(1) h max by (auto simp: container_def unat_sub)
  then have "sum_list (map (\<lambda>(t, b). 5 + length b) xs) \<le> unat (v_max v1 - v_size v1)" using Cons.prems(3) sz by (simp add: i)
  then obtain v2 m2 where "append_all m1 v1 xs = Some (v2, m2)"
    "container (\<lambda>k. k = []) VAR_TYPE_LIST m2 v2 ((es @ [new_entry [] t b]) @ map (\<lambda>(t, b). new_entry [] t b) xs)" "v_error v2 = v_error v1"
    using Cons.IH [OF h] Cons.prems(2) by auto
  with app e show ?case by (simp add: i)
qed simp

text \<open>
  A list that was appended to is read by position. \<^verbatim>\<open>Variant_At\<close> delivers the value at each position of
  the list and finds nothing behind its end.
\<close>

theorem Variant_list_at:
  assumes buf: "p + sz \<le> length mem" "sz < 2 ^ 32"
    and xs: "\<forall>(t, b) \<in> set xs. value_type t \<and> length b < ULONG_MAX" and room: "sum_list (map (\<lambda>(t, b). 5 + length b) xs) \<le> sz"
  shows "\<exists>v mem'. append_all mem (Variant_Init VAR_TYPE_LIST (Some p) sz v0) xs = Some (v, mem') \<and> v_error v = 0 \<and>
    (\<forall>i out. found mem' (Variant_At mem' v (int i) out) (if i < length xs then Some (xs ! i) else None))"
proof -
  let ?v = "Variant_Init VAR_TYPE_LIST (Some p) sz v0" and ?es = "map (\<lambda>(t, b). new_entry [] t b) xs"
  have "container (\<lambda>k. k = []) VAR_TYPE_LIST mem ?v []" "sum_list (map (\<lambda>(t, b). 5 + length b) xs) \<le> unat (v_max ?v - v_size ?v)"
    using buf room by (simp_all add: container_def Variant_Init_def unat_of_nat)
  from append_all_list [OF this(1) xs this(2)] obtain v mem' where f: "append_all mem ?v xs = Some (v, mem')"
    "container (\<lambda>k. k = []) VAR_TYPE_LIST mem' v ?es" "v_error v = 0" by (auto simp: Variant_Init_def)
  obtain q where q: "v_data v = VAt q" "bytes_at mem' q (entries_bytes ?es)" "unat (v_size v) = length (entries_bytes ?es)"
    "length (entries_bytes ?es) \<le> ULONG_MAX" and e: "\<forall>e \<in> set ?es. entry_ok e \<and> fst e = []" and T: "v_type v = VAR_TYPE_LIST \<or> ?es = []"
    using container_loop [OF f(2)] by blast
  have z: "v_size v = 0 \<longleftrightarrow> ?es = []" using q(3) e entries_bytes_empty [of ?es] by (simp flip: unat_eq_zero)
  have nth: "snd (entry_item (?es ! i)) = xs ! i" if "i < length xs" for i using that by (simp add: new_entry_def split: prod.split)
  have "found mem' (Variant_At mem' v (int i) out) (if i < length xs then Some (xs ! i) else None)" for i out
    using at_loop_entries [OF q(2,4) e, of i out] q z T nth [of i] by (auto simp: Variant_At_def v_ptr_def split: if_split_asm)
  with f show ?thesis by blast
qed

theorem Variant_list_at_witness:
  "\<exists>v mem'. append_all (replicate 20 0) (Variant_Init VAR_TYPE_LIST (Some 0) 20 map_ex) [(VAR_TYPE_UINT, [9]), (VAR_TYPE_BYTES, [1, 2, 3])] = Some (v, mem') \<and>
    found mem' (Variant_At mem' v 1 map_ex) (Some (VAR_TYPE_BYTES, [1, 2, 3]))"
proof -
  let ?xs = "[(VAR_TYPE_UINT, [9]), (VAR_TYPE_BYTES, [1, 2, 3])] :: (u8 \<times> u8 list) list"
  have "\<forall>(t, b) \<in> set ?xs. value_type t \<and> length b < ULONG_MAX" by (simp add: value_type_def var_type_defs)
  then obtain v mem' where f: "append_all (replicate 20 0) (Variant_Init VAR_TYPE_LIST (Some 0) 20 map_ex) ?xs = Some (v, mem')"
    "\<forall>i out. found mem' (Variant_At mem' v (int i) out) (if i < length ?xs then Some (?xs ! i) else None)"
    using Variant_list_at [of 0 20 "replicate 20 0" ?xs map_ex] by auto
  from f(2) have "found mem' (Variant_At mem' v (int 1) map_ex) (if 1 < length ?xs then Some (?xs ! 1) else None)" by blast
  with f(1) show ?thesis by auto
qed

section \<open>Packets\<close>

lemma bytes_at_length: "bytes_at mem p xs \<Longrightarrow> p + length xs \<le> length mem"
  by (simp add: bytes_at_nth)

lemma raw_of_length: "raw_of imem v = Some (Raw b) \<Longrightarrow> v_type v AND VAR_STATIC = 0 \<Longrightarrow> length b = unat (v_size v)"
  by (auto simp: raw_of_def length_rd split: vdata.split_asm)


definition uint_var :: "u8 list \<Rightarrow> variant" where
  "uint_var b = \<lparr>v_type = VAR_TYPE_UINT OR VAR_STATIC, v_error = 0, v_size = of_nat (length b), v_max = 0, v_data = VPayload b\<rparr>"


section \<open>Integers\<close>

text \<open>
  C39: reading an integer. The result of \<^verbatim>\<open>Variant_ToInt\<close> for an integer variant, by the sizes of the
  variant and of the destination. A shorter variant is extended with zeros, whatever its type says: a
  negative number that was stored in fewer bytes comes back positive. A longer one is refused when a
  byte that does not fit is set; when all of them are zero the code copies them as well, behind the end
  of the destination.
\<close>

theorem Variant_ToInt_cases:
  assumes v: "denotes mem v t b" "t = VAR_TYPE_UINT \<or> t = VAR_TYPE_SINT" "b \<noteq> []" and out: "length out = sz"
  shows "Variant_ToInt mem v out sz =
    (if length b \<le> sz then Some (True, b @ replicate (sz - length b) 0)
     else if \<exists>x \<in> set (drop sz b). x \<noteq> 0 then Some (False, out)
     else None)"
proof -
  obtain q where q: "v_data v = VAt q" "bytes_at mem q b" using v(1) by (auto simp: denotes_def)
  have n: "unat (v_size v) = length b" "v_size v \<noteq> 0" "v_type v = t" using v by (auto simp: denotes_def)
  have r: "rd mem q (length b) = Some b" using q(2) by (simp add: bytes_at_def)
  have g: "\<not> (v_size v = 0 \<or> (v_type v \<noteq> VAR_TYPE_SINT \<and> v_type v \<noteq> VAR_TYPE_UINT))" using n v(2) by auto
  show ?thesis
  proof (cases "length b \<le> sz")
    case True
    have "wr (take (length b) out @ replicate (sz - length b) 0) 0 b = Some (b @ replicate (sz - length b) 0)"
      using True out by (simp add: wr_def)
    moreover have "wr out (length b) (replicate (sz - length b) 0) = Some (take (length b) out @ replicate (sz - length b) 0)"
      using True out by (simp add: wr_def)
    moreover have "wr out 0 b = Some b" if "length b = sz" using that out by (simp add: wr_def)
    ultimately show ?thesis
      using True r n q(1) unfolding Variant_ToInt_def if_not_P [OF g] by (cases "length b = sz") (simp_all add: v_ptr_def Let_def)
  next
    case False
    have e: "b = take (length b) (drop q mem)" and le: "q + length b \<le> length mem" using r by (auto simp: rd_eq_Some_iff)
    have "drop sz b = take (length b - sz) (drop (q + sz) mem)" by (subst e) (simp add: drop_take add.commute)
    then have "rd mem (q + sz) (length b - sz) = Some (drop sz b)" using le False by (simp add: rd_eq_Some_iff)
    moreover have "wr out 0 b = None" using False out by simp
    ultimately show ?thesis
      using False r n q(1) unfolding Variant_ToInt_def if_not_P [OF g] by (simp add: v_ptr_def Let_def del: wr_eq_None_iff)
  qed
qed

definition int_var :: "u8 \<Rightarrow> nat \<Rightarrow> variant" where
  "int_var t n = \<lparr>v_type = t, v_error = 0, v_size = of_nat n, v_max = of_nat n, v_data = VAt 0\<rparr>"

theorem Variant_ToInt_cases_witness:
  "Variant_ToInt [255] (int_var VAR_TYPE_SINT 1) [0, 0, 0, 0] 4 = Some (True, [255, 0, 0, 0]) \<and>
   Variant_ToInt [7, 0] (int_var VAR_TYPE_UINT 2) [0] 1 = None"
proof -
  have "denotes [255] (int_var VAR_TYPE_SINT 1) VAR_TYPE_SINT [255]" "denotes [7, 0] (int_var VAR_TYPE_UINT 2) VAR_TYPE_UINT [7, 0]"
    by (simp_all add: denotes_def int_var_def bytes_at_def rd_def)
  from Variant_ToInt_cases [OF this(1), of "[0, 0, 0, 0]" 4] Variant_ToInt_cases [OF this(2), of "[0]" 1]
  show ?thesis by (simp add: numeral_eq_Suc)
qed

section \<open>Entries that are abandoned\<close>

text \<open>
  C40: an entry whose value failed. \<^verbatim>\<open>Variant_PrepareInsert\<close> has already written the name and counted it when the value
  is built; when the value ran into an error, \<^verbatim>\<open>Variant_FinishEntry\<close> adds nothing and takes nothing back. The map, which
  has no error flag, now ends with a name without a value, and the next entry is read as that value.
\<close>

theorem Variant_FinishEntry_failed:
  assumes c: "container (\<lambda>k. \<exists>n. length n < 256 \<and> k = name_key n) VAR_TYPE_MAP mem v es" "v_error v = 0"
    and room: "6 + length name \<le> unat (v_max v - v_size v)"
  shows "\<exists>v1 c0 mem1 p. Variant_PrepareInsert mem v name type out_var = Some (True, v1, c0, mem1) \<and>
    (\<forall>c m. v_error c \<noteq> 0 \<longrightarrow> Variant_FinishEntry m v1 c = Some (v1, m)) \<and> v_error v1 = 0 \<and>
    v_data v1 = VAt p \<and> unat (v_size v1) = length (entries_bytes es @ name_key name) \<and>
    bytes_at mem1 p (entries_bytes es @ name_key name)"
proof -
  obtain p where p: "v_data v = VAt p" "bytes_at mem p (entries_bytes es)" "unat (v_size v) = length (entries_bytes es)"
    and mx: "p + unat (v_max v) \<le> length mem" and le: "v_size v \<le> v_max v"
    using c by (auto simp: container_def)
  let ?p = "p + unat (v_size v)"
  have d: "unat (v_max v - v_size v) = unat (v_max v) - unat (v_size v)" using le by (rule unat_sub)
  then have lm: "?p + 1 + length name \<le> length mem" and mx32: "unat (v_max v) < 2 ^ 32" and fit: "unat (v_size v) + 1 + length name \<le> unat (v_max v)"
    using room mx le unsigned_less [of "v_max v", where ?'a = nat] by (simp_all add: word_le_nat_alt)
  obtain m1 where m1: "wr mem ?p [of_nat (length name)] = Some m1" "length m1 = length mem"
    using wr_total [of ?p "[of_nat (length name)]" mem] lm by auto
  obtain m2 where m2: "wr m1 (?p + 1) name = Some m2" using wr_total [of "?p + 1" name m1] m1 lm by auto
  have w: "wr mem ?p (name_key name) = Some m2" using wr_seq [OF m1(1), of name m2] m2 by (simp add: name_key_def)
  let ?v1 = "v\<lparr>v_type := VAR_TYPE_MAP, v_size := v_size v + (1 + of_nat (length name))\<rparr>"
  have ins: "Variant_InsertRaw mem v name 0 RawNull 0 = Some (Some (?p + 1 + length name), ?v1, m2)"
    using p m1(1) m2 room by (simp add: Variant_InsertRaw_def container_type_ok [OF c(1)] v_ptr_def write_value_def)
  have us: "unat (v_size v + (1 + of_nat (length name))) = unat (v_size v) + 1 + length name"
  proof -
    have "v_size v + (1 + of_nat (length name)) = of_nat (unat (v_size v) + 1 + length name)" by simp
    then show ?thesis using fit mx32 by (simp only: unat_of_nat) simp
  qed
  have "bytes_at m2 p (entries_bytes es @ name_key name)"
    using bytes_at_wr_other [OF p(2) w] bytes_at_wr [OF w] p(3) by (simp add: bytes_at_append)
  moreover have "unat (v_size ?v1) = length (entries_bytes es @ name_key name)" using us p(3) by (simp add: name_key_def)
  moreover have "\<forall>c m. v_error c \<noteq> 0 \<longrightarrow> Variant_FinishEntry m ?v1 c = Some (?v1, m)"
    using p(1) by (simp add: Variant_FinishEntry_def v_ptr_def Variant_Finish_def)
  ultimately show ?thesis
    using p(1) c(2) by (simp add: Variant_PrepareInsert_def prepare_entry_def ins Variant_PrepareEntry_def v_ptr_def)
qed

theorem Variant_FinishEntry_failed_witness:
  "\<exists>v1 c0 mem1. Variant_PrepareInsert (replicate 40 0) (Variant_Init VAR_TYPE_MAP (Some 0) 40 map_ex) [65] VAR_TYPE_LIST map_ex =
      Some (True, v1, c0, mem1) \<and>
    Variant_FinishEntry mem1 v1 (c0\<lparr>v_error := VAR_ERR_BAD_SIZE\<rparr>) = Some (v1, mem1) \<and> v_error v1 = 0 \<and> unat (v_size v1) = 2"
proof -
  let ?v = "Variant_Init VAR_TYPE_MAP (Some 0) 40 map_ex"
  have c: "container (\<lambda>k. \<exists>n. length n < 256 \<and> k = name_key n) VAR_TYPE_MAP (replicate 40 0) ?v []" "v_error ?v = 0"
    by (simp_all add: container_def Variant_Init_def)
  have r: "6 + length [65 :: u8] \<le> unat (v_max ?v - v_size ?v)" by (simp add: Variant_Init_def)
  from Variant_FinishEntry_failed [OF c r, of VAR_TYPE_LIST map_ex] obtain v1 c0 mem1 where
    "Variant_PrepareInsert (replicate 40 0) ?v [65] VAR_TYPE_LIST map_ex = Some (True, v1, c0, mem1)"
    "\<forall>c m. v_error c \<noteq> 0 \<longrightarrow> Variant_FinishEntry m v1 c = Some (v1, m)" "v_error v1 = 0"
    "unat (v_size v1) = length (entries_bytes [] @ name_key [65])" by blast
  then show ?thesis by (simp add: name_key_def VAR_ERR_BAD_SIZE_def)
qed

end
