(* ===== verification/Zero_Search.thy ===== *)
theory Zero_Search
  imports Prelude
begin

text \<open>
  \<^verbatim>\<open>data_search\<close> of \<^verbatim>\<open>ImBox/ImDiskIO.cpp\<close>: does an area hold a byte that is not zero? The three
  versions put a sentinel into the last unit of the area so that the loop needs no bound, and take
  it out again. The memory is the list of its bytes, an area a position and a size in it.
\<close>

section \<open>The searches\<close>

text \<open>\<^verbatim>\<open>while (!*(scan_ptr++));\<close> with the position of the unit that stopped it.\<close>

function scan_longs :: "buf \<Rightarrow> nat \<Rightarrow> nat option" where
  "scan_longs b p =
     (case rd_u32 b p of
        None \<Rightarrow> None
      | Some v \<Rightarrow> if v = 0 then scan_longs b (p + 4) else Some p)"
  by pat_completeness auto
termination
  by (relation "measure (\<lambda>(b, p). length b - p)") (auto simp: rd_u32_def rd_def split: if_splits)

declare scan_longs.simps [simp del]

definition data_search_std :: "buf \<Rightarrow> nat \<Rightarrow> nat \<Rightarrow> (bool \<times> buf) option" where
  "data_search_std b p sz =
     (if sz = 0 then Some (False, b)
      else if p + sz < 4 then None
      else
        (let last = p + sz - 4 in do {
           v \<leftarrow> rd_u32 b last;
           if v \<noteq> 0 then Some (True, b)
           else do {
             b \<leftarrow> wr_u32 b last 1;
             q \<leftarrow> scan_longs b p;
             b \<leftarrow> wr_u32 b last 0;
             Some (q \<noteq> last, b) } }))"

text \<open>
  The versions with vector registers of \<open>k\<close> bytes: comparing a register with zero and testing the
  mask asks whether all its bytes are zero.
\<close>

definition vec_zero :: "u8 list \<Rightarrow> bool" where
  "vec_zero v \<longleftrightarrow> list_all (\<lambda>x. x = 0) v"

function scan_vecs :: "nat \<Rightarrow> buf \<Rightarrow> nat \<Rightarrow> nat option" where
  "scan_vecs k b p =
     (if k = 0 then None
      else
        (case rd b p k of
           None \<Rightarrow> None
         | Some v \<Rightarrow> if vec_zero v then scan_vecs k b (p + k) else Some p))"
  by pat_completeness auto
termination
  by (relation "measure (\<lambda>(k, b, p). length b - p)") (auto simp: rd_def split: if_splits)

declare scan_vecs.simps [simp del]

definition data_search_vec :: "nat \<Rightarrow> buf \<Rightarrow> nat \<Rightarrow> nat \<Rightarrow> (bool \<times> buf) option" where
  "data_search_vec k b p sz =
     (if sz = 0 then Some (False, b)
      else if p + sz < k then None
      else
        (let end_ptr = p + sz - k in do {
           v \<leftarrow> rd b end_ptr k;
           if \<not> vec_zero v then Some (True, b)
           else do {
             b \<leftarrow> wr b end_ptr [1];
             q \<leftarrow> scan_vecs k b p;
             b \<leftarrow> wr b end_ptr [0];
             Some (q \<noteq> end_ptr, b) } }))"

definition data_search_sse2 :: "buf \<Rightarrow> nat \<Rightarrow> nat \<Rightarrow> (bool \<times> buf) option" where
  "data_search_sse2 = data_search_vec 16"

definition data_search_avx :: "buf \<Rightarrow> nat \<Rightarrow> nat \<Rightarrow> (bool \<times> buf) option" where
  "data_search_avx = data_search_vec 32"

section \<open>What they decide\<close>

definition nonzero_at :: "buf \<Rightarrow> nat \<Rightarrow> nat \<Rightarrow> bool" where
  "nonzero_at b p n \<longleftrightarrow> (\<exists>i. p \<le> i \<and> i < p + n \<and> b ! i \<noteq> 0)"

text \<open>
  The contract of \<^verbatim>\<open>data_search\<close>, for areas of whole sectors: the answer is right, nothing outside
  the memory is touched, and the memory is left as it was.
\<close>

locale zero_search =
  fixes search :: "buf \<Rightarrow> nat \<Rightarrow> nat \<Rightarrow> (bool \<times> buf) option"
  assumes search_eq: "512 dvd n \<Longrightarrow> p + n \<le> length b \<Longrightarrow> search b p n = Some (nonzero_at b p n, b)"
begin

lemma search_zero: "512 dvd n \<Longrightarrow> p + n \<le> length b \<Longrightarrow> search b p n = Some (False, b') \<Longrightarrow>
    take n (drop p b) = replicate n 0"
  by (auto simp: search_eq nonzero_at_def intro!: nth_equalityI)

end

lemma nonzero_at_Nil [simp]: "\<not> nonzero_at b p 0"
  by (simp add: nonzero_at_def)

lemma nonzero_at_vec: "p + n \<le> length b \<Longrightarrow> nonzero_at b p n \<longleftrightarrow> \<not> vec_zero (take n (drop p b))"
proof -
  assume l: "p + n \<le> length b"
  have "vec_zero (take n (drop p b)) \<longleftrightarrow> (\<forall>i < n. b ! (p + i) = 0)"
    using l by (auto simp: vec_zero_def list_all_length)
  also have "\<dots> \<longleftrightarrow> \<not> nonzero_at b p n"
  proof -
    have "i < n \<Longrightarrow> nonzero_at b p n \<or> b ! (p + i) = 0" for i by (auto simp: nonzero_at_def intro: exI [of _ "p + i"])
    moreover have "b ! i = b ! (p + (i - p)) \<and> i - p < n" if "p \<le> i" "i < p + n" for i using that by auto
    ultimately show ?thesis unfolding nonzero_at_def by metis
  qed
  finally show ?thesis by simp
qed

lemma nonzero_at_split: "nonzero_at b p (m + n) \<longleftrightarrow> nonzero_at b p m \<or> nonzero_at b (p + m) n"
proof -
  have "p \<le> i \<and> i < p + (m + n) \<longleftrightarrow> p \<le> i \<and> i < p + m \<or> p + m \<le> i \<and> i < p + m + n" for i by auto
  then show ?thesis unfolding nonzero_at_def by (simp only: conj_assoc [symmetric] conj_disj_distribR ex_disj_distrib)
qed

text \<open>The scan stops at the first unit that is not zero.\<close>

lemma scan_vecs_eq:
  "0 < k \<Longrightarrow> p + k * Suc n \<le> length b \<Longrightarrow> nonzero_at b (p + k * n) k \<Longrightarrow>
   \<exists>q. scan_vecs k b p = Some q \<and> (q = p + k * n \<longleftrightarrow> \<not> nonzero_at b p (k * n))"
proof (induction n arbitrary: p)
  case 0
  then show ?case by (simp add: scan_vecs.simps [of k b p] rd_def nonzero_at_vec)
next
  case (Suc n)
  have pk: "p + k \<le> length b" using Suc.prems(2) by simp
  show ?case
  proof (cases "nonzero_at b p k")
    case True
    then have "scan_vecs k b p = Some p"
      using pk Suc.prems(1) by (simp add: scan_vecs.simps [of k b p] rd_def nonzero_at_vec)
    then show ?thesis using True Suc.prems(1) by (simp add: nonzero_at_split)
  next
    case False
    then have "scan_vecs k b p = scan_vecs k b (p + k)"
      using pk Suc.prems(1) by (subst scan_vecs.simps) (simp add: rd_def nonzero_at_vec)
    with Suc.IH [of "p + k"] Suc.prems False show ?thesis
      by (simp add: nonzero_at_split algebra_simps)
  qed
qed

lemma wr_sentinel:
  assumes "p + k \<le> length b" and "0 < k" and "\<not> nonzero_at b p k"
  obtains b' where "wr b p [1] = Some b'" "length b' = length b" "nonzero_at b' p k"
    "\<And>m. q + m \<le> p \<Longrightarrow> nonzero_at b' q m = nonzero_at b q m" "wr b' p [0] = Some b"
proof -
  obtain b' where w: "wr b p [1] = Some b'" using assms by (auto simp: wr_def)
  note n = wr_nth [OF w]
  have l: "length b' = length b" using w by (rule length_wr)
  have b0: "b ! p = 0" using assms by (auto simp: nonzero_at_def)
  have "wr b' p [0] = Some b"
    using assms l b0 n by (auto simp: wr_def nth_append nth_Cons' intro!: nth_equalityI)
  moreover have "nonzero_at b' p k" using n [of p] assms by (auto simp: nonzero_at_def intro!: exI [of _ p])
  moreover have "nonzero_at b' q m = nonzero_at b q m" if "q + m \<le> p" for m
    using n that assms by (auto simp: nonzero_at_def) 
  ultimately show ?thesis using w l by (intro that)
qed

lemma data_search_vec_eq:
  assumes "0 < k" and "k dvd n" and "p + n \<le> length b"
  shows "data_search_vec k b p n = Some (nonzero_at b p n, b)"
proof (cases "n = 0")
  case True
  then show ?thesis by (simp add: data_search_vec_def)
next
  case False
  from \<open>k dvd n\<close> False obtain j where j: "n = k * Suc j" by (metis dvdE mult_0_right not0_implies_Suc)
  have e: "p + n - k = p + k * j" using j by simp
  have bnd: "p + k * j + k \<le> length b" using assms(3) j by simp
  show ?thesis
  proof (cases "nonzero_at b (p + k * j) k")
    case True
    then show ?thesis
      using j e bnd False by (simp add: data_search_vec_def rd_def nonzero_at_vec nonzero_at_split add.commute [of k])
  next
    case nz: False
    obtain b' where b': "wr b (p + k * j) [1] = Some b'" "length b' = length b" "nonzero_at b' (p + k * j) k"
      "nonzero_at b' p (k * j) = nonzero_at b p (k * j)" "wr b' (p + k * j) [0] = Some b"
      using bnd assms(1) nz by (rule wr_sentinel [of "p + k * j" k b p]) auto
    have "p + k * Suc j \<le> length b'" using b'(2) bnd by simp
    from scan_vecs_eq [OF assms(1) this b'(3)] obtain q where
      q: "scan_vecs k b' p = Some q" "q = p + k * j \<longleftrightarrow> \<not> nonzero_at b' p (k * j)" by blast
    show ?thesis
      using False e bnd nz q b' j assms(1)
      by (simp add: data_search_vec_def rd_def nonzero_at_vec nonzero_at_split add.commute [of k])
  qed
qed

text \<open>The version without vector registers reads little-endian words of four bytes.\<close>

lemma le_val_zero: "le_val bs = 0 \<longleftrightarrow> (\<forall>x \<in> set bs. x = 0)"
  by (induction bs) (auto simp: unat_eq_0)

lemma rd_u32_zero: "p + 4 \<le> length b \<Longrightarrow> \<exists>v. rd_u32 b p = Some v \<and> (v = 0 \<longleftrightarrow> \<not> nonzero_at b p 4)"
proof -
  assume l: "p + 4 \<le> length b"
  let ?bs = "take 4 (drop p b)"
  have "le_val ?bs < 256 ^ length ?bs" by (rule le_val_bound)
  with l have "le_val ?bs < 2 ^ 32" by simp
  then have "(of_nat (le_val ?bs) :: u32) = 0 \<longleftrightarrow> le_val ?bs = 0"
    by (simp add: word_unat_eq_iff unat_of_nat)
  also have "\<dots> \<longleftrightarrow> \<not> nonzero_at b p 4"
    using l by (simp add: le_val_zero nonzero_at_vec vec_zero_def list_all_iff)
  finally show ?thesis using l by (simp add: rd_u32_def rd_def)
qed

lemma scan_longs_vecs: "scan_longs b p = scan_vecs 4 b p"
proof (induction b p rule: scan_longs.induct)
  case (1 b p)
  show ?case
  proof (cases "p + 4 \<le> length b")
    case True
    from rd_u32_zero [OF True] obtain v where v: "rd_u32 b p = Some v" "v = 0 \<longleftrightarrow> \<not> nonzero_at b p 4" by blast
    show ?thesis
    proof (cases "v = 0")
      case True
      with "1.IH" [OF v(1)] v \<open>p + 4 \<le> length b\<close> show ?thesis
        by (simp add: scan_longs.simps [of b p] scan_vecs.simps [of 4 b p] rd_def nonzero_at_vec)
    next
      case False
      with v \<open>p + 4 \<le> length b\<close> show ?thesis
        by (simp add: scan_longs.simps [of b p] scan_vecs.simps [of 4 b p] rd_def nonzero_at_vec)
    qed
  next
    case False
    then show ?thesis by (simp add: scan_longs.simps [of b p] scan_vecs.simps [of 4 b p] rd_u32_def rd_def)
  qed
qed

lemma le_bytes_sentinel: "le_bytes 4 1 = [1, 0, 0, 0]" "le_bytes 4 0 = [0, 0, 0, 0]"
proof -
  have four: "(4 :: nat) = Suc (Suc (Suc (Suc 0)))" by simp
  show "le_bytes 4 1 = [1, 0, 0, 0]" "le_bytes 4 0 = [0, 0, 0, 0]"
    unfolding four by simp_all
qed

lemma wr_long_zero:
  assumes l: "p + 4 \<le> length b" and z: "\<And>i. p < i \<Longrightarrow> i < p + 4 \<Longrightarrow> b ! i = 0"
  shows "wr_u32 b p 0 = wr b p [0]" and "wr_u32 b p 1 = wr b p [1]"
proof -
  have "drop (Suc p) b = [0, 0, 0] @ drop (p + 4) b"
    using l z by (intro nth_equalityI) (auto simp: nth_append nth_Cons' less_Suc_eq)
  moreover have "p + 4 = Suc (Suc (Suc (Suc p)))" by simp
  ultimately show "wr_u32 b p 0 = wr b p [0]" and "wr_u32 b p 1 = wr b p [1]"
    using l le_bytes_sentinel by (simp_all add: wr_u32_def wr_def)
qed

lemma data_search_std_eq:
  assumes "4 dvd n" and "p + n \<le> length b"
  shows "data_search_std b p n = Some (nonzero_at b p n, b)"
proof (cases "n = 0")
  case True
  then show ?thesis by (simp add: data_search_std_def)
next
  case False
  then have n: "4 \<le> n" using assms(1) by (simp add: dvd_imp_le)
  let ?l = "p + n - 4"
  have l: "?l + 4 \<le> length b" using n assms(2) by simp
  from rd_u32_zero [OF l] obtain v where v: "rd_u32 b ?l = Some v" "v = 0 \<longleftrightarrow> \<not> nonzero_at b ?l 4" by blast
  have vec: "rd b ?l 4 = Some (take 4 (drop ?l b))" "\<not> vec_zero (take 4 (drop ?l b)) \<longleftrightarrow> nonzero_at b ?l 4"
    using l by (simp_all add: rd_def nonzero_at_vec)
  have "data_search_std b p n = data_search_vec 4 b p n"
  proof (cases "nonzero_at b ?l 4")
    case True
    with n v vec show ?thesis by (simp add: data_search_std_def data_search_vec_def Let_def)
  next
    case nz: False
    have "wr b ?l [1] \<noteq> None" using l by simp
    then obtain b' where b': "wr b ?l [1] = Some b'" by blast
    have l': "length b' = length b" using b' by (rule length_wr)
    have w0: "wr_u32 b' ?l 0 = wr b' ?l [0]"
      using l l' nz wr_nth [OF b'] by (intro wr_long_zero) (auto simp: nonzero_at_def)
    have w1: "wr_u32 b ?l 1 = Some b'"
      using l nz b' by (subst wr_long_zero(2)) (auto simp: nonzero_at_def)
    from nz n v vec w0 w1 b' show ?thesis
      by (simp add: data_search_std_def data_search_vec_def Let_def scan_longs_vecs)
  qed
  with assms show ?thesis by (simp add: data_search_vec_eq)
qed

interpretation std: zero_search data_search_std
proof
  fix n p :: nat and b :: buf
  assume "512 dvd n" and "p + n \<le> length b"
  then show "data_search_std b p n = Some (nonzero_at b p n, b)"
    by (intro data_search_std_eq) (auto intro: dvd_trans [of 4 512])
qed

interpretation sse2: zero_search data_search_sse2
  by standard (auto simp: data_search_sse2_def intro!: data_search_vec_eq intro: dvd_trans [of 16 512])

interpretation avx: zero_search data_search_avx
  by standard (auto simp: data_search_avx_def intro!: data_search_vec_eq intro: dvd_trans [of 32 512])

text \<open>
  The three searches agree. On an area of whole vectors that lies in memory each of them ends,
  touches nothing outside, puts back the sentinel it wrote, and says whether a byte of the area is
  not zero.
\<close>

theorem data_search_correct:
  assumes "p + n \<le> length b"
  shows "(4 dvd n \<longrightarrow> data_search_std b p n = Some (\<exists>i. p \<le> i \<and> i < p + n \<and> b ! i \<noteq> 0, b)) \<and>
    (16 dvd n \<longrightarrow> data_search_sse2 b p n = Some (\<exists>i. p \<le> i \<and> i < p + n \<and> b ! i \<noteq> 0, b)) \<and>
    (32 dvd n \<longrightarrow> data_search_avx b p n = Some (\<exists>i. p \<le> i \<and> i < p + n \<and> b ! i \<noteq> 0, b))"
  using assms data_search_std_eq [of n p b] data_search_vec_eq [of 16 n p b] data_search_vec_eq [of 32 n p b]
  by (simp add: nonzero_at_def data_search_sse2_def data_search_avx_def)

theorem data_search_correct_witness:
  "data_search_std (replicate 40 0 @ [7] @ replicate 23 0) 0 64 = Some (True, replicate 40 0 @ [7] @ replicate 23 0) \<and>
   data_search_avx (replicate 64 0) 32 32 = Some (False, replicate 64 0)"
proof
  show "data_search_std (replicate 40 0 @ [7] @ replicate 23 0) 0 64 = Some (True, replicate 40 0 @ [7] @ replicate 23 0)"
    using data_search_correct [of 0 64 "replicate 40 0 @ [7] @ replicate 23 0"]
    by (auto simp: nth_append intro!: exI [of _ 40])
  show "data_search_avx (replicate 64 0) 32 32 = Some (False, replicate 64 0)"
    using data_search_correct [of 32 32 "replicate 64 0"] by simp
qed

end
