(* ===== verification/Sector_Device.thy ===== *)
theory Sector_Device
  imports Prelude
begin

text \<open>
  \<^verbatim>\<open>ImBox/AbstractIO.h\<close>: the interface \<^verbatim>\<open>CAbstractIO\<close> of everything an image can be kept in, and the
  contract that the layers above rely on: a store of 512-byte sectors, in which a read that is
  granted returns what was written last.
\<close>

section \<open>The interface\<close>

text \<open>The codes \<^verbatim>\<open>ERR_*\<close> of \<^verbatim>\<open>ImBox.h\<close>.\<close>

datatype imbox_err =
    ERR_OK | ERR_UNKNOWN_TYPE | ERR_FILE_NOT_OPENED | ERR_UNKNOWN_CIPHER | ERR_WRONG_PASSWORD | ERR_KEY_REQUIRED
  | ERR_PRIVILEGE | ERR_INTERNAL | ERR_FILE_MAPPING | ERR_CREATE_EVENT | ERR_IMDISK_FAILED | ERR_IMDISK_TIMEOUT
  | ERR_UNKNOWN_COMMAND | ERR_MALLOC_ERROR | ERR_INVALID_PARAM | ERR_DATA_TO_LONG | ERR_DATA_NOT_FOUND
  | ERR_IO_FAILED | ERR_BUFFER_TO_SMALL

text \<open>
  An object of the class as the functions behind its virtual methods, over the state \<open>'w\<close> of the
  object and of what it works on. \<open>None\<close> is undefined behaviour in the method. A read names a size
  and a position, a write its bytes and a position, a trim the start and length of its ranges.
\<close>

record 'w abs_io =
  io_init :: "'w \<Rightarrow> (imbox_err \<times> 'w) option"
  io_size :: "'w \<Rightarrow> u64"
  io_format :: "'w \<Rightarrow> bool"
  io_read :: "nat \<Rightarrow> nat \<Rightarrow> 'w \<Rightarrow> ((bool \<times> buf) \<times> 'w) option"
  io_write :: "buf \<Rightarrow> nat \<Rightarrow> 'w \<Rightarrow> (bool \<times> 'w) option"
  io_trim :: "(nat \<times> nat) list \<Rightarrow> 'w \<Rightarrow> 'w option"

text \<open>Requests that are granted.\<close>

definition io_rd :: "'w abs_io \<Rightarrow> 'w \<Rightarrow> nat \<Rightarrow> nat \<Rightarrow> buf option" where
  "io_rd io w offset n = (case io_read io n offset w of Some ((True, bs), w) \<Rightarrow> Some bs | _ \<Rightarrow> None)"

definition io_wr :: "'w abs_io \<Rightarrow> 'w \<Rightarrow> buf \<Rightarrow> nat \<Rightarrow> 'w option" where
  "io_wr io w bs offset = (case io_write io bs offset w of Some (True, w) \<Rightarrow> Some w | _ \<Rightarrow> None)"

section \<open>The contract\<close>

definition sector_range :: "nat \<Rightarrow> nat \<Rightarrow> nat \<Rightarrow> bool" where
  "sector_range len offset n \<longleftrightarrow> 0 < n \<and> n \<le> 2 ^ 30 \<and> 512 dvd n \<and> 512 dvd offset \<and> offset + n \<le> len"

locale sector_device =
  fixes rd_dev :: "'d \<Rightarrow> nat \<Rightarrow> nat \<Rightarrow> buf option"
    and wr_dev :: "'d \<Rightarrow> buf \<Rightarrow> nat \<Rightarrow> 'd option"
    and dev_ok :: "'d \<Rightarrow> bool"
    and dev_len :: "'d \<Rightarrow> nat"
  assumes read_len: "dev_ok d \<Longrightarrow> sector_range (dev_len d) offset n \<Longrightarrow> \<exists>bs. rd_dev d offset n = Some bs \<and> length bs = n"
    and read_append: "dev_ok d \<Longrightarrow> sector_range (dev_len d) offset m \<Longrightarrow> sector_range (dev_len d) (offset + m) n \<Longrightarrow>
      sector_range (dev_len d) offset (m + n) \<Longrightarrow>
      rd_dev d offset (m + n) = do { a \<leftarrow> rd_dev d offset m; b \<leftarrow> rd_dev d (offset + m) n; Some (a @ b) }"
    and write_ok: "dev_ok d \<Longrightarrow> sector_range (dev_len d) offset (length bs) \<Longrightarrow> wr_dev d bs offset = Some d' \<Longrightarrow>
      dev_ok d' \<and> dev_len d' = dev_len d"
    and write_same: "dev_ok d \<Longrightarrow> sector_range (dev_len d) offset (length bs) \<Longrightarrow> wr_dev d bs offset = Some d' \<Longrightarrow>
      rd_dev d' offset (length bs) = Some bs"
    and write_other: "dev_ok d \<Longrightarrow> sector_range (dev_len d) offset (length bs) \<Longrightarrow> wr_dev d bs offset = Some d' \<Longrightarrow>
      sector_range (dev_len d) p q \<Longrightarrow> p + q \<le> offset \<or> offset + length bs \<le> p \<Longrightarrow> rd_dev d' p q = rd_dev d p q"
begin

text \<open>A second write of the same sectors makes the first one invisible.\<close>

lemma write_twice:
  assumes "dev_ok d" and "sector_range (dev_len d) offset (length bs)" and "length cs = length bs"
    and "wr_dev d bs offset = Some d1" and "wr_dev d1 cs offset = Some d2"
  shows "rd_dev d2 offset (length bs) = Some cs"
  using write_same [of d1 offset cs d2] write_ok [of d offset bs d1] assms by simp

text \<open>The first sectors of what was written.\<close>

lemma read_prefix:
  assumes d: "dev_ok d" and r: "sector_range (dev_len d) offset (m + n)" "sector_range (dev_len d) offset m"
    and x: "rd_dev d offset (m + n) = Some xs"
  shows "rd_dev d offset m = Some (take m xs)"
proof (cases "n = 0")
  case True
  then have "length xs = m" using x read_len [OF d r(2)] by auto
  with True x show ?thesis by simp
next
  case False
  with r have "sector_range (dev_len d) (offset + m) n"
    by (auto simp: sector_range_def dvd_add_right_iff dvd_add)
  from read_append [OF d r(2) this r(1)] x
  have "do { a \<leftarrow> rd_dev d offset m; b \<leftarrow> rd_dev d (offset + m) n; Some (a @ b) } = Some xs" by simp
  with read_len [OF d r(2)] show ?thesis by (auto elim!: bind_SomeE)
qed

end

end
