(* ===== verification/Ram_Disk.thy ===== *)
theory Ram_Disk
  imports Zero_Search Sector_Device
begin

unbundle bit_operations_syntax

text \<open>
  The RAM disk of \<^verbatim>\<open>ImBox/VirtualMemoryIO.cpp\<close>: a table of blocks of which only those that hold a
  byte that is not zero are allocated. Positions and sizes of requests are natural numbers; a
  request whose \<^verbatim>\<open>int\<close> sum of size and offset in the block overflows is undefined.
\<close>

section \<open>State\<close>

record ram =
  r_size :: nat
  r_shift :: nat
  r_table :: "buf option list"
  r_blocks :: int

definition mem_block_size :: "ram \<Rightarrow> nat" where
  "mem_block_size d = 2 ^ r_shift d"

text \<open>What the process asks of Windows: memory that is left, and whether an allocation succeeds.\<close>

record 'w vm =
  vm_avail :: "'w \<Rightarrow> u64 \<times> 'w"
  vm_alloc :: "nat \<Rightarrow> 'w \<Rightarrow> bool \<times> 'w"

definition MINIMAL_MEM :: u64 where "MINIMAL_MEM = push_bit 20 100"

definition CVirtualMemoryIO :: "nat \<Rightarrow> int \<Rightarrow> ram" where
  "CVirtualMemoryIO uSize BlockSize =
     (let shift = BlockSize;
          shift = (if shift < 12 then 12 else shift);
          shift = (if 30 < shift then 30 else shift)
      in \<lparr>r_size = uSize, r_shift = nat shift, r_table = [], r_blocks = 0\<rparr>)"

definition GetAllocSize :: "ram \<Rightarrow> u64" where
  "GetAllocSize d = word_of_int (r_blocks d) * of_nat (mem_block_size d)"

text \<open>The number of blocks, in 64 bits.\<close>

definition table_size :: "nat \<Rightarrow> ram \<Rightarrow> nat" where
  "table_size uSize d = (uSize + (mem_block_size d - 1)) mod 2 ^ 64 div mem_block_size d"

text \<open>
  A table that could not be allocated stays a null pointer, although \<^verbatim>\<open>Init\<close> reports success: every
  access that follows is undefined.
\<close>

definition ram_init :: "'w vm \<Rightarrow> ram \<Rightarrow> 'w \<Rightarrow> (ram \<times> 'w) option" where
  "ram_init vm d w =
     (let n = table_size (r_size d) d in
      case vm_alloc vm (8 * n) w of
        (False, w) \<Rightarrow> None
      | (True, w) \<Rightarrow> Some (d\<lparr>r_table := replicate n None\<rparr>, w))"

definition Expand :: "'w vm \<Rightarrow> ram \<Rightarrow> nat \<Rightarrow> 'w \<Rightarrow> (ram \<times> 'w) option" where
  "Expand vm d uSize w =
     (if uSize \<le> r_size d then Some (d, w)
      else
        (let d = d\<lparr>r_size := uSize\<rparr>; old_table = r_table d; n = table_size (r_size d) d in
         case vm_alloc vm (8 * n) w of
           (False, w) \<Rightarrow> None
         | (True, w) \<Rightarrow>
             if n < length old_table then None
             else Some (d\<lparr>r_table := old_table @ replicate (n - length old_table) None\<rparr>, w)))"

section \<open>Requests\<close>

text \<open>One turn of the loop of \<^verbatim>\<open>DiskWrite\<close>: the bytes that go to one block.\<close>

definition write_block ::
  "(buf \<Rightarrow> nat \<Rightarrow> nat \<Rightarrow> (bool \<times> buf) option) \<Rightarrow> 'w vm \<Rightarrow> ram \<Rightarrow> nat \<Rightarrow> nat \<Rightarrow> buf \<Rightarrow> 'w \<Rightarrow>
   ((bool \<times> ram) \<times> 'w) option" where
  "write_block search vm d index block_offset bytes w = do {
     let current_size = length bytes;
     (has_data, bytes) \<leftarrow> search bytes 0 current_size;
     if length (r_table d) \<le> index then None
     else
       (case r_table d ! index of
          Some p \<Rightarrow>
            if has_data then do {
              p \<leftarrow> wr p block_offset bytes;
              Some ((True, d\<lparr>r_table := (r_table d)[index := Some p]\<rparr>), w) }
            else do {
              (before, p) \<leftarrow> search p 0 block_offset;
              (after, p) \<leftarrow>
                (if before then Some (False, p)
                 else search p (block_offset + current_size) (mem_block_size d - block_offset - current_size));
              if before \<or> after then do {
                p \<leftarrow> wr p block_offset (replicate current_size 0);
                Some ((True, d\<lparr>r_table := (r_table d)[index := Some p]\<rparr>), w) }
              else Some ((True, d\<lparr>r_table := (r_table d)[index := None], r_blocks := r_blocks d - 1\<rparr>), w) }
        | None \<Rightarrow>
            if has_data then
              (case vm_avail vm w of (avail, w) \<Rightarrow>
                 if avail < MINIMAL_MEM then Some ((False, d), w)
                 else
                   (case vm_alloc vm (mem_block_size d) w of
                      (False, w) \<Rightarrow> Some ((False, d), w)
                    | (True, w) \<Rightarrow> do {
                        p \<leftarrow> wr (replicate (mem_block_size d) 0) block_offset bytes;
                        Some ((True, d\<lparr>r_table := (r_table d)[index := Some p], r_blocks := r_blocks d + 1\<rparr>), w) }))
            else Some ((True, d), w)) }"

text \<open>How much of a request of \<open>sz\<close> bytes goes to the block in which it starts.\<close>

definition in_block :: "ram \<Rightarrow> nat \<Rightarrow> nat \<Rightarrow> nat" where
  "in_block d block_offset sz = min (sz + block_offset) (mem_block_size d) - block_offset"

lemma in_block_progress: "0 < sz \<Longrightarrow> \<not> sz - in_block d block_offset sz < sz \<Longrightarrow> 0 < block_offset"
  by (cases "block_offset = 0") (simp_all add: in_block_def mem_block_size_def)

lemma in_block_progress_rest:
  "\<not> sz \<le> in_block d block_offset sz \<Longrightarrow> \<not> sz - in_block d block_offset sz < sz \<Longrightarrow> 0 < block_offset"
  by (rule in_block_progress [of sz d]) auto

lemma in_block_measure: "0 < sz \<Longrightarrow> sz - in_block d block_offset sz + 0 < sz + block_offset"
  using in_block_progress [of sz d block_offset] by (cases "block_offset = 0") auto

text \<open>
  The loop of \<^verbatim>\<open>DiskWrite\<close>; \<open>buf\<close> is what is left to write, \<open>offset\<close> stays that of the request
  while \<^verbatim>\<open>size\<close> shrinks.
\<close>

function write_loop ::
  "(buf \<Rightarrow> nat \<Rightarrow> nat \<Rightarrow> (bool \<times> buf) option) \<Rightarrow> 'w vm \<Rightarrow> ram \<Rightarrow> nat \<Rightarrow> nat \<Rightarrow> nat \<Rightarrow> buf \<Rightarrow> bool \<Rightarrow> 'w \<Rightarrow>
   ((bool \<times> ram) \<times> 'w) option" where
  "write_loop search vm d offset index block_offset buf ret w =
     (if 2 ^ 31 \<le> length buf + block_offset then None
      else do {
        (d, w) \<leftarrow> (if length (r_table d) \<le> index then Expand vm d (offset + length buf) w else Some (d, w));
        let current_size = in_block d block_offset (length buf);
        ((ok, d), w) \<leftarrow> write_block search vm d index block_offset (take current_size buf) w;
        let buf = drop current_size buf;
        if buf = [] then Some ((ret \<and> ok, d), w)
        else write_loop search vm d offset (index + 1) 0 buf (ret \<and> ok) w })"
  by pat_completeness auto
termination
proof (relation "measures [\<lambda>(search, vm, d, offset, index, block_offset, buf, ret, w). length buf,
    \<lambda>(search, vm, d, offset, index, block_offset, buf, ret, w). block_offset]")
qed (auto dest: in_block_progress in_block_progress_rest)

declare write_loop.simps [simp del]

definition ram_write ::
  "(buf \<Rightarrow> nat \<Rightarrow> nat \<Rightarrow> (bool \<times> buf) option) \<Rightarrow> 'w vm \<Rightarrow> ram \<Rightarrow> buf \<Rightarrow> nat \<Rightarrow> 'w \<Rightarrow> ((bool \<times> ram) \<times> 'w) option" where
  "ram_write search vm d buf offset w =
     write_loop search vm d offset (drop_bit (r_shift d) offset) (offset AND (mem_block_size d - 1)) buf True w"

function read_loop :: "'w vm \<Rightarrow> ram \<Rightarrow> nat \<Rightarrow> nat \<Rightarrow> nat \<Rightarrow> nat \<Rightarrow> 'w \<Rightarrow> ((buf \<times> ram) \<times> 'w) option" where
  "read_loop vm d offset index block_offset sz w =
     (if 2 ^ 31 \<le> sz + block_offset then None
      else do {
        (d, w) \<leftarrow> (if length (r_table d) \<le> index then Expand vm d (offset + sz) w else Some (d, w));
        let current_size = in_block d block_offset sz;
        bytes \<leftarrow>
          (if length (r_table d) \<le> index then None
           else
             (case r_table d ! index of
                Some p \<Rightarrow> rd p block_offset current_size
              | None \<Rightarrow> Some (replicate current_size 0)));
        let sz = sz - current_size;
        if sz = 0 then Some ((bytes, d), w)
        else do {
          ((rest, d), w) \<leftarrow> read_loop vm d offset (index + 1) 0 sz w;
          Some ((bytes @ rest, d), w) } })"
  by pat_completeness auto
termination
proof (relation "measures [\<lambda>(vm, d, offset, index, block_offset, sz, w). sz,
    \<lambda>(vm, d, offset, index, block_offset, sz, w). block_offset]")
qed (auto dest: in_block_progress in_block_progress_rest)

declare read_loop.simps [simp del]

definition ram_read :: "'w vm \<Rightarrow> ram \<Rightarrow> nat \<Rightarrow> nat \<Rightarrow> 'w \<Rightarrow> ((buf \<times> ram) \<times> 'w) option" where
  "ram_read vm d sz offset w =
     read_loop vm d offset (drop_bit (r_shift d) offset) (offset AND (mem_block_size d - 1)) sz w"

text \<open>One range of \<^verbatim>\<open>TrimProcess\<close>, and the ranges of a request.\<close>

definition trim_block ::
  "(buf \<Rightarrow> nat \<Rightarrow> nat \<Rightarrow> (bool \<times> buf) option) \<Rightarrow> ram \<Rightarrow> nat \<Rightarrow> nat \<Rightarrow> nat \<Rightarrow> ram option" where
  "trim_block search d index block_offset current_size =
     (case r_table d ! index of
        None \<Rightarrow> Some d
      | Some p \<Rightarrow> do {
          (before, p) \<leftarrow> search p 0 block_offset;
          (after, p) \<leftarrow>
            (if before then Some (False, p)
             else search p (block_offset + current_size) (mem_block_size d - block_offset - current_size));
          if before \<or> after then do {
            p \<leftarrow> wr p block_offset (replicate current_size 0);
            Some (d\<lparr>r_table := (r_table d)[index := Some p]\<rparr>) }
          else Some (d\<lparr>r_table := (r_table d)[index := None], r_blocks := r_blocks d - 1\<rparr>) })"

function trim_loop ::
  "(buf \<Rightarrow> nat \<Rightarrow> nat \<Rightarrow> (bool \<times> buf) option) \<Rightarrow> ram \<Rightarrow> nat \<Rightarrow> nat \<Rightarrow> nat \<Rightarrow> ram option" where
  "trim_loop search d index block_offset sz =
     (if sz = 0 \<or> length (r_table d) \<le> index then Some d
      else do {
        let current_size = in_block d block_offset sz;
        d \<leftarrow> trim_block search d index block_offset current_size;
        trim_loop search d (index + 1) 0 (sz - current_size) })"
  by pat_completeness auto
termination
proof (relation "measures [\<lambda>(search, d, index, block_offset, sz). sz, \<lambda>(search, d, index, block_offset, sz). block_offset]")
qed (auto dest: in_block_progress in_block_progress_rest)

declare trim_loop.simps [simp del]

fun ram_trim ::
  "(buf \<Rightarrow> nat \<Rightarrow> nat \<Rightarrow> (bool \<times> buf) option) \<Rightarrow> ram \<Rightarrow> (nat \<times> nat) list \<Rightarrow> ram option" where
  "ram_trim search d [] = Some d"
| "ram_trim search d ((StartingOffset, LengthInBytes) # ranges) = do {
     d \<leftarrow> trim_loop search d (drop_bit (r_shift d) StartingOffset) (StartingOffset AND (mem_block_size d - 1)) LengthInBytes;
     ram_trim search d ranges }"

section \<open>The disk as a sequence of bytes\<close>

definition ram_byte :: "ram \<Rightarrow> nat \<Rightarrow> u8" where
  "ram_byte d p =
     (if p div mem_block_size d < length (r_table d)
      then (case r_table d ! (p div mem_block_size d) of None \<Rightarrow> 0 | Some b \<Rightarrow> b ! (p mod mem_block_size d))
      else 0)"

definition ram_cap :: "ram \<Rightarrow> nat" where
  "ram_cap d = length (r_table d) * mem_block_size d"

definition allocated :: "buf option list \<Rightarrow> int" where
  "allocated t = int (length (filter (\<lambda>x. x \<noteq> None) t))"

definition ram_ok :: "ram \<Rightarrow> bool" where
  "ram_ok d \<longleftrightarrow>
     12 \<le> r_shift d \<and> r_shift d \<le> 30 \<and>
     (\<forall>b. Some b \<in> set (r_table d) \<longrightarrow> length b = mem_block_size d) \<and>
     r_blocks d = allocated (r_table d)"

text \<open>The disks that differ in their blocks only.\<close>

definition same_shape :: "ram \<Rightarrow> ram \<Rightarrow> bool" where
  "same_shape d d' \<longleftrightarrow> r_size d' = r_size d \<and> r_shift d' = r_shift d \<and> length (r_table d') = length (r_table d)"

lemma same_shape_simps: "same_shape d d' \<Longrightarrow> mem_block_size d' = mem_block_size d \<and> ram_cap d' = ram_cap d"
  by (simp add: same_shape_def mem_block_size_def ram_cap_def)

lemma same_shape_refl [simp]: "same_shape d d"
  by (simp add: same_shape_def)

lemma same_shape_trans: "same_shape d d' \<Longrightarrow> same_shape d' d'' \<Longrightarrow> same_shape d d''"
  by (simp add: same_shape_def)

lemma block_size_facts:
  assumes "ram_ok d"
  shows "0 < mem_block_size d" and "512 dvd mem_block_size d" and "512 \<le> mem_block_size d" and "mem_block_size d \<le> 2 ^ 30"
proof -
  show "0 < mem_block_size d" by (simp add: mem_block_size_def)
  have "(2 :: nat) ^ 9 dvd 2 ^ r_shift d" using assms by (intro le_imp_power_dvd) (simp add: ram_ok_def)
  then show dvd: "512 dvd mem_block_size d" by (simp add: mem_block_size_def)
  then show "512 \<le> mem_block_size d" using \<open>0 < mem_block_size d\<close> by (intro dvd_imp_le)
  show "mem_block_size d \<le> 2 ^ 30" using assms unfolding mem_block_size_def ram_ok_def by (intro power_increasing) auto
qed

lemma block_range:
  fixes bs :: nat
  assumes "bo + n \<le> bs"
  shows "i * bs + bo \<le> p \<and> p < i * bs + bo + n \<longleftrightarrow> p div bs = i \<and> bo \<le> p mod bs \<and> p mod bs < bo + n"
proof
  assume p: "i * bs + bo \<le> p \<and> p < i * bs + bo + n"
  then have "p < i * bs + bs" using assms by linarith
  then have "p div bs = i" using p by (intro div_nat_eqI) (auto simp: mult.commute)
  moreover have "p = p div bs * bs + p mod bs" by simp
  ultimately show "p div bs = i \<and> bo \<le> p mod bs \<and> p mod bs < bo + n" using p by (metis add_le_cancel_left add.assoc add_less_cancel_left)
next
  assume p: "p div bs = i \<and> bo \<le> p mod bs \<and> p mod bs < bo + n"
  then have "p = i * bs + p mod bs" by (metis div_mult_mod_eq)
  with p show "i * bs + bo \<le> p \<and> p < i * bs + bo + n" by linarith
qed

lemma allocated_update:
  "i < length t \<Longrightarrow> allocated (t[i := v]) = allocated t - of_bool (t ! i \<noteq> None) + of_bool (v \<noteq> None)"
proof (induction t arbitrary: i)
  case (Cons x t)
  show ?case
  proof (cases i)
    case 0
    then show ?thesis by (auto simp: allocated_def)
  next
    case (Suc j)
    with Cons show ?thesis by (auto simp: allocated_def)
  qed
qed simp

lemma mem_block_size_update [simp]:
  "mem_block_size (d\<lparr>r_table := t\<rparr>) = mem_block_size d" "mem_block_size (d\<lparr>r_blocks := n\<rparr>) = mem_block_size d"
  by (simp_all add: mem_block_size_def)

text \<open>Replacing one block.\<close>

lemma ram_byte_update:
  assumes "index < length (r_table d)"
  shows "ram_byte (d\<lparr>r_table := (r_table d)[index := v], r_blocks := n\<rparr>) p =
    (if p div mem_block_size d = index then (case v of None \<Rightarrow> 0 | Some b \<Rightarrow> b ! (p mod mem_block_size d)) else ram_byte d p)"
  using assms by (auto simp: ram_byte_def split: option.split)

lemma ram_ok_update:
  assumes "ram_ok d" and "index < length (r_table d)" and "\<And>b. v = Some b \<Longrightarrow> length b = mem_block_size d"
    and "n = r_blocks d - of_bool (r_table d ! index \<noteq> None) + of_bool (v \<noteq> None)"
  shows "ram_ok (d\<lparr>r_table := (r_table d)[index := v], r_blocks := n\<rparr>)"
  using assms by (auto simp: ram_ok_def allocated_update dest!: set_update_subset_insert [THEN subsetD])

lemma same_shape_update: "same_shape d (d\<lparr>r_table := (r_table d)[index := v], r_blocks := n\<rparr>)"
  by (simp add: same_shape_def)

text \<open>What one turn of a loop does to a block: the bytes \<open>xs\<close> go to the offset \<open>bo\<close> of block \<open>index\<close>.\<close>

definition patched :: "ram \<Rightarrow> nat \<Rightarrow> buf \<Rightarrow> ram \<Rightarrow> bool" where
  "patched d a xs d' \<longleftrightarrow>
     ram_ok d' \<and> same_shape d d' \<and>
     (\<forall>p. ram_byte d' p = (if a \<le> p \<and> p < a + length xs then xs ! (p - a) else ram_byte d p))"

lemma patched_update:
  assumes ok: "ram_ok d" and i: "index < length (r_table d)" and n: "bo + length xs \<le> mem_block_size d"
    and v: "\<And>b. v = Some b \<Longrightarrow> length b = mem_block_size d"
    and byte: "\<And>i. i < mem_block_size d \<Longrightarrow> (case v of None \<Rightarrow> 0 | Some b \<Rightarrow> b ! i) =
      (if bo \<le> i \<and> i < bo + length xs then xs ! (i - bo)
       else (case r_table d ! index of None \<Rightarrow> 0 | Some b \<Rightarrow> b ! i))"
    and count: "k = r_blocks d - of_bool (r_table d ! index \<noteq> None) + of_bool (v \<noteq> None)"
  shows "patched d (index * mem_block_size d + bo) xs (d\<lparr>r_table := (r_table d)[index := v], r_blocks := k\<rparr>)"
proof -
  let ?bs = "mem_block_size d"
  have "ram_byte (d\<lparr>r_table := (r_table d)[index := v], r_blocks := k\<rparr>) p =
    (if index * ?bs + bo \<le> p \<and> p < index * ?bs + bo + length xs then xs ! (p - (index * ?bs + bo)) else ram_byte d p)" for p
  proof (cases "p div ?bs = index")
    case True
    then have p: "p = index * ?bs + p mod ?bs" by (metis div_mult_mod_eq)
    have "p mod ?bs < ?bs" using block_size_facts(1) [OF ok] by simp
    note b = byte [OF this]
    have "p - (index * ?bs + bo) = p mod ?bs - bo" using p by linarith
    then show ?thesis
      using True i b unfolding ram_byte_update [OF i] block_range [OF n] by (simp add: ram_byte_def)
  next
    case False
    then show ?thesis unfolding ram_byte_update [OF i] block_range [OF n] by simp
  qed
  with ram_ok_update [OF ok i v count] same_shape_update show ?thesis
    unfolding patched_def by blast
qed

text \<open>A block that was allocated gets other bytes.\<close>

lemma patched_block:
  assumes "ram_ok d" and i: "index < length (r_table d)" and "bo + length xs \<le> mem_block_size d"
    and "r_table d ! index = Some b" and "length b' = mem_block_size d"
    and "\<And>i. i < mem_block_size d \<Longrightarrow> b' ! i = (if bo \<le> i \<and> i < bo + length xs then xs ! (i - bo) else b ! i)"
  shows "patched d (index * mem_block_size d + bo) xs (d\<lparr>r_table := (r_table d)[index := Some b']\<rparr>)"
proof -
  have "patched d (index * mem_block_size d + bo) xs
      (d\<lparr>r_table := (r_table d)[index := Some b'], r_blocks := r_blocks d\<rparr>)"
    using assms by (intro patched_update) auto
  then show ?thesis by simp
qed

text \<open>
  Zeroing a part of a block: the block is kept when a byte of another part is not zero, else it is
  released. Both \<^verbatim>\<open>DiskWrite\<close> and \<^verbatim>\<open>TrimProcess\<close> do it.
\<close>

lemma zero_part:
  assumes s: "zero_search search" and ok: "ram_ok d" and i: "index < length (r_table d)" "r_table d ! index = Some b"
    and n: "bo + n \<le> mem_block_size d" "512 dvd bo" "512 dvd n"
  shows "\<exists>d'. do {
      (before, p) \<leftarrow> search b 0 bo;
      (after, p) \<leftarrow> (if before then Some (False, p) else search p (bo + n) (mem_block_size d - bo - n));
      if before \<or> after then do {
        p \<leftarrow> wr p bo (replicate n 0);
        Some (f (d\<lparr>r_table := (r_table d)[index := Some p]\<rparr>)) }
      else Some (f (d\<lparr>r_table := (r_table d)[index := None], r_blocks := r_blocks d - 1\<rparr>)) } = Some (f d') \<and>
    patched d (index * mem_block_size d + bo) (replicate n 0) d'"
proof -
  let ?bs = "mem_block_size d"
  have lb: "length b = ?bs" using ok i nth_mem [OF i(1)] by (auto simp: ram_ok_def)
  have "512 dvd ?bs" by (rule block_size_facts(2) [OF ok])
  then have after: "search b (bo + n) (?bs - bo - n) = Some (nonzero_at b (bo + n) (?bs - bo - n), b)"
    and before: "search b 0 bo = Some (nonzero_at b 0 bo, b)"
    using n lb by (intro zero_search.search_eq [OF s]; simp add: dvd_diff_nat)+
  show ?thesis
  proof (cases "nonzero_at b 0 bo \<or> nonzero_at b (bo + n) (?bs - bo - n)")
    case True
    obtain p where p: "wr b bo (replicate n 0) = Some p"
      using n(1) lb by (auto simp: wr_def)
    have lp: "length p = ?bs" using p lb by (simp add: length_wr)
    have "patched d (index * ?bs + bo) (replicate n 0) (d\<lparr>r_table := (r_table d)[index := Some p]\<rparr>)"
      using ok i n(1) lp lb by (intro patched_block) (auto simp: wr_nth [OF p])
    then show ?thesis
      using True before after p
      by (intro exI [of _ "d\<lparr>r_table := (r_table d)[index := Some p]\<rparr>"]) (cases "nonzero_at b 0 bo"; simp)
  next
    case False
    have "patched d (index * ?bs + bo) (replicate n 0) (d\<lparr>r_table := (r_table d)[index := None], r_blocks := r_blocks d - 1\<rparr>)"
    proof (rule patched_update [OF ok i(1)])
      fix j assume j: "j < ?bs"
      have "b ! j = 0" if "\<not> (bo \<le> j \<and> j < bo + n)"
        using False that j n(1) by (cases "j < bo") (auto simp: nonzero_at_def)
      then show "(case None of None \<Rightarrow> 0 | Some b \<Rightarrow> b ! j) = (if bo \<le> j \<and> j < bo + length (replicate n 0) then replicate n 0 ! (j - bo)
          else case r_table d ! index of None \<Rightarrow> 0 | Some b \<Rightarrow> b ! j)"
        using i(2) by auto
    qed (use i n(1) in simp_all)
    with False before after show ?thesis
      by (intro exI [of _ "d\<lparr>r_table := (r_table d)[index := None], r_blocks := r_blocks d - 1\<rparr>"]) simp
  qed
qed

section \<open>Requests\<close>

lemma no_data: "512 dvd length xs \<Longrightarrow> \<not> nonzero_at xs 0 (length xs) \<Longrightarrow> xs = replicate (length xs) 0"
  by (auto simp: nonzero_at_def intro!: nth_equalityI)

lemma write_block_patched:
  assumes s: "zero_search search" and ok: "ram_ok d" and i: "index < length (r_table d)"
    and n: "bo + length xs \<le> mem_block_size d" "512 dvd bo" "512 dvd length xs"
  shows "\<exists>okay d' w'. write_block search vm d index bo xs w = Some ((okay, d'), w') \<and>
    (if okay then patched d (index * mem_block_size d + bo) xs d' else d' = d \<and> r_table d ! index = None)"
proof -
  let ?bs = "mem_block_size d"
  have data: "search xs 0 (length xs) = Some (nonzero_at xs 0 (length xs), xs)"
    using n(3) by (intro zero_search.search_eq [OF s]) simp_all
  have zero: "\<not> nonzero_at xs 0 (length xs) \<Longrightarrow> xs = replicate (length xs) 0" using n(3) by (rule no_data)
  show ?thesis
  proof (cases "r_table d ! index")
    case None
    show ?thesis
    proof (cases "nonzero_at xs 0 (length xs)")
      case True
      obtain avail w1 where a: "vm_avail vm w = (avail, w1)" by force
      obtain okay w2 where al: "vm_alloc vm ?bs w1 = (okay, w2)" by force
      obtain p where p: "wr (replicate ?bs 0) bo xs = Some p" using n(1) by (auto simp: wr_def)
      have lp: "length p = ?bs" using length_wr [OF p] by simp
      have "patched d (index * ?bs + bo) xs (d\<lparr>r_table := (r_table d)[index := Some p], r_blocks := r_blocks d + 1\<rparr>)"
        using ok i n(1) lp None by (intro patched_update) (auto simp: wr_nth [OF p])
      with data True None i a al p show ?thesis
        by (cases "avail < MINIMAL_MEM"; cases okay) (auto simp: write_block_def)
    next
      case False
      have "patched d (index * ?bs + bo) xs d"
      proof -
        have "patched d (index * ?bs + bo) xs (d\<lparr>r_table := (r_table d)[index := None], r_blocks := r_blocks d\<rparr>)"
          using ok i n(1) None
          by (intro patched_update) (use zero [OF False] in \<open>auto, (metis nth_replicate add_less_cancel_left le_add_diff_inverse)?\<close>)
        also have "d\<lparr>r_table := (r_table d)[index := None], r_blocks := r_blocks d\<rparr> = d"
          using None by (simp add: list_update_same_conv [THEN iffD2] i)
        finally show ?thesis .
      qed
      with data False None i show ?thesis by (auto simp: write_block_def)
    qed
  next
    case (Some b)
    have lb: "length b = ?bs" using ok Some nth_mem [OF i] by (auto simp: ram_ok_def)
    show ?thesis
    proof (cases "nonzero_at xs 0 (length xs)")
      case True
      obtain p where p: "wr b bo xs = Some p" using n(1) lb by (auto simp: wr_def)
      have lp: "length p = ?bs" using length_wr [OF p] lb by simp
      have "patched d (index * ?bs + bo) xs (d\<lparr>r_table := (r_table d)[index := Some p]\<rparr>)"
        using ok i n(1) lp lb Some by (intro patched_block) (auto simp: wr_nth [OF p])
      with data True Some i p show ?thesis by (auto simp: write_block_def)
    next
      case False
      from zero_part [OF s ok i Some n, of "\<lambda>d. ((True, d), w)"] obtain d' where
        "write_block search vm d index bo xs w = Some ((True, d'), w)"
        "patched d (index * ?bs + bo) (replicate (length xs) 0) d'"
        using data False Some i by (auto simp: write_block_def)
      with zero [OF False] show ?thesis by auto
    qed
  qed
qed

text \<open>
  What a request does to the bytes: those of the request are replaced, except that, when \<open>okay\<close> is
  false, the bytes of a block that could not be allocated stay zero; all others stay as they were.
\<close>

definition written :: "ram \<Rightarrow> nat \<Rightarrow> buf \<Rightarrow> bool \<Rightarrow> ram \<Rightarrow> bool" where
  "written d a xs okay d' \<longleftrightarrow>
     ram_ok d' \<and> same_shape d d' \<and>
     (\<forall>p. a \<le> p \<and> p < a + length xs \<longrightarrow>
        ram_byte d' p = xs ! (p - a) \<or> \<not> okay \<and> ram_byte d p = 0 \<and> ram_byte d' p = 0) \<and>
     (\<forall>p. \<not> (a \<le> p \<and> p < a + length xs) \<longrightarrow> ram_byte d' p = ram_byte d p)"

lemma written_append:
  assumes 1: "written d a xs ok1 d1" and 2: "written d1 (a + length xs) ys ok2 d2"
  shows "written d a (xs @ ys) (ok1 \<and> ok2) d2"
proof -
  have "ram_byte d2 p = (xs @ ys) ! (p - a) \<or> \<not> (ok1 \<and> ok2) \<and> ram_byte d p = 0 \<and> ram_byte d2 p = 0"
    if "a \<le> p" "p < a + length (xs @ ys)" for p
  proof (cases "p < a + length xs")
    case True
    then have "ram_byte d2 p = ram_byte d1 p" "(xs @ ys) ! (p - a) = xs ! (p - a)"
      using 2 that by (simp_all add: written_def nth_append less_diff_conv2)
    moreover have "ram_byte d1 p = xs ! (p - a) \<or> \<not> ok1 \<and> ram_byte d p = 0 \<and> ram_byte d1 p = 0"
      using 1 True that(1) by (simp add: written_def)
    ultimately show ?thesis by auto
  next
    case False
    then have "ram_byte d1 p = ram_byte d p" "(xs @ ys) ! (p - a) = ys ! (p - (a + length xs))"
      using 1 that False by (simp_all add: written_def nth_append less_diff_conv2)
    moreover have "ram_byte d2 p = ys ! (p - (a + length xs)) \<or> \<not> ok2 \<and> ram_byte d1 p = 0 \<and> ram_byte d2 p = 0"
      using 2 False that(2) by (simp add: written_def)
    ultimately show ?thesis by auto
  qed
  moreover have "ram_byte d2 p = ram_byte d p" if "\<not> (a \<le> p \<and> p < a + length (xs @ ys))" for p
    using 1 2 that by (auto simp: written_def)
  ultimately show ?thesis
    using 1 2 same_shape_trans by (auto simp: written_def)
qed

lemma write_block_written:
  assumes "zero_search search" and ok: "ram_ok d" and i: "index < length (r_table d)"
    and n: "bo + length xs \<le> mem_block_size d" and "512 dvd bo" "512 dvd length xs"
  shows "\<exists>okay d' w'. write_block search vm d index bo xs w = Some ((okay, d'), w') \<and>
    written d (index * mem_block_size d + bo) xs okay d'"
proof -
  from write_block_patched [OF assms, of vm w] obtain okay d' w' where
    w: "write_block search vm d index bo xs w = Some ((okay, d'), w')"
    and p: "if okay then patched d (index * mem_block_size d + bo) xs d' else d' = d \<and> r_table d ! index = None" by blast
  have "written d (index * mem_block_size d + bo) xs okay d'"
  proof (cases okay)
    case True
    with p show ?thesis by (simp add: written_def patched_def)
  next
    case False
    with p have "d' = d" "r_table d ! index = None" by simp_all
    then have "ram_byte d p = 0" if "index * mem_block_size d + bo \<le> p \<and> p < index * mem_block_size d + bo + length xs" for p
      using that unfolding block_range [OF n] by (simp add: ram_byte_def)
    with False \<open>d' = d\<close> ok show ?thesis by (simp add: written_def)
  qed
  with w show ?thesis by blast
qed

text \<open>Where a loop stands: in block \<open>index\<close> at \<open>bo\<close>, with \<open>n\<close> bytes left.\<close>

definition in_range :: "ram \<Rightarrow> nat \<Rightarrow> nat \<Rightarrow> nat \<Rightarrow> bool" where
  "in_range d index bo n \<longleftrightarrow>
     index * mem_block_size d + bo + n \<le> ram_cap d \<and> 0 < n \<and> bo < mem_block_size d \<and> 512 dvd bo \<and> 512 dvd n \<and>
     n + bo < 2 ^ 31"

lemma in_range_step:
  assumes ok: "ram_ok d" and r: "in_range d index bo n"
  defines "k \<equiv> in_block d bo n"
  shows "index < length (r_table d)" and "0 < k" and "k \<le> n" and "512 dvd k" and "bo + k \<le> mem_block_size d"
    and "k < n \<Longrightarrow> in_range d (index + 1) 0 (n - k)"
    and "k < n \<Longrightarrow> (index + 1) * mem_block_size d + 0 = index * mem_block_size d + bo + k"
proof -
  let ?bs = "mem_block_size d"
  have k: "k = min n (?bs - bo)" using r by (auto simp: k_def in_block_def in_range_def)
  have "512 dvd ?bs" using ok by (rule block_size_facts)
  then show dk: "512 dvd k" unfolding k min_def using r by (simp add: in_range_def dvd_diff_nat)
  have "index * ?bs < length (r_table d) * ?bs" using r unfolding in_range_def ram_cap_def by linarith
  then show "index < length (r_table d)" by simp
  show "0 < k" "k \<le> n" "bo + k \<le> ?bs" using r by (auto simp: k in_range_def)
  show e: "(index + 1) * ?bs + 0 = index * ?bs + bo + k" if "k < n" using that r by (auto simp: k in_range_def)
  show "in_range d (index + 1) 0 (n - k)" if "k < n"
  proof -
    have "n - k < 2 ^ 31" using r unfolding in_range_def by linarith
    with that e [OF that] dk r block_size_facts(1) [OF ok] show ?thesis by (simp add: in_range_def dvd_diff_nat)
  qed
qed

lemma in_range_shape: "same_shape d d' \<Longrightarrow> in_range d' index bo n = in_range d index bo n"
  by (simp add: in_range_def same_shape_simps)

lemma write_loop_written:
  assumes s: "zero_search search"
  shows "ram_ok d \<Longrightarrow> in_range d index bo (length xs) \<Longrightarrow>
    \<exists>okay d' w'. write_loop search vm d offset index bo xs ret w = Some ((ret \<and> okay, d'), w') \<and>
      written d (index * mem_block_size d + bo) xs okay d'"
proof (induction "length xs" arbitrary: d index bo xs ret w rule: less_induct)
  case less
  let ?k = "in_block d bo (length xs)" and ?a = "index * mem_block_size d + bo"
  note st = in_range_step [OF less.prems]
  have lt: "length (take ?k xs) = ?k" using st(3) by simp
  obtain ok1 d1 w1 where b: "write_block search vm d index bo (take ?k xs) w = Some ((ok1, d1), w1)"
    "written d ?a (take ?k xs) ok1 d1"
    using write_block_written [OF s less.prems(1) st(1), of bo "take ?k xs" vm w] st less.prems(2) lt
    by (auto simp: in_range_def)
  have d1: "ram_ok d1" "same_shape d d1" using b(2) by (simp_all add: written_def)
  have n: "\<not> 2 ^ 31 \<le> length xs + bo" using less.prems(2) by (simp add: in_range_def)
  show ?case
  proof (cases "?k < length xs")
    case False
    then have "?k = length xs" using st(3) by simp
    then have "write_loop search vm d offset index bo xs ret w = Some ((ret \<and> ok1, d1), w1)"
      using n st(1) b(1) by (subst write_loop.simps) simp
    with b(2) \<open>?k = length xs\<close> show ?thesis by auto
  next
    case True
    have "length (drop ?k xs) < length xs" using st(2) True by simp
    moreover have "in_range d1 (index + 1) 0 (length (drop ?k xs))"
      using st(6) [OF True] in_range_shape [OF d1(2)] by simp
    ultimately obtain ok2 d2 w2 where
      r: "write_loop search vm d1 offset (index + 1) 0 (drop ?k xs) (ret \<and> ok1) w1 = Some (((ret \<and> ok1) \<and> ok2, d2), w2)"
      "written d1 ((index + 1) * mem_block_size d1 + 0) (drop ?k xs) ok2 d2"
      using less.hyps d1(1) by blast
    have "(index + 1) * mem_block_size d1 + 0 = ?a + length (take ?k xs)"
      using st(7) [OF True] same_shape_simps [OF d1(2)] lt by simp
    then have "written d ?a (take ?k xs @ drop ?k xs) (ok1 \<and> ok2) d2"
      using written_append [OF b(2)] r(2) by metis
    moreover have "write_loop search vm d offset index bo xs ret w = Some ((ret \<and> ok1 \<and> ok2, d2), w2)"
      using n st(1) b(1) True r(1) by (subst write_loop.simps) (simp add: conj_assoc)
    ultimately show ?thesis by auto
  qed
qed

lemma read_block_bytes:
  assumes ok: "ram_ok d" and i: "index < length (r_table d)" and n: "bo + k \<le> mem_block_size d"
  shows "(case r_table d ! index of Some p \<Rightarrow> rd p bo k | None \<Rightarrow> Some (replicate k 0)) =
    Some (map (ram_byte d) [index * mem_block_size d + bo ..< index * mem_block_size d + bo + k])"
proof -
  have at: "ram_byte d (index * mem_block_size d + bo + j) = (case r_table d ! index of None \<Rightarrow> 0 | Some b \<Rightarrow> b ! (bo + j))"
    if "j < k" for j
  proof -
    have "index * mem_block_size d + bo \<le> index * mem_block_size d + bo + j \<and>
        index * mem_block_size d + bo + j < index * mem_block_size d + bo + k" using that by simp
    then have "(index * mem_block_size d + bo + j) div mem_block_size d = index" unfolding block_range [OF n] by simp
    moreover have "(index * mem_block_size d + bo + j) mod mem_block_size d = bo + j"
      using that n by (simp add: add.assoc)
    ultimately show ?thesis using i by (simp add: ram_byte_def split: option.split)
  qed
  show ?thesis
  proof (cases "r_table d ! index")
    case None
    with at show ?thesis by (auto intro!: nth_equalityI)
  next
    case (Some b)
    then have "length b = mem_block_size d" using ok nth_mem [OF i] by (auto simp: ram_ok_def)
    with Some at n show ?thesis by (auto simp: rd_def intro!: nth_equalityI)
  qed
qed

lemma read_loop_bytes:
  "ram_ok d \<Longrightarrow> in_range d index bo n \<Longrightarrow>
   read_loop vm d offset index bo n w =
     Some ((map (ram_byte d) [index * mem_block_size d + bo ..< index * mem_block_size d + bo + n], d), w)"
proof (induction n arbitrary: index bo rule: less_induct)
  case (less n)
  let ?k = "in_block d bo n" and ?a = "index * mem_block_size d + bo"
  note st = in_range_step [OF less.prems]
  have o: "\<not> 2 ^ 31 \<le> n + bo" using less.prems(2) by (simp add: in_range_def)
  note b = read_block_bytes [OF less.prems(1) st(1,5)]
  show ?case
  proof (cases "?k < n")
    case False
    then have e: "n - ?k = 0" "?k = n" using st(3) by simp_all
    have "read_loop vm d offset index bo n w = Some ((map (ram_byte d) [?a ..< ?a + ?k], d), w)"
      using o st(1) b e(1) by (subst read_loop.simps) simp
    then show ?thesis unfolding e(2) .
  next
    case True
    have "n - ?k < n" using st(2) True by simp
    from less.IH [OF this less.prems(1) st(6) [OF True]]
    have r: "read_loop vm d offset (index + 1) 0 (n - ?k) w =
        Some ((map (ram_byte d) [?a + ?k ..< ?a + ?k + (n - ?k)], d), w)" unfolding st(7) [OF True] .
    have u: "[?a ..< ?a + n] = [?a ..< ?a + ?k] @ [?a + ?k ..< ?a + ?k + (n - ?k)]"
    proof -
      have "?a + ?k + (n - ?k) = ?a + n" using st(3) by linarith
      with upt_add_eq_append [of ?a "?a + ?k" "n - ?k"] show ?thesis by (metis le_add1)
    qed
    show ?thesis
      using o st(1) b r True unfolding u by (subst read_loop.simps) (simp add: Let_def)
  qed
qed

lemma trim_loop_written:
  assumes s: "zero_search search"
  shows "ram_ok d \<Longrightarrow> in_range d index bo n \<Longrightarrow>
    \<exists>d'. trim_loop search d index bo n = Some d' \<and> written d (index * mem_block_size d + bo) (replicate n 0) True d'"
proof (induction n arbitrary: d index bo rule: less_induct)
  case (less n)
  let ?k = "in_block d bo n" and ?a = "index * mem_block_size d + bo"
  note st = in_range_step [OF less.prems]
  have n0: "n \<noteq> 0" "512 dvd bo" using less.prems(2) by (simp_all add: in_range_def)
  obtain d1 where b: "trim_block search d index bo ?k = Some d1" "written d ?a (replicate ?k 0) True d1"
  proof (cases "r_table d ! index")
    case None
    have "ram_byte d p = 0" if "?a \<le> p \<and> p < ?a + ?k" for p
      using that None unfolding block_range [OF st(5)] by (simp add: ram_byte_def)
    then have "written d ?a (replicate ?k 0) True d" using less.prems(1) by (auto simp: written_def)
    with None that show thesis by (simp add: trim_block_def)
  next
    case (Some p)
    have "\<exists>d1. trim_block search d index bo ?k = Some (id d1) \<and> patched d ?a (replicate ?k 0) d1"
      using zero_part [OF s less.prems(1) st(1) Some st(5) n0(2) st(4), of id] Some
      by (simp only: trim_block_def option.case id_apply)
    then obtain d1 where "trim_block search d index bo ?k = Some d1" "patched d ?a (replicate ?k 0) d1" by auto
    with that show thesis by (auto simp: written_def patched_def)
  qed
  have d1: "ram_ok d1" "same_shape d d1" using b(2) by (simp_all add: written_def)
  have step: "trim_loop search d index bo n = trim_loop search d1 (index + 1) 0 (n - ?k)"
    using n0 st(1) b(1) by (subst trim_loop.simps) simp
  show ?case
  proof (cases "?k < n")
    case False
    then have "?k = n" using st(3) by simp
    then have "trim_loop search d index bo n = Some d1" using step by (simp add: trim_loop.simps [of search d1])
    with b(2) \<open>?k = n\<close> show ?thesis by auto
  next
    case True
    have "in_range d1 (index + 1) 0 (n - ?k)" using st(6) [OF True] in_range_shape [OF d1(2)] by simp
    with less.IH [of "n - ?k" d1 "index + 1" 0] d1(1) st(2) True obtain d2 where
      r: "trim_loop search d1 (index + 1) 0 (n - ?k) = Some d2"
      "written d1 ((index + 1) * mem_block_size d1 + 0) (replicate (n - ?k) 0) True d2" by auto
    have "(index + 1) * mem_block_size d1 + 0 = ?a + length (replicate ?k (0 :: u8))"
      using st(7) [OF True] same_shape_simps [OF d1(2)] by simp
    then have "written d ?a (replicate ?k 0 @ replicate (n - ?k) 0) (True \<and> True) d2"
      using written_append [OF b(2)] r(2) by metis
    moreover have "replicate ?k (0 :: u8) @ replicate (n - ?k) 0 = replicate n 0"
      using st(3) by (simp flip: replicate_add)
    ultimately show ?thesis using step r(1) by simp
  qed
qed

text \<open>A request of whole sectors inside the disk.\<close>

definition request_ok :: "ram \<Rightarrow> nat \<Rightarrow> nat \<Rightarrow> bool" where
  "request_ok d offset n \<longleftrightarrow> 0 < n \<and> n \<le> 2 ^ 30 \<and> 512 dvd n \<and> 512 dvd offset \<and> offset + n \<le> ram_cap d"

lemma request_in_range:
  assumes ok: "ram_ok d" and r: "request_ok d offset n"
  shows "in_range d (drop_bit (r_shift d) offset) (offset AND (mem_block_size d - 1)) n"
    and "drop_bit (r_shift d) offset * mem_block_size d + (offset AND (mem_block_size d - 1)) = offset"
proof -
  let ?bs = "mem_block_size d"
  have q: "drop_bit (r_shift d) offset = offset div ?bs" by (simp add: drop_bit_eq_div mem_block_size_def)
  have m: "(offset AND (?bs - 1)) = offset mod ?bs"
    unfolding mem_block_size_def by (simp only: mask_eq_exp_minus_1 [symmetric] take_bit_eq_mask [symmetric] take_bit_eq_mod)
  show e: "drop_bit (r_shift d) offset * ?bs + (offset AND (?bs - 1)) = offset" unfolding q m by simp
  have "512 dvd ?bs" "0 < ?bs" "?bs \<le> 2 ^ 30" using block_size_facts [OF ok] by simp_all
  moreover from this r have "512 dvd offset mod ?bs" by (simp add: request_ok_def dvd_mod)
  moreover from calculation have "offset mod ?bs < 2 ^ 30" by (metis less_le_trans mod_less_divisor)
  ultimately show "in_range d (drop_bit (r_shift d) offset) (offset AND (?bs - 1)) n"
    using r e unfolding in_range_def q m request_ok_def by auto
qed

lemma ram_write_written:
  assumes "zero_search search" and ok: "ram_ok d" and r: "request_ok d offset (length buf)"
  shows "\<exists>okay d' w'. ram_write search vm d buf offset w = Some ((okay, d'), w') \<and> written d offset buf okay d'"
  using write_loop_written [OF assms(1) ok request_in_range(1) [OF ok r], of vm offset True w]
    request_in_range(2) [OF ok r] by (simp add: ram_write_def)

lemma ram_read_bytes:
  assumes ok: "ram_ok d" and r: "request_ok d offset n"
  shows "ram_read vm d n offset w = Some ((map (ram_byte d) [offset ..< offset + n], d), w)"
  using read_loop_bytes [OF ok request_in_range(1) [OF ok r], of vm offset w]
    request_in_range(2) [OF ok r] by (simp add: ram_read_def)

lemma request_shape: "same_shape d d' \<Longrightarrow> request_ok d' offset n = request_ok d offset n"
  by (simp add: request_ok_def same_shape_simps)

section \<open>The disk as a device of sectors\<close>

text \<open>The virtual methods of \<^verbatim>\<open>CVirtualMemoryIO\<close>.\<close>

definition ram_io :: "'w vm \<Rightarrow> (ram \<times> 'w) abs_io" where
  "ram_io vm = \<lparr>
     io_init = \<lambda>(d, w). map_option (\<lambda>s. (ERR_OK, s)) (ram_init vm d w),
     io_size = \<lambda>(d, w). of_nat (r_size d),
     io_format = \<lambda>_. True,
     io_read = \<lambda>n offset (d, w). map_option (\<lambda>((bs, d), w). ((True, bs), (d, w))) (ram_read vm d n offset w),
     io_write = \<lambda>bs offset (d, w). map_option (\<lambda>((ret, d), w). (ret, (d, w))) (ram_write data_search_std vm d bs offset w),
     io_trim = \<lambda>ranges (d, w). map_option (\<lambda>d. (d, w)) (ram_trim data_search_std d ranges)\<rparr>"

lemma ram_io_write:
  assumes "io_wr (ram_io vm) s bs offset = Some s'" and "ram_ok (fst s)" and "request_ok (fst s) offset (length bs)"
  shows "written (fst s) offset bs True (fst s')"
proof -
  obtain okay d' w' where w: "ram_write data_search_std vm (fst s) bs offset (snd s) = Some ((okay, d'), w')"
    "written (fst s) offset bs okay d'"
    using ram_write_written [OF std.zero_search_axioms assms(2,3), of vm "snd s"] by blast
  with assms(1) have "okay" "d' = fst s'"
    by (auto simp: io_wr_def ram_io_def split: prod.splits bool.splits)
  with w(2) show ?thesis by simp
qed

lemma ram_io_read:
  assumes "ram_ok (fst s)" and "request_ok (fst s) offset n"
  shows "io_rd (ram_io vm) s offset n = Some (map (ram_byte (fst s)) [offset ..< offset + n])"
  using ram_read_bytes [OF assms, of vm "snd s"] by (cases s) (simp add: io_rd_def ram_io_def)

interpretation ram_dev: sector_device "io_rd (ram_io vm)" "io_wr (ram_io vm)" "\<lambda>s. ram_ok (fst s)" "\<lambda>s. ram_cap (fst s)"
  for vm :: "'w vm"
proof
  fix s s' :: "ram \<times> 'w" and offset m n p q :: nat and bs :: buf
  have req: "sector_range (ram_cap d) offset n \<longleftrightarrow> request_ok d offset n" for d offset n
    by (auto simp: sector_range_def request_ok_def)
  note read = ram_io_read [folded req]
  show "ram_ok (fst s) \<Longrightarrow> sector_range (ram_cap (fst s)) offset n \<Longrightarrow> \<exists>bs. io_rd (ram_io vm) s offset n = Some bs \<and> length bs = n"
    by (simp add: read)
  show "io_rd (ram_io vm) s offset (m + n) = do { a \<leftarrow> io_rd (ram_io vm) s offset m; b \<leftarrow> io_rd (ram_io vm) s (offset + m) n; Some (a @ b) }"
    if "ram_ok (fst s)" "sector_range (ram_cap (fst s)) offset m" "sector_range (ram_cap (fst s)) (offset + m) n"
      "sector_range (ram_cap (fst s)) offset (m + n)"
  proof -
    have "[offset ..< offset + (m + n)] = [offset ..< offset + m] @ [offset + m ..< offset + m + n]"
      by (metis upt_add_eq_append add.assoc le_add1)
    then show ?thesis
      unfolding read [OF that(1,2)] read [OF that(1,3)] read [OF that(1,4)] by simp
  qed
  assume ok: "ram_ok (fst s)" and r: "sector_range (ram_cap (fst s)) offset (length bs)" and w: "io_wr (ram_io vm) s bs offset = Some s'"
  then have wr: "written (fst s) offset bs True (fst s')" by (intro ram_io_write) (simp_all add: req)
  then show ok': "ram_ok (fst s') \<and> ram_cap (fst s') = ram_cap (fst s)" by (simp add: written_def same_shape_simps)
  then show "io_rd (ram_io vm) s' offset (length bs) = Some bs"
    using wr r by (auto simp: read written_def intro!: nth_equalityI)
  show "io_rd (ram_io vm) s' p q = io_rd (ram_io vm) s p q"
    if "sector_range (ram_cap (fst s)) p q" "p + q \<le> offset \<or> offset + length bs \<le> p"
    using that ok' ok wr by (auto simp: read written_def)
qed

section \<open>The invariant of the table\<close>

text \<open>
  The steps of a disk, with any requests: none is restricted to whole sectors or to the disk.
\<close>

inductive ram_reach ::
  "(buf \<Rightarrow> nat \<Rightarrow> nat \<Rightarrow> (bool \<times> buf) option) \<Rightarrow> 'w vm \<Rightarrow> ram \<Rightarrow> 'w \<Rightarrow> bool" for search vm where
  reach_init: "ram_init vm (CVirtualMemoryIO uSize BlockSize) w = Some (d, w') \<Longrightarrow> ram_reach search vm d w'"
| reach_write: "ram_reach search vm d w \<Longrightarrow> ram_write search vm d buf offset w = Some ((okay, d'), w') \<Longrightarrow> ram_reach search vm d' w'"
| reach_read: "ram_reach search vm d w \<Longrightarrow> ram_read vm d n offset w = Some ((bytes, d'), w') \<Longrightarrow> ram_reach search vm d' w'"
| reach_trim: "ram_reach search vm d w \<Longrightarrow> ram_trim search d ranges = Some d' \<Longrightarrow> ram_reach search vm d' w"
| reach_env: "ram_reach search vm d w \<Longrightarrow> ram_reach search vm d w'"

text \<open>All that is asked of the search here is that it does not change the size of the memory.\<close>

definition keeps_length :: "(buf \<Rightarrow> nat \<Rightarrow> nat \<Rightarrow> (bool \<times> buf) option) \<Rightarrow> bool" where
  "keeps_length search \<longleftrightarrow> (\<forall>b p n r b'. search b p n = Some (r, b') \<longrightarrow> length b' = length b)"

lemma keeps_length_std: "keeps_length data_search_std"
  by (auto simp: keeps_length_def data_search_std_def Let_def wr_u32_def split: if_split_asm elim!: bind_SomeE dest!: length_wr)

lemma keeps_length_vec: "keeps_length (data_search_vec k)"
  by (auto simp: keeps_length_def data_search_vec_def Let_def split: if_split_asm elim!: bind_SomeE dest!: length_wr)

definition ram_inv :: "ram \<Rightarrow> bool" where
  "ram_inv d \<longleftrightarrow> ram_ok d \<and> length (r_table d) = table_size (r_size d) d"

lemma ram_inv_shape: "ram_inv d \<Longrightarrow> ram_ok d' \<Longrightarrow> same_shape d d' \<Longrightarrow> ram_inv d'"
  by (simp add: ram_inv_def same_shape_def table_size_def mem_block_size_def)

lemma ram_inv_update:
  assumes "ram_inv d" and "index < length (r_table d)" and "\<And>b. v = Some b \<Longrightarrow> length b = mem_block_size d"
    and "n = r_blocks d - of_bool (r_table d ! index \<noteq> None) + of_bool (v \<noteq> None)"
  shows "ram_inv (d\<lparr>r_table := (r_table d)[index := v], r_blocks := n\<rparr>)"
  using assms(1) ram_ok_update [OF _ assms(2-4)] same_shape_update
  by (intro ram_inv_shape [OF assms(1)]) (auto simp: ram_inv_def)

lemma ram_inv_block:
  assumes "ram_inv d" and i: "index < length (r_table d)" and "r_table d ! index = Some b" and "length p = length b"
  shows "ram_inv (d\<lparr>r_table := (r_table d)[index := Some p]\<rparr>)"
proof -
  have "length b = mem_block_size d" using assms nth_mem [OF i] by (auto simp: ram_inv_def ram_ok_def)
  then have "ram_inv (d\<lparr>r_table := (r_table d)[index := Some p], r_blocks := r_blocks d\<rparr>)"
    using assms by (intro ram_inv_update) auto
  then show ?thesis by simp
qed

lemma ram_inv_release:
  "ram_inv d \<Longrightarrow> index < length (r_table d) \<Longrightarrow> r_table d ! index = Some b \<Longrightarrow>
   ram_inv (d\<lparr>r_table := (r_table d)[index := None], r_blocks := r_blocks d - 1\<rparr>)"
  by (intro ram_inv_update) auto

lemma zero_part_inv:
  assumes k: "keeps_length search" and inv: "ram_inv d" and i: "index < length (r_table d)" "r_table d ! index = Some b"
    and r: "do {
      (before, p) \<leftarrow> search b 0 bo;
      (after, p) \<leftarrow> (if before then Some (False, p) else search p (bo + n) (mem_block_size d - bo - n));
      if before \<or> after then do {
        p \<leftarrow> wr p bo (replicate n 0);
        Some (f (d\<lparr>r_table := (r_table d)[index := Some p]\<rparr>)) }
      else Some (f (d\<lparr>r_table := (r_table d)[index := None], r_blocks := r_blocks d - 1\<rparr>)) } = Some x"
  shows "\<exists>d'. x = f d' \<and> ram_inv d'"
proof -
  have l: "search b p n = Some (q, b') \<Longrightarrow> length b' = length b" for b p n q b' using k by (auto simp: keeps_length_def)
  from r obtain before p1 after p2 where
    s: "search b 0 bo = Some (before, p1)"
      "(if before then Some (False, p1) else search p1 (bo + n) (mem_block_size d - bo - n)) = Some (after, p2)"
    and rest: "(if before \<or> after then do {
        p \<leftarrow> wr p2 bo (replicate n 0);
        Some (f (d\<lparr>r_table := (r_table d)[index := Some p]\<rparr>)) }
      else Some (f (d\<lparr>r_table := (r_table d)[index := None], r_blocks := r_blocks d - 1\<rparr>))) = Some x"
    by (auto elim!: bind_SomeE)
  have l2: "length p2 = length b" using s l by (auto split: if_split_asm)
  show ?thesis
  proof (cases "before \<or> after")
    case True
    with rest obtain p where "wr p2 bo (replicate n 0) = Some p" "x = f (d\<lparr>r_table := (r_table d)[index := Some p]\<rparr>)"
      by (auto elim!: bind_SomeE)
    with l2 ram_inv_block [OF inv i] show ?thesis by (auto dest!: length_wr)
  next
    case False
    with rest ram_inv_release [OF inv i] show ?thesis by auto
  qed
qed

lemma write_block_inv:
  assumes k: "keeps_length search" and inv: "ram_inv d"
    and r: "write_block search vm d index bo bytes w = Some ((okay, d'), w')"
  shows "ram_inv d'"
proof -
  from r obtain has_data bytes1 where s: "search bytes 0 (length bytes) = Some (has_data, bytes1)"
    and i: "index < length (r_table d)"
    by (auto simp: write_block_def Let_def split: if_split_asm elim!: bind_SomeE)
  show ?thesis
  proof (cases "r_table d ! index")
    case None
    with r s i show ?thesis
      by (auto simp: write_block_def split: if_split_asm prod.split_asm bool.split_asm elim!: bind_SomeE
          intro!: ram_inv_update inv dest!: length_wr)
        (use inv in simp_all)
  next
    case (Some b)
    show ?thesis
    proof (cases has_data)
      case True
      with r s i Some obtain p where "wr b bo bytes1 = Some p" "d' = d\<lparr>r_table := (r_table d)[index := Some p]\<rparr>"
        by (auto simp: write_block_def elim!: bind_SomeE)
      with ram_inv_block [OF inv i Some] show ?thesis by (auto dest!: length_wr)
    next
      case False
      with r s i Some show ?thesis
        using zero_part_inv [OF k inv i Some, of bo "length bytes" "\<lambda>d. ((True, d), w)"]
        by (auto simp: write_block_def Let_def)
    qed
  qed
qed

lemma Expand_inv:
  assumes inv: "ram_inv d" and r: "Expand vm d n w = Some (d', w')"
  shows "ram_inv d'"
proof (cases "n \<le> r_size d")
  case True
  with r inv show ?thesis by (simp add: Expand_def)
next
  case False
  let ?m = "table_size n (d\<lparr>r_size := n\<rparr>)"
  have bs: "mem_block_size (d\<lparr>r_size := n\<rparr>) = mem_block_size d" by (simp add: mem_block_size_def)
  from r False have le: "length (r_table d) \<le> ?m"
    and d': "d' = d\<lparr>r_size := n, r_table := r_table d @ replicate (?m - length (r_table d)) None\<rparr>"
    by (auto simp: Expand_def Let_def split: if_split_asm prod.split_asm bool.split_asm)
  have ts: "table_size n d' = ?m" unfolding d' by (simp add: table_size_def mem_block_size_def)
  have "allocated (r_table d @ replicate k None) = allocated (r_table d)" for k by (simp add: allocated_def)
  moreover have "mem_block_size d' = mem_block_size d" unfolding d' by (simp add: mem_block_size_def)
  ultimately have "ram_ok d'" using inv unfolding d' by (auto simp: ram_inv_def ram_ok_def)
  moreover have "length (r_table d') = table_size (r_size d') d'" using ts le d' by simp
  ultimately show ?thesis by (simp add: ram_inv_def)
qed

lemma write_loop_inv:
  assumes k: "keeps_length search"
  shows "write_loop search vm d offset index bo xs ret w = Some ((okay, d'), w') \<Longrightarrow> ram_inv d \<Longrightarrow> ram_inv d'"
proof (induction "length xs + bo" arbitrary: d index bo xs ret w rule: less_induct)
  case less
  let ?e = "if length (r_table d) \<le> index then Expand vm d (offset + length xs) w else Some (d, w)"
  from less.prems(1) obtain d1 w1 ok2 d2 w2 where
    e: "?e = Some (d1, w1)" and
    b: "write_block search vm d1 index bo (take (in_block d1 bo (length xs)) xs) w1 = Some ((ok2, d2), w2)" and
    rest: "(if drop (in_block d1 bo (length xs)) xs = [] then Some ((ret \<and> ok2, d2), w2)
      else write_loop search vm d2 offset (index + 1) 0 (drop (in_block d1 bo (length xs)) xs) (ret \<and> ok2) w2) = Some ((okay, d'), w')"
    by (subst (asm) write_loop.simps) (auto simp: Let_def split: if_split_asm elim!: bind_SomeE)
  have "ram_inv d1" using e less.prems(2) by (auto split: if_split_asm dest: Expand_inv)
  then have d2: "ram_inv d2" using write_block_inv [OF k _ b] by blast
  show ?case
  proof (cases "drop (in_block d1 bo (length xs)) xs = []")
    case True
    with rest d2 show ?thesis by simp
  next
    case False
    then have "length (drop (in_block d1 bo (length xs)) xs) + 0 < length xs + bo"
      using in_block_measure [of "length xs" d1 bo] by (cases "xs = []") auto
    from less.hyps [OF this] rest False d2 show ?thesis by simp
  qed
qed

lemma read_loop_inv:
  "read_loop vm d offset index bo n w = Some ((bytes, d'), w') \<Longrightarrow> ram_inv d \<Longrightarrow> ram_inv d'"
proof (induction "n + bo" arbitrary: d index bo n bytes w rule: less_induct)
  case less
  let ?e = "if length (r_table d) \<le> index then Expand vm d (offset + n) w else Some (d, w)"
  from less.prems(1) obtain d1 w1 bytes1 where
    e: "?e = Some (d1, w1)" and
    rest: "(if n - in_block d1 bo n = 0 then Some ((bytes1, d1), w1)
      else do {
        ((rest, d), w) \<leftarrow> read_loop vm d1 offset (index + 1) 0 (n - in_block d1 bo n) w1;
        Some ((bytes1 @ rest, d), w) }) = Some ((bytes, d'), w')"
    by (subst (asm) read_loop.simps) (auto simp: Let_def split: if_split_asm elim!: bind_SomeE)
  have d1: "ram_inv d1" using e less.prems(2) by (auto split: if_split_asm dest: Expand_inv)
  show ?case
  proof (cases "n - in_block d1 bo n = 0")
    case True
    with rest d1 show ?thesis by simp
  next
    case False
    then have "n - in_block d1 bo n + 0 < n + bo" using in_block_measure [of n d1 bo] by auto
    from less.hyps [OF this _ d1] rest False show ?thesis by (auto elim!: bind_SomeE)
  qed
qed

lemma trim_loop_inv:
  assumes k: "keeps_length search"
  shows "trim_loop search d index bo n = Some d' \<Longrightarrow> ram_inv d \<Longrightarrow> ram_inv d'"
proof (induction "n + bo" arbitrary: d index bo n rule: less_induct)
  case less
  show ?case
  proof (cases "n = 0 \<or> length (r_table d) \<le> index")
    case True
    with less.prems show ?thesis by (subst (asm) trim_loop.simps) simp
  next
    case False
    with less.prems(1) obtain d1 where
      b: "trim_block search d index bo (in_block d bo n) = Some d1" and
      rest: "trim_loop search d1 (index + 1) 0 (n - in_block d bo n) = Some d'"
      by (subst (asm) trim_loop.simps) (auto simp: Let_def elim!: bind_SomeE)
    have "ram_inv d1"
    proof (cases "r_table d ! index")
      case None
      with b less.prems(2) show ?thesis by (simp add: trim_block_def)
    next
      case (Some p)
      with b False show ?thesis
        using zero_part_inv [OF k less.prems(2) _ Some, of bo "in_block d bo n" "\<lambda>d. d"] by (auto simp: trim_block_def)
    qed
    moreover have "n - in_block d bo n + 0 < n + bo" using in_block_measure [of n d bo] False by auto
    ultimately show ?thesis using less.hyps rest by blast
  qed
qed

lemma ram_trim_inv:
  "keeps_length search \<Longrightarrow> ram_trim search d ranges = Some d' \<Longrightarrow> ram_inv d \<Longrightarrow> ram_inv d'"
  by (induction search d ranges rule: ram_trim.induct) (auto elim!: bind_SomeE dest: trim_loop_inv)

lemma ram_init_inv:
  assumes "ram_init vm (CVirtualMemoryIO uSize BlockSize) w = Some (d, w')"
  shows "ram_inv d"
proof -
  let ?c = "CVirtualMemoryIO uSize BlockSize"
  have d: "d = ?c\<lparr>r_table := replicate (table_size (r_size ?c) ?c) None\<rparr>"
    using assms by (simp add: ram_init_def Let_def split: prod.split_asm bool.split_asm)
  have "12 \<le> r_shift ?c" "r_shift ?c \<le> 30" "r_blocks ?c = 0" by (auto simp: CVirtualMemoryIO_def Let_def)
  then show ?thesis unfolding d ram_inv_def ram_ok_def by (auto simp: allocated_def table_size_def)
qed

lemma ram_reach_inv:
  assumes k: "keeps_length search" and r: "ram_reach search vm d w"
  shows "ram_inv d"
  using r
proof induction
  case (reach_write d w buf offset okay d' w')
  then show ?case using write_loop_inv [OF k] by (simp add: ram_write_def)
next
  case (reach_trim d w ranges d')
  then show ?case using ram_trim_inv [OF k] by blast
qed (auto dest: ram_init_inv read_loop_inv simp: ram_read_def)

text \<open>
  C27: the RAM disk is the sequence of its bytes. A request of whole sectors inside the disk never
  leaves a block or the table; a read returns the bytes and changes nothing; a write replaces the
  bytes of the request and no others, and when it reports failure each byte it did not replace was
  zero and is zero; trimming a range makes it zero. The block table, and which blocks it keeps, is
  not visible, with any of the searches for a byte that is not zero.
\<close>

theorem ram_disk_bytes:
  assumes "zero_search search" and "ram_ok d" and "request_ok d offset (length buf)"
  shows "ram_read vm d (length buf) offset w = Some ((map (ram_byte d) [offset ..< offset + length buf], d), w) \<and>
    (\<exists>okay d' w'. ram_write search vm d buf offset w = Some ((okay, d'), w') \<and>
       ram_ok d' \<and> ram_cap d' = ram_cap d \<and>
       (\<forall>p. offset \<le> p \<and> p < offset + length buf \<longrightarrow>
          ram_byte d' p = buf ! (p - offset) \<or> \<not> okay \<and> ram_byte d p = 0 \<and> ram_byte d' p = 0) \<and>
       (\<forall>p. \<not> (offset \<le> p \<and> p < offset + length buf) \<longrightarrow> ram_byte d' p = ram_byte d p)) \<and>
    (\<exists>d'. ram_trim search d [(offset, length buf)] = Some d' \<and> ram_ok d' \<and> ram_cap d' = ram_cap d \<and>
       (\<forall>p. ram_byte d' p = (if offset \<le> p \<and> p < offset + length buf then 0 else ram_byte d p)))"
proof -
  note w = ram_write_written [OF assms, of vm w]
  obtain d' where t: "trim_loop search d (drop_bit (r_shift d) offset) (offset AND (mem_block_size d - 1)) (length buf) = Some d'"
    "written d offset (replicate (length buf) 0) True d'"
    using trim_loop_written [OF assms(1,2) request_in_range(1) [OF assms(2,3)]] request_in_range(2) [OF assms(2,3)] by auto
  have "ram_byte d' p = (if offset \<le> p \<and> p < offset + length buf then 0 else ram_byte d p)" for p
  proof (cases "offset \<le> p \<and> p < offset + length buf")
    case True
    then have "p - offset < length buf" by linarith
    with t(2) True show ?thesis by (auto simp: written_def)
  qed (use t(2) in \<open>auto simp: written_def\<close>)
  with t have "\<exists>d'. ram_trim search d [(offset, length buf)] = Some d' \<and> ram_ok d' \<and> ram_cap d' = ram_cap d \<and>
       (\<forall>p. ram_byte d' p = (if offset \<le> p \<and> p < offset + length buf then 0 else ram_byte d p))"
    by (auto simp: written_def same_shape_simps)
  with w ram_read_bytes [OF assms(2,3)] show ?thesis by (auto simp: written_def same_shape_simps)
qed

text \<open>A disk of two blocks of 4096 bytes, the first of which holds a byte that is not zero.\<close>

definition ram_ex :: ram where
  "ram_ex = \<lparr>r_size = 8192, r_shift = 12, r_table = [Some (replicate 100 0 @ [7] @ replicate 3995 0), None], r_blocks = 1\<rparr>"

definition vm_ex :: "unit vm" where
  "vm_ex = \<lparr>vm_avail = \<lambda>w. (MINIMAL_MEM, w), vm_alloc = \<lambda>n w. (True, w)\<rparr>"

lemma ram_ex_ok: "ram_ok ram_ex" "ram_cap ram_ex = 8192" "mem_block_size ram_ex = 4096"
  by (simp_all add: ram_ok_def ram_ex_def ram_cap_def mem_block_size_def allocated_def)

lemma ram_ex_bytes: "ram_byte ram_ex 100 = 7" "ram_byte ram_ex 2000 = 0"
  unfolding ram_byte_def ram_ex_ok(3) by (simp_all add: ram_ex_def nth_append)

theorem ram_disk_bytes_witness:
  "\<exists>okay d' w'. ram_write data_search_std vm_ex ram_ex (replicate 1024 9) 0 () = Some ((okay, d'), w') \<and>
     ram_byte d' 100 = 9 \<and> ram_byte d' 2000 = 0"
proof -
  have "request_ok ram_ex 0 (length (replicate 1024 (9 :: u8)))" by (simp add: request_ok_def ram_ex_ok)
  from ram_disk_bytes [OF std.zero_search_axioms ram_ex_ok(1) this, of vm_ex "()"]
  obtain okay d' w' where w: "ram_write data_search_std vm_ex ram_ex (replicate 1024 9) 0 () = Some ((okay, d'), w')"
    and i: "\<forall>p. 0 \<le> p \<and> p < 0 + length (replicate 1024 (9 :: u8)) \<longrightarrow>
      ram_byte d' p = replicate 1024 9 ! (p - 0) \<or> \<not> okay \<and> ram_byte ram_ex p = 0 \<and> ram_byte d' p = 0"
    and o: "\<forall>p. \<not> (0 \<le> p \<and> p < 0 + length (replicate 1024 (9 :: u8))) \<longrightarrow> ram_byte d' p = ram_byte ram_ex p" by blast
  from i [rule_format, of 100] o [rule_format, of 2000] w ram_ex_bytes show ?thesis by auto
qed



lemma write_loop_beyond:
  assumes s: "zero_search search"
  shows "ram_ok d \<Longrightarrow> index \<le> length (r_table d) \<Longrightarrow> bo < mem_block_size d \<Longrightarrow> (index = length (r_table d) \<Longrightarrow> bo = 0) \<Longrightarrow>
    512 dvd bo \<Longrightarrow> 512 dvd length xs \<Longrightarrow> ram_cap d < index * mem_block_size d + bo + length xs \<Longrightarrow>
    offset + (index * mem_block_size d + bo + length xs - ram_cap d) \<le> r_size d \<Longrightarrow>
    write_loop search vm d offset index bo xs ret w = None"
proof (induction "length xs" arbitrary: d index bo xs ret w rule: less_induct)
  case less
  let ?bs = "mem_block_size d" and ?k = "in_block d bo (length xs)"
  show ?case
  proof (cases "index = length (r_table d)")
    case True
    then have "bo = 0" "offset + length xs \<le> r_size d" using less.prems by (auto simp: ram_cap_def)
    with True show ?thesis
      by (subst write_loop.simps) (auto simp: Expand_def write_block_def Let_def split: option.split)
  next
    case False
    then have i: "index < length (r_table d)" using less.prems(2) by simp
    have "index * ?bs + ?bs \<le> ram_cap d" using i by (metis Suc_leI add.commute mult_Suc mult_le_mono1 ram_cap_def)
    then have k: "?k = ?bs - bo" "?k < length xs" "0 < ?k" using less.prems(3,7) by (auto simp: in_block_def)
    have "512 dvd ?bs" using less.prems(1) by (rule block_size_facts)
    then have dk: "512 dvd ?k" using less.prems(5) k(1) by (simp add: dvd_diff_nat)
    have lt: "length (take ?k xs) = ?k" using k(2) by simp
    have e: "(index + 1) * ?bs = index * ?bs + bo + ?k" using k(1) less.prems(3) by simp
    obtain ok1 d1 w1 where b: "write_block search vm d index bo (take ?k xs) w = Some ((ok1, d1), w1)"
      "written d (index * ?bs + bo) (take ?k xs) ok1 d1"
      using write_block_written [OF s less.prems(1) i, of bo "take ?k xs" vm w] lt dk k less.prems by auto
    have d1: "ram_ok d1" "same_shape d d1" using b(2) by (simp_all add: written_def)
    have sh: "length (r_table d1) = length (r_table d)" "r_size d1 = r_size d" "mem_block_size d1 = ?bs" "ram_cap d1 = ram_cap d"
      using d1(2) same_shape_simps [OF d1(2)] by (simp_all add: same_shape_def)
    have "write_loop search vm d1 offset (index + 1) 0 (drop ?k xs) (ret \<and> ok1) w1 = None"
    proof (rule less.hyps [OF _ d1(1)])
      show "length (drop ?k xs) < length xs" using k by simp
      show "ram_cap d1 < (index + 1) * mem_block_size d1 + 0 + length (drop ?k xs)"
        unfolding sh e using less.prems(7) k(2) by simp
      show "offset + ((index + 1) * mem_block_size d1 + 0 + length (drop ?k xs) - ram_cap d1) \<le> r_size d1"
        unfolding sh e using less.prems(8) k(2) by simp
    qed (use i sh less.prems(6) dk block_size_facts(1) [OF d1(1)] in \<open>auto simp: dvd_diff_nat\<close>)
    with b(1) i k show ?thesis by (subst write_loop.simps) (simp add: Let_def)
  qed
qed

text \<open>
  A request that runs past the end of the disk. The table is extended when the loop reaches a
  block behind it, by the position of the request plus what is \<^emph>\<open>left\<close> of its size, although the
  position does not advance. A request of whole sectors that starts inside the disk and ends behind
  it, by no more than there is of the disk before its start, therefore leaves the table where it is and
  accesses the block behind the table.
\<close>

theorem ram_write_beyond:
  assumes "zero_search search" and ok: "ram_ok d" and "512 dvd offset" and "512 dvd length buf"
    and "offset < ram_cap d" and "ram_cap d < offset + length buf"
    and "offset + (offset + length buf - ram_cap d) \<le> r_size d"
  shows "ram_write search vm d buf offset w = None"
proof -
  let ?bs = "mem_block_size d"
  have q: "drop_bit (r_shift d) offset = offset div ?bs" by (simp add: drop_bit_eq_div mem_block_size_def)
  have m: "(offset AND (?bs - 1)) = offset mod ?bs"
    unfolding mem_block_size_def by (simp only: mask_eq_exp_minus_1 [symmetric] take_bit_eq_mask [symmetric] take_bit_eq_mod)
  have bs: "0 < ?bs" "512 dvd ?bs" using block_size_facts [OF ok] by simp_all
  have "offset div ?bs < length (r_table d)" using assms(5) bs(1) by (simp add: ram_cap_def div_less_iff_less_mult)
  moreover have "offset div ?bs * ?bs + offset mod ?bs = offset" by simp
  ultimately show ?thesis
    unfolding ram_write_def q m using assms bs
    by (intro write_loop_beyond) (simp_all add: dvd_mod)
qed

theorem ram_write_beyond_witness:
  "ram_write data_search_std vm_ex ram_ex (replicate 8192 0) 4096 () = None"
  using ram_ex_ok by (intro ram_write_beyond [OF std.zero_search_axioms]) (simp_all add: ram_ex_def)

end
