(* ===== verification/Crypt_Device.thy ===== *)
theory Crypt_Device
  imports Header_Io Ram_Disk
begin

unbundle bit_operations_syntax

text \<open>
  The encrypted view of an image, \<^verbatim>\<open>CCryptoIO\<close> of \<^verbatim>\<open>ImBox/CryptoIO.cpp\<close> once the header is open: the
  sectors behind the header, encrypted with the key of the volume. It is a \<^verbatim>\<open>CAbstractIO\<close> over
  another one.
\<close>

section \<open>The operations\<close>

definition CCryptoIO_GetDiskSize :: "u64 \<Rightarrow> int \<Rightarrow> u64" where
  "CCryptoIO_GetDiskSize uSize hdr_len = (if uSize < u64_of_int hdr_len then 0 else uSize - u64_of_int hdr_len)"

text \<open>The buffer of the caller is encrypted in place and stays so.\<close>

definition CCryptoIO_DiskWrite ::
  "aes_core \<Rightarrow> 'w abs_io \<Rightarrow> xts_key \<Rightarrow> nat \<Rightarrow> buf \<Rightarrow> nat \<Rightarrow> 'w \<Rightarrow> ((bool \<times> buf) \<times> 'w) option" where
  "CCryptoIO_DiskWrite core io benc_k hdr_len buf offset w = do {
     buf \<leftarrow> xts_encrypt core buf (of_nat (length buf)) (of_nat offset) benc_k;
     (ret, w) \<leftarrow> io_write io buf (offset + hdr_len) w;
     Some ((ret, buf), w) }"

definition CCryptoIO_DiskRead ::
  "aes_core \<Rightarrow> 'w abs_io \<Rightarrow> xts_key \<Rightarrow> nat \<Rightarrow> nat \<Rightarrow> nat \<Rightarrow> 'w \<Rightarrow> ((bool \<times> buf) \<times> 'w) option" where
  "CCryptoIO_DiskRead core io benc_k hdr_len n offset w = do {
     ((ret, buf), w) \<leftarrow> io_read io n (offset + hdr_len) w;
     if ret then do {
       buf \<leftarrow> xts_decrypt core buf (of_nat n) (of_nat offset) benc_k;
       Some ((ret, buf), w) }
     else Some ((ret, buf), w) }"

definition CCryptoIO_TrimProcess :: "'w abs_io \<Rightarrow> nat \<Rightarrow> (nat \<times> nat) list \<Rightarrow> 'w \<Rightarrow> 'w option" where
  "CCryptoIO_TrimProcess io hdr_len ranges w =
     io_trim io (map (\<lambda>(StartingOffset, LengthInBytes). (StartingOffset + hdr_len, LengthInBytes)) ranges) w"

text \<open>The virtual methods of an opened \<^verbatim>\<open>CCryptoIO\<close>, for its key and header length.\<close>

definition crypto_io :: "aes_core \<Rightarrow> 'w abs_io \<Rightarrow> xts_key \<Rightarrow> nat \<Rightarrow> bool \<Rightarrow> 'w abs_io" where
  "crypto_io core io benc_k hdr_len AllowFormat = \<lparr>
     io_init = io_init io,
     io_size = \<lambda>w. CCryptoIO_GetDiskSize (io_size io w) (int hdr_len),
     io_format = \<lambda>_. AllowFormat,
     io_read = CCryptoIO_DiskRead core io benc_k hdr_len,
     io_write = \<lambda>bs offset w. map_option (\<lambda>((ret, _), w). (ret, w)) (CCryptoIO_DiskWrite core io benc_k hdr_len bs offset w),
     io_trim = CCryptoIO_TrimProcess io hdr_len\<rparr>"

section \<open>The contract of the layer below carries over\<close>

definition crypt_rd ::
  "('d \<Rightarrow> nat \<Rightarrow> nat \<Rightarrow> buf option) \<Rightarrow> (u8 list \<Rightarrow> u64 \<Rightarrow> u64 \<Rightarrow> u8 list option) \<Rightarrow> nat \<Rightarrow> 'd \<Rightarrow> nat \<Rightarrow> nat \<Rightarrow> buf option" where
  "crypt_rd rd_dev dec hdr d offset n = do {
     c \<leftarrow> rd_dev d (offset + hdr) n;
     dec c (of_nat n) (of_nat offset) }"

definition crypt_wr ::
  "('d \<Rightarrow> buf \<Rightarrow> nat \<Rightarrow> 'd option) \<Rightarrow> (u8 list \<Rightarrow> u64 \<Rightarrow> u64 \<Rightarrow> u8 list option) \<Rightarrow> nat \<Rightarrow> 'd \<Rightarrow> buf \<Rightarrow> nat \<Rightarrow> 'd option" where
  "crypt_wr wr_dev enc hdr d bs offset = do {
     c \<leftarrow> enc bs (of_nat (length bs)) (of_nat offset);
     wr_dev d c (offset + hdr) }"

locale crypt_device = sector_device rd_dev wr_dev dev_ok dev_len + sector_cipher enc dec + sector_fun dec
  for rd_dev :: "'d \<Rightarrow> nat \<Rightarrow> nat \<Rightarrow> buf option" and wr_dev dev_ok dev_len enc dec +
  fixes hdr :: nat
  assumes hdr: "512 dvd hdr"

text \<open>A device whose positions fit into 64 bits and that has room for the header.\<close>

definition crypt_ok :: "('d \<Rightarrow> bool) \<Rightarrow> ('d \<Rightarrow> nat) \<Rightarrow> nat \<Rightarrow> 'd \<Rightarrow> bool" where
  "crypt_ok dev_ok dev_len hdr d \<longleftrightarrow> dev_ok d \<and> hdr \<le> dev_len d \<and> dev_len d < 2 ^ 64"

lemma u64_of_nat: "n < 2 ^ 64 \<Longrightarrow> unat (of_nat n :: u64) = n"
  by (simp only: unat_of_nat) (simp add: mod_less)

lemma sector_len_ok:
  assumes "0 < n" and "512 dvd n" and "n \<le> length bs" and "n < 2 ^ 64"
  shows "xts_len_ok (of_nat n) bs"
  using assms u64_of_nat [OF assms(4)] by (auto simp: xts_len_ok_def simp flip: unat_eq_zero)

context crypt_device
begin

lemma inner_range:
  assumes "crypt_ok dev_ok dev_len hdr d" and "sector_range (dev_len d - hdr) offset n"
  shows "sector_range (dev_len d) (offset + hdr) n" and "offset + n < 2 ^ 64" and "0 < n" and "512 dvd n" and "512 dvd offset"
  using assms hdr by (auto simp: sector_range_def crypt_ok_def)

lemma crypt_len:
  assumes "crypt_ok dev_ok dev_len hdr d" and "sector_range (dev_len d - hdr) offset n"
  shows "\<exists>bs. crypt_rd rd_dev dec hdr d offset n = Some bs \<and> length bs = n"
proof -
  note r = inner_range [OF assms]
  obtain c where c: "rd_dev d (offset + hdr) n = Some c" "length c = n"
    using read_len [OF _ r(1)] assms(1) by (auto simp: crypt_ok_def)
  have n: "n < 2 ^ 64" using r(2) by linarith
  then have "xts_len_ok (of_nat n) c" using r c by (intro sector_len_ok) auto
  from f_total [OF this, of "of_nat offset"] c u64_of_nat [OF n] show ?thesis by (auto simp: crypt_rd_def)
qed

end

sublocale crypt_device \<subseteq> crypt: sector_device "crypt_rd rd_dev dec hdr" "crypt_wr wr_dev enc hdr"
  "crypt_ok dev_ok dev_len hdr" "\<lambda>d. dev_len d - hdr"
proof
  fix d d' and offset m n p q :: nat and bs :: buf
  show "crypt_ok dev_ok dev_len hdr d \<Longrightarrow> sector_range (dev_len d - hdr) offset n \<Longrightarrow>
      \<exists>bs. crypt_rd rd_dev dec hdr d offset n = Some bs \<and> length bs = n"
    by (rule crypt_len)
  show "crypt_rd rd_dev dec hdr d offset (m + n) =
      do { a \<leftarrow> crypt_rd rd_dev dec hdr d offset m; b \<leftarrow> crypt_rd rd_dev dec hdr d (offset + m) n; Some (a @ b) }"
    if ok: "crypt_ok dev_ok dev_len hdr d" and r: "sector_range (dev_len d - hdr) offset m"
      "sector_range (dev_len d - hdr) (offset + m) n" "sector_range (dev_len d - hdr) offset (m + n)"
  proof -
    note 1 = inner_range [OF ok r(1)] and 2 = inner_range [OF ok r(2)] and 3 = inner_range [OF ok r(3)]
    have dok: "dev_ok d" using ok by (simp add: crypt_ok_def)
    have s: "offset + m + hdr = offset + hdr + m" by simp
    obtain a where a: "rd_dev d (offset + hdr) m = Some a" "length a = m" using read_len [OF dok 1(1)] by auto
    obtain b where b: "rd_dev d (offset + m + hdr) n = Some b" "length b = n" using read_len [OF dok 2(1)] by auto
    have ab: "rd_dev d (offset + hdr) (m + n) = Some (a @ b)"
      using read_append [OF dok 1(1) 2(1) [unfolded s] 3(1)] a b s by simp
    obtain k where k: "m = 512 * k" using 1(4) by auto
    have lt: "m + n < 2 ^ 64" "m < 2 ^ 64" "n < 2 ^ 64" "offset < 2 ^ 64" using 3(2) by linarith+
    note u = u64_of_nat [OF lt(1)] u64_of_nat [OF lt(2)] u64_of_nat [OF lt(3)] u64_of_nat [OF lt(4)]
    have "dec (a @ b) (of_nat (m + n)) (of_nat offset) = do {
        x \<leftarrow> dec a (of_nat (512 * k)) (of_nat offset);
        y \<leftarrow> dec b (of_nat n) (of_nat offset + of_nat (512 * k));
        Some (x @ y) }"
    proof (rule f_append_at)
      show "0 < k" using 1(3) k by simp
      show "length a = 512 * k" using a(2) k by simp
      show "xts_len_ok (of_nat n) b" using 2(3,4) b(2) lt(3) by (intro sector_len_ok) simp_all
      show "unat (of_nat (m + n) :: u64) = 512 * k + unat (of_nat n :: u64)" unfolding u(1) u(3) using k by simp
      show "512 dvd unat (of_nat offset :: u64)" unfolding u by (rule 1(5))
      show "unat (of_nat offset :: u64) + 512 * k < 2 ^ 64" unfolding u using 3(2) k by linarith
    qed
    with a b ab k show ?thesis by (simp add: crypt_rd_def add.commute)
  qed
  assume ok: "crypt_ok dev_ok dev_len hdr d" and r: "sector_range (dev_len d - hdr) offset (length bs)"
    and w: "crypt_wr wr_dev enc hdr d bs offset = Some d'"
  note i = inner_range [OF ok r]
  have dok: "dev_ok d" using ok by (simp add: crypt_ok_def)
  have n: "length bs < 2 ^ 64" using i(2) by linarith
  have "xts_len_ok (of_nat (length bs)) bs" using i n by (intro sector_len_ok) auto
  then obtain c where c: "enc bs (of_nat (length bs)) (of_nat offset) = Some c" "length c = length bs"
    "dec c (of_nat (length bs)) (of_nat offset) = Some bs"
    by (rule encE) (simp_all only: u64_of_nat [OF n])
  from w c have w': "wr_dev d c (offset + hdr) = Some d'" by (simp add: crypt_wr_def)
  note inner = i(1) [folded c(2)]
  note d' = write_ok [OF dok inner w']
  show "crypt_ok dev_ok dev_len hdr d' \<and> dev_len d' - hdr = dev_len d - hdr"
    using d' ok by (simp add: crypt_ok_def)
  show "crypt_rd rd_dev dec hdr d' offset (length bs) = Some bs"
    using write_same [OF dok inner w'] c by (simp add: crypt_rd_def)
  show "crypt_rd rd_dev dec hdr d' p q = crypt_rd rd_dev dec hdr d p q"
    if pq: "sector_range (dev_len d - hdr) p q" "p + q \<le> offset \<or> offset + length bs \<le> p"
  proof -
    have "p + hdr + q \<le> offset + hdr \<or> offset + hdr + length c \<le> p + hdr" using pq(2) c(2) by auto
    from write_other [OF dok inner w' inner_range(1) [OF ok pq(1)] this] show ?thesis by (simp add: crypt_rd_def)
  qed
qed

context crypt_device
begin

lemma crypt_is_device:
  "sector_device (crypt_rd rd_dev dec hdr) (crypt_wr wr_dev enc hdr) (crypt_ok dev_ok dev_len hdr) (\<lambda>d. dev_len d - hdr)"
  by (rule crypt.sector_device_axioms)

end

text \<open>\<^verbatim>\<open>crypto_io\<close> is that layer.\<close>

lemma crypto_io_rd: "io_rd (crypto_io core io key hdr fmt) = crypt_rd (io_rd io) (\<lambda>C len off. xts_decrypt core C len off key) hdr"
proof (intro ext)
  fix w offset n
  show "io_rd (crypto_io core io key hdr fmt) w offset n =
      crypt_rd (io_rd io) (\<lambda>C len off. xts_decrypt core C len off key) hdr w offset n"
    by (cases "io_read io n (offset + hdr) w")
      (auto simp: io_rd_def crypt_rd_def crypto_io_def CCryptoIO_DiskRead_def
        split: bind_split option.splits prod.splits bool.splits)
qed

lemma crypto_io_wr: "io_wr (crypto_io core io key hdr fmt) = crypt_wr (io_wr io) (\<lambda>P len off. xts_encrypt core P len off key) hdr"
proof (intro ext)
  fix w bs offset
  show "io_wr (crypto_io core io key hdr fmt) w bs offset =
      crypt_wr (io_wr io) (\<lambda>P len off. xts_encrypt core P len off key) hdr w bs offset"
    by (cases "xts_encrypt core bs (of_nat (length bs)) (of_nat offset) key")
      (auto simp: io_wr_def crypt_wr_def crypto_io_def CCryptoIO_DiskWrite_def split: option.splits prod.splits bool.splits)
qed

lemma crypto_io_device:
  assumes core: "aes_core_ok core" and key: "xts_set_key dk alg k0 = Some (1, key)" and hdr: "512 dvd hdr"
    and io: "sector_device (io_rd io) (io_wr io) dev_ok dev_len"
  shows "sector_device (io_rd (crypto_io core io key hdr fmt)) (io_wr (crypto_io core io key hdr fmt))
    (crypt_ok dev_ok dev_len hdr) (\<lambda>w. dev_len w - hdr)"
proof -
  have pairs: "(xk_encrypt key, xk_decrypt key) \<in> set xts_pairs" using key by (rule xts_set_key_pairs)
  then have kd: "xk_decrypt key \<noteq> XTS_NONE" by (auto simp: xts_pairs_def)
  have sc: "sector_cipher (\<lambda>P len off. xts_encrypt core P len off key) (\<lambda>C len off. xts_decrypt core C len off key)"
    unfolding xts_encrypt_def xts_decrypt_def using core pairs by (rule xts_call_sector_cipher)
  have sf: "sector_fun (\<lambda>P len off. xts_decrypt core P len off key)"
    unfolding xts_decrypt_def using kd by (rule xts_call_sector_fun)
  have "crypt_device (io_rd io) (io_wr io) dev_ok dev_len (\<lambda>P len off. xts_encrypt core P len off key)
      (\<lambda>C len off. xts_decrypt core C len off key) hdr"
    using io sc sf hdr by (intro crypt_device.intro crypt_device_axioms.intro)
  then show ?thesis unfolding crypto_io_rd crypto_io_wr by (rule crypt_device.crypt_is_device)
qed

text \<open>A volume encrypted with Serpent, for which no cipher core is a parameter, on a RAM disk.\<close>

lemma serpent_volume:
  "sector_cipher (\<lambda>P len off. xts_serpent_encrypt P len off key) (\<lambda>C len off. xts_serpent_decrypt C len off key)"
  "sector_fun (\<lambda>C len off. xts_serpent_decrypt C len off key)"
  using xts_call_sector_cipher [OF id_core_ok, of XTS_SERPENT_ENC XTS_SERPENT_DEC key]
    xts_call_sector_fun [of XTS_SERPENT_DEC id_core key] by (simp_all add: xts_pairs_def)

interpretation serpent_on_ram: crypt_device "io_rd (ram_io vm)" "io_wr (ram_io vm)" "\<lambda>s. ram_ok (fst s)" "\<lambda>s. ram_cap (fst s)"
  "\<lambda>P len off. xts_serpent_encrypt P len off key" "\<lambda>C len off. xts_serpent_decrypt C len off key" "512 * k"
  for vm :: "'w vm" and key k
  by (intro crypt_device.intro crypt_device_axioms.intro ram_dev.sector_device_axioms serpent_volume) simp


lemma ram_ex_block_write:
  assumes "length bs = 512" and "nonzero_at bs 0 512"
  shows "\<exists>d1. ram_write data_search_std vm_ex ram_ex bs 3072 () = Some ((True, d1), ())"
proof -
  have i: "drop_bit 12 (3072 :: nat) = 0" "(3072 :: nat) AND 4095 = 3072"
    by (simp_all add: drop_bit_eq_div)
  have b: "in_block ram_ex 3072 512 = 512" by (simp add: in_block_def ram_ex_ok)
  have s: "data_search_std bs 0 512 = Some (True, bs)" using assms std.search_eq [of 512 0 bs] by simp
  have w: "\<exists>p. wr (replicate 100 0 @ [7] @ replicate 3995 (0 :: u8)) 3072 bs = Some p" using assms(1) by (simp add: wr_def)
  then show ?thesis
    using assms(1) i s b
    by (subst ram_write_def, subst write_loop.simps) (auto simp: write_block_def ram_ex_def mem_block_size_def Let_def)
qed


end
