(* ===== verification/Imbox_Header.thy ===== *)
theory Imbox_Header
  imports Header_Seal
begin

unbundle bit_operations_syntax

text \<open>
  \<^verbatim>\<open>ImBox/dc/dc_header.c\<close>: what the image box asks of the volume library. The host is the process's
  own allocator and generator, without the hooks for seeding and wiping; a header is decrypted as far
  as the caller has read it, and sealed after its checksum has been refreshed.
\<close>

section \<open>Installing the host\<close>

definition g_imbox_host :: "nat \<Rightarrow> nat \<Rightarrow> nat \<Rightarrow> dc_host_ptrs" where
  "g_imbox_host imbox_secure_alloc imbox_secure_free imbox_rand_bytes =
     \<lparr>secure_alloc = imbox_secure_alloc, secure_free = imbox_secure_free, rand_bytes = imbox_rand_bytes,
      rand_add_seed = 0, log_fn = 0, wipe_fn = 0\<rparr>"

text \<open>
  The static flag and the state of the library; the selection of the cipher cores by \<^verbatim>\<open>xts_init\<close> is
  the parameter \<open>h_core\<close> of the host. The status of \<^verbatim>\<open>dc_lib_init\<close> is not looked at.
\<close>

definition dc_init_crypto :: "dc_host_ptrs \<Rightarrow> bool \<times> dc_lib \<Rightarrow> int \<times> (bool \<times> dc_lib)" where
  "dc_init_crypto h s =
     (case s of (initialized, g) \<Rightarrow>
        if \<not> initialized then (case dc_lib_init (Some h) g of (_, g) \<Rightarrow> (1, (True, g)))
        else (1, (initialized, g)))"

section \<open>How much to read\<close>

abbreviation XTS_SECTOR :: int where "XTS_SECTOR \<equiv> 512"

definition DC_AREA_MAX_SIZE :: int where "DC_AREA_MAX_SIZE = 32 * 1024 * 1024"

definition dc_get_min_header_len :: "dc_pass \<Rightarrow> int" where
  "dc_get_min_header_len password =
     (let len = cp_get_min_header_len password in (len + XTS_SECTOR - 1) div XTS_SECTOR * XTS_SECTOR)"

section \<open>Opening\<close>

text \<open>\<^verbatim>\<open>secure_alloc\<close> of an \<^verbatim>\<open>int\<close>: the size is an \<^verbatim>\<open>unsigned long\<close> of 32 bits.\<close>

definition ulong_of_int :: "int \<Rightarrow> nat" where "ulong_of_int n = nat (n mod 2 ^ 32)"

text \<open>
  What the caller gets: the status and the out parameters that were written. \<open>dh_kdf\<close> and \<open>dh_slot\<close>
  are written by the search, also when the header is refused afterwards.
\<close>

record dh_result =
  dh_status :: dc_status
  dh_header :: "buf option"
  dh_key :: "xts_key option"
  dh_len :: "int option"
  dh_kdf :: "int option"
  dh_slot :: "nat option"

definition dh_error :: "dc_status \<Rightarrow> dh_result" where
  "dh_error st = \<lparr>dh_status = st, dh_header = None, dh_key = None, dh_len = None, dh_kdf = None, dh_slot = None\<rparr>"

text \<open>
  The part behind the search: what was read of a longer header is decrypted in whole sectors, and the
  slots are carried over when all of them were read. The result is the length of the header, or a
  status.
\<close>

definition dc_decrypt_tail :: "aes_core \<Rightarrow> buf \<Rightarrow> int \<Rightarrow> xts_key \<Rightarrow> buf \<Rightarrow> (dc_status + int \<times> buf) option" where
  "dc_decrypt_tail core enc_header enc_len hdr_key header =
     (if DC_HDR_VERSION_2 \<le> hd_version header then
        (let head_len = sint (hd_head_len header) in
         if head_len < int DC_AREA_SIZE \<or> DC_AREA_MAX_SIZE < head_len then Some (Inl ST_INV_VOLUME)
         else
           (let have = (if enc_len < head_len then enc_len else head_len);
                tail = (have - int DC_AREA_SIZE) div XTS_SECTOR * XTS_SECTOR in do {
              header \<leftarrow>
                (if 0 < tail then do {
                   plain \<leftarrow> xts_decrypt core (drop DC_AREA_SIZE enc_header) (u64_of_int tail) 2048 hdr_key;
                   wr header DC_AREA_SIZE plain }
                 else Some header);
              header \<leftarrow>
                (if has_slots_flag header \<and>
                    (1024 + of_nat (hd_slot_area_len header) + of_nat (hd_key_slot_count header) * of_nat (hd_slot_info_size header) :: u32)
                      \<le> u32_of_int enc_len
                 then map_option snd (cp_copy_keylots True header enc_header header)
                 else Some header);
              Some (Inr (head_len, header)) }))
      else Some (Inr (int DC_AREA_SIZE, header)))"

text \<open>
  The whole call; the pointers of its callers are not null, and the host that \<^verbatim>\<open>dc_init_crypto\<close>
  installs first is the argument.
\<close>

definition dc_decrypt_header ::
  "'w host \<Rightarrow> buf \<Rightarrow> int \<Rightarrow> dc_pass \<Rightarrow> bool \<Rightarrow> 'w world \<Rightarrow> (dh_result \<times> 'w world) option" where
  "dc_decrypt_header hs enc_header enc_len password want_key w =
     (if enc_len < int DC_AREA_SIZE then Some (dh_error ST_INV_VOLUME, w)
      else
        (case dc_alloc hs (ulong_of_int enc_len) w of
           (None, w) \<Rightarrow> Some (dh_error ST_NOMEM, w)
         | (Some header, w) \<Rightarrow>
             (case dc_alloc hs (h_key_size hs) w of
                (None, w) \<Rightarrow> Some (dh_error ST_NOMEM, dc_free hs w)
              | (Some _, w) \<Rightarrow> do {
                  bytes \<leftarrow> rdi enc_header 0 enc_len;
                  header \<leftarrow> wr header 0 bytes;
                  ((found, hdr_key, header), w) \<leftarrow> cp_decrypt_header hs (h_key_mem hs) header enc_len password w;
                  (case found of
                     None \<Rightarrow> Some (dh_error ST_PASS_ERR, dc_free hs (dc_free hs w))
                   | Some (kdf, r) \<Rightarrow> do {
                       t \<leftarrow> dc_decrypt_tail (h_core hs) enc_header enc_len hdr_key header;
                       (case t of
                          Inl st \<Rightarrow>
                            Some ((dh_error st)\<lparr>dh_kdf := Some kdf, dh_slot := Some (o_slot r)\<rparr>, dc_free hs (dc_free hs w))
                        | Inr (head_len, header) \<Rightarrow>
                            Some (\<lparr>dh_status = ST_OK, dh_header = Some header,
                                   dh_key = (if want_key then Some hdr_key else None), dh_len = Some head_len,
                                   dh_kdf = Some kdf, dh_slot = Some (o_slot r)\<rparr>, dc_free_opt hs (\<not> want_key) w)) }) })))"

section \<open>Sealing\<close>

definition set_hdr_crc :: "buf \<Rightarrow> u32 \<Rightarrow> buf option" where
  "set_hdr_crc h v = wr_u32 h 68 v"

definition dc_encrypt_header ::
  "'w host \<Rightarrow> buf \<Rightarrow> int \<Rightarrow> xts_key \<Rightarrow> 'w world \<Rightarrow> ((dc_status \<times> buf option) \<times> 'w world) option" where
  "dc_encrypt_header hs header header_len hdr_key w =
     (case dc_alloc hs (ulong_of_int header_len) w of
        (None, w) \<Rightarrow> Some ((ST_NOMEM, None), w)
      | (Some scratch, w) \<Rightarrow>
          (case dc_alloc hs (ulong_of_int header_len) w of
             (None, w) \<Rightarrow> Some ((ST_NOMEM, None), dc_free hs w)
           | (Some enc, w) \<Rightarrow> do {
               bytes \<leftarrow> rdi header 0 header_len;
               scratch \<leftarrow> wr scratch 0 bytes;
               crc \<leftarrow> calculate_header_crc scratch;
               scratch \<leftarrow> set_hdr_crc scratch crc;
               (resl, enc) \<leftarrow> cp_encrypt_header (h_core hs) (Some scratch) header_len (Some hdr_key) (Some enc);
               let w = dc_free hs w;
               if resl \<noteq> ST_OK then Some ((resl, None), dc_free hs w)
               else Some ((ST_OK, enc), w) }))"

section \<open>A sealed header opens\<close>

lemma drop_wr_above: "wr b off xs = Some b' \<Longrightarrow> off + length xs \<le> i \<Longrightarrow> drop i b' = drop i b"
  by (auto simp: wr_def split: if_splits)

text \<open>Refreshing the checksum touches no other field, and makes the header valid.\<close>

lemma hdr_crc_fields:
  assumes c: "set_hdr_crc h v = Some h'"
  shows "length h' = length h" "take 68 h' = take 68 h" "drop 72 h' = drop 72 h" "hd_crc h' = v"
    "hd_salt h' = hd_salt h" "hd_sign h' = hd_sign h" "calculate_header_crc h' = calculate_header_crc h"
    "layout_ok h' = layout_ok h" "has_slots_flag h' = has_slots_flag h" "hd_slot_area_len h' = hd_slot_area_len h"
    "hd_key_slot_count h' = hd_key_slot_count h" "slot_size h' = slot_size h" "slot_enabled h' i = slot_enabled h i"
proof -
  have w: "wr h 68 (le_bytes 4 (unat v)) = Some h'" using c by (simp add: set_hdr_crc_def wr_u32_def)
  show l: "length h' = length h" using w by (rule length_wr)
  have l72: "72 \<le> length h" using w by (auto simp: wr_def split: if_splits)
  show t: "take 68 h' = take 68 h" using w by (rule take_wr) simp
  have d: "72 \<le> off \<Longrightarrow> drop off h' = drop off h" for off using w by (rule drop_wr_above) simp
  then show "drop 72 h' = drop 72 h" by simp
  have "take 4 (drop 68 h') = le_bytes 4 (unat v)" using w by (auto simp: wr_def split: if_splits)
  moreover have "unat v < 256 ^ 4" using unsigned_less [of v] by simp
  ultimately show "hd_crc h' = v" by (simp add: hd_crc_def fld_u32_def le_val_le_bytes)
  have t64: "take n (drop k h') = take n (drop k h)" if "k + n \<le> 68" for k n
    using that take_drop_wr_below [OF w] by simp
  show s: "hd_salt h' = hd_salt h" using t64 [of 0 64] by (simp add: hd_salt_def)
  show "hd_sign h' = hd_sign h" using t64 [of 64 4] by (simp add: hd_sign_def fld_u32_def)
  have nt: "72 \<le> i \<Longrightarrow> i < length h \<Longrightarrow> h' ! i = h ! i" for i using w by (simp add: wr_nth)
  have f: "72 \<le> off \<Longrightarrow> fld_u16 h' off = fld_u16 h off" "72 \<le> off \<Longrightarrow> fld_u32 h' off = fld_u32 h off" for off
    using d by (simp_all add: fld_u16_def fld_u32_def)
  have b: "72 \<le> i \<Longrightarrow> h' ! i = h ! i" for i
  proof (cases "i < length h")
    case False
    assume "72 \<le> i"
    then have "h' ! i = drop 72 h' ! (i - 72)" "h ! i = drop 72 h ! (i - 72)" using l72 l by simp_all
    then show ?thesis using d [of 72] by simp
  qed (use nt in blast)
  have v: "hd_version h' = hd_version h" "hd_footer_cnt h' = hd_footer_cnt h" "hd_head_len h' = hd_head_len h"
    "hd_slot_info_size h' = hd_slot_info_size h"
    using f b by (simp_all add: hd_version_def hd_footer_cnt_def hd_head_len_def hd_slot_info_size_def)
  have r: "72 \<le> off \<Longrightarrow> rd h' off n = rd h off n" for off n using d l by (simp add: rd_def)
  then show "calculate_header_crc h' = calculate_header_crc h" using v by (simp add: calculate_header_crc_def rdi_def)
  show hs: "has_slots_flag h' = has_slots_flag h" "hd_slot_area_len h' = hd_slot_area_len h"
    "hd_key_slot_count h' = hd_key_slot_count h"
    using f b by (simp_all add: has_slots_flag_def hd_feature_flags_def hd_slot_area_len_def hd_key_slot_count_def)
  then show "slot_size h' = slot_size h" by (simp add: slot_size_def)
  show "layout_ok h' = layout_ok h" using v hs l by (simp add: layout_ok_def)
  have "slot_info_off h' i = slot_info_off h i" "72 \<le> slot_info_off h i + 4"
    using hs v by (simp_all add: slot_info_off_def)
  then show "slot_enabled h' i = slot_enabled h i" using r by (simp add: slot_enabled_def si_flags_def rd_u32_def)
qed

lemma hdr_crc_correct:
  assumes "calculate_header_crc h = Some crc" and "set_hdr_crc h crc = Some h'"
    and "\<exists>x \<in> set (hd_salt h). x \<noteq> 0" and "hd_sign h = DC_VOLUME_SIGN"
  shows "is_volume_header_correct h' = Some True"
  using assms hdr_crc_fields [OF assms(2)] by (simp add: is_volume_header_correct_def salt_bits_zero)

lemma drop_above: "drop k a = drop k b \<Longrightarrow> k \<le> n \<Longrightarrow> drop n a = drop n (b :: 'a list)"
  by (metis drop_drop le_add_diff_inverse2)

lemma ulong_of_int_length: "n < 2 ^ 32 \<Longrightarrow> ulong_of_int (int n) = n"
  by (simp add: ulong_of_int_def nat_mod_as_int [symmetric])

lemma dc_alloc_cases:
  assumes "host_ok hs"
  obtains (fail) w' where "dc_alloc hs n w = (None, w')" "live w' = live w"
  | (ok) b w' where "dc_alloc hs n w = (Some b, w')" "live w' = live w + 1" "length b = n"
  using assms by (cases "h_alloc hs n (env w)"; cases "fst (h_alloc hs n (env w))") (auto simp: dc_alloc_def host_ok_def)



section \<open>Opening what was read\<close>

text \<open>Where the decryption of whole sectors stops, and whether all the slots were read.\<close>

definition read_end :: "buf \<Rightarrow> int \<Rightarrow> nat" where
  "read_end header enc_len =
     DC_AREA_SIZE + nat ((min enc_len (sint (hd_head_len header)) - int DC_AREA_SIZE) div XTS_SECTOR * XTS_SECTOR)"

definition slots_read :: "buf \<Rightarrow> int \<Rightarrow> bool" where
  "slots_read header enc_len \<longleftrightarrow> has_slots_flag header \<and> int (1024 + slots_len header) \<le> enc_len"

lemma slots_end_u32:
  "(1024 + of_nat (hd_slot_area_len h) + of_nat (hd_key_slot_count h) * of_nat (hd_slot_info_size h) :: u32) = of_nat (1024 + slots_len h)"
  "1024 + slots_len h < 2 ^ 31"
proof -
  show "(1024 + of_nat (hd_slot_area_len h) + of_nat (hd_key_slot_count h) * of_nat (hd_slot_info_size h) :: u32) = of_nat (1024 + slots_len h)"
    by (simp add: slots_len_def)
  have "hd_key_slot_count h * hd_slot_info_size h \<le> 255 * 65535"
    using hd_bounds [of h] by (intro mult_le_mono) auto
  then show "1024 + slots_len h < 2 ^ 31" using hd_bounds [of h] by (simp add: slots_len_def)
qed

lemma slots_read_u32:
  assumes "0 \<le> enc_len" and "enc_len < 2 ^ 31"
  shows "(has_slots_flag h \<and>
      (1024 + of_nat (hd_slot_area_len h) + of_nat (hd_key_slot_count h) * of_nat (hd_slot_info_size h) :: u32) \<le> u32_of_int enc_len) =
    slots_read h enc_len"
proof -
  have n: "n < 2 ^ 31 \<Longrightarrow> unat (of_nat n :: u32) = n" for n by (simp only: unat_of_nat) (simp add: mod_less)
  have "u32_of_int enc_len = of_nat (nat enc_len)" "nat enc_len < 2 ^ 31" using assms by (simp_all add: u32_of_int_def)
  then have "unat (u32_of_int enc_len) = nat enc_len" using n by simp
  then show ?thesis
    using slots_end_u32(2) [of h] assms by (simp only: slots_end_u32(1) slots_read_def word_le_nat_alt n) auto
qed


lemma overlay_none: "(\<And>p. \<not> P p) \<Longrightarrow> overlay P a b = b"
  by (intro nth_equalityI) auto

lemma wr_in: "off + length xs \<le> length b \<Longrightarrow> wr b off xs = Some (take off b @ xs @ drop (off + length xs) b)"
  by (simp add: wr_def)

lemma whole_sectors:
  fixes m :: int
  assumes "0 \<le> m"
  shows "0 \<le> m div 512 * 512" "m div 512 * 512 \<le> m" "512 dvd nat (m div 512 * 512)"
proof -
  show "0 \<le> m div 512 * 512" using assms by (simp add: pos_imp_zdiv_nonneg_iff)
  show "m div 512 * 512 \<le> m" by (simp add: minus_mod_eq_div_mult [symmetric])
  have "nat (m div 512 * 512) = nat (m div 512) * 512" by (simp add: nat_mult_distrib pos_imp_zdiv_nonneg_iff assms)
  then show "512 dvd nat (m div 512 * 512)" by simp
qed

text \<open>Copying slots out of a buffer that holds all of them, although not all of the header.\<close>

lemma cp_copy_keylots_read:
  assumes "1024 + slots_len h \<le> length h" and "has_slots_flag h \<Longrightarrow> 8 \<le> hd_slot_info_size h" and "length inp = length h"
  shows "map_option snd (cp_copy_keylots True h inp h) = Some (overlay (copied h) inp h)"
proof (cases "has_slots_flag h \<and> hd_key_slot_count h \<noteq> 0 \<and> 1024 + slots_len h \<le> unat (hd_head_len h)")
  case False
  then have "\<And>p. \<not> copied h p" by (auto simp: copied_def)
  with False overlay_none show ?thesis by (auto simp: cp_copy_keylots_def slots_len_def not_less)
next
  case True
  have "copy_slots True h inp (slot_size h) [0..<hd_key_slot_count h] h =
      Some (overlay (in_slots h (slot_size h) [0..<hd_key_slot_count h]) inp h)"
    using True assms slot_size_area [of h]
    by (intro copy_slots_overlay [where cnt = "hd_key_slot_count h"]) (auto simp: slots_len_def)
  moreover have "copied h = in_slots h (slot_size h) [0..<hd_key_slot_count h]"
    using True by (auto simp: copied_def fun_eq_iff)
  ultimately show ?thesis
    using True by (simp add: cp_copy_keylots_def slots_len_def slot_size_def Let_def)
qed

text \<open>
  C22: the part of \<^verbatim>\<open>dc_decrypt_header\<close> behind the search, for any header whatever. With a key that
  \<^verbatim>\<open>xts_set_key\<close> set and slot descriptors of at least eight bytes, no access leaves a buffer. A header of
  the first version is returned as it is, with the length 2048; a length below 2048, negative, or above
  32 MB is refused; otherwise the sectors between 2048 and the end of what was read, or of the header,
  are decrypted, a sector read in part keeps its bytes, and the enabled slots are put back from the
  encrypted copy exactly when the slot area and all descriptors were read.
\<close>

theorem dc_decrypt_tail_reads:
  assumes key: "xts_set_key dk alg k0 = Some (1, key)"
    and l: "length header = length enc" "2048 \<le> length enc" "length enc < 2 ^ 31"
    and info: "has_slots_flag header \<Longrightarrow> 8 \<le> hd_slot_info_size header"
  shows "\<exists>r. dc_decrypt_tail core enc (int (length enc)) key header = Some r \<and>
    (if hd_version header < DC_HDR_VERSION_2 then r = Inr (2048, header)
     else if sint (hd_head_len header) < 2048 \<or> DC_AREA_MAX_SIZE < sint (hd_head_len header) then r = Inl ST_INV_VOLUME
     else \<exists>plain h1.
       (if read_end header (int (length enc)) = 2048 then plain = []
        else xts_decrypt core (drop 2048 enc) (u64_of_int (int (read_end header (int (length enc)) - 2048))) 2048 key = Some plain) \<and>
       length plain = read_end header (int (length enc)) - 2048 \<and>
       h1 = take 2048 header @ plain @ drop (read_end header (int (length enc))) header \<and>
       r = Inr (sint (hd_head_len header), if slots_read header (int (length enc)) then overlay (copied h1) enc h1 else h1))"
proof -
  have pairs: "(xk_encrypt key, xk_decrypt key) \<in> set xts_pairs" using key by (rule xts_set_key_pairs)
  then have kd: "xk_decrypt key \<noteq> XTS_NONE" by (auto simp: xts_pairs_def)
  have sf: "sector_fun (\<lambda>P len off. xts_decrypt core P len off key)"
    unfolding xts_decrypt_def using kd by (rule xts_call_sector_fun)
  let ?hl = "sint (hd_head_len header)" and ?n = "int (length enc)"
  let ?R = "read_end header ?n"
  consider (v1) "hd_version header < DC_HDR_VERSION_2"
    | (bad) "\<not> hd_version header < DC_HDR_VERSION_2" "?hl < 2048 \<or> DC_AREA_MAX_SIZE < ?hl"
    | (good) "\<not> hd_version header < DC_HDR_VERSION_2" "\<not> (?hl < 2048 \<or> DC_AREA_MAX_SIZE < ?hl)" by blast
  then show ?thesis
  proof cases
    case v1
    then have "\<not> DC_HDR_VERSION_2 \<le> hd_version header" by simp
    with v1 show ?thesis unfolding dc_decrypt_tail_def by simp
  next
    case bad
    then have v: "DC_HDR_VERSION_2 \<le> hd_version header" "?hl < int DC_AREA_SIZE \<or> DC_AREA_MAX_SIZE < ?hl" by simp_all
    have "dc_decrypt_tail core enc ?n key header = Some (Inl ST_INV_VOLUME)"
      unfolding dc_decrypt_tail_def Let_def if_P [OF v(1)] if_P [OF v(2)] ..
    then show ?thesis using bad by simp
  next
    case good
    define tail where "tail = (min ?n ?hl - 2048) div 512 * 512"
    have m: "0 \<le> min ?n ?hl - 2048" using good(2) l(2) by simp
    have tl: "0 \<le> tail" "tail \<le> min ?n ?hl - 2048" "512 dvd nat tail" "?R = 2048 + nat tail"
      unfolding tail_def by (fact whole_sectors [OF m])+ (simp only: read_end_def of_nat_numeral)
    obtain plain where plain: "if ?R = 2048 then plain = []
        else xts_decrypt core (drop 2048 enc) (u64_of_int (int (?R - 2048))) 2048 key = Some plain"
      "length plain = ?R - 2048"
    proof (cases "?R = 2048")
      case False
      have "nat tail \<le> length enc" using tl(1,2) by auto
      then have "nat tail < 2 ^ 64" using l(3) by simp
      then have u: "unat (u64_of_int (int (nat tail))) = nat tail"
        using u64_of_int_length [of "replicate (nat tail) ()"] by simp
      with False tl l have "xts_len_ok (u64_of_int (int (nat tail))) (drop 2048 enc)"
        by (auto simp: xts_len_ok_def simp flip: unat_eq_zero)
      from sector_fun.f_total [OF sf this, of 2048] False tl u that show ?thesis by auto
    qed (use that in auto)
    define h1 where "h1 = take 2048 header @ plain @ drop ?R header"
    have l1: "length h1 = length enc" using plain(2) tl l by (simp add: h1_def)
    have t1: "take 1024 h1 = take 1024 header" using l by (simp add: h1_def)
    have "1024 \<le> length h1" "1024 \<le> length header" using l l1 by simp_all
    note bc = base_cong [OF t1 this]
    have first: "(if 0 < tail then do {
                   plain \<leftarrow> xts_decrypt core (drop 2048 enc) (u64_of_int tail) 2048 key;
                   wr header 2048 plain }
                 else Some header) = Some h1"
    proof (cases "0 < tail")
      case True
      then have "xts_decrypt core (drop 2048 enc) (u64_of_int tail) 2048 key = Some plain"
        using plain(1) tl by simp
      moreover have "wr header 2048 plain = Some h1" using plain(2) tl l True by (simp add: wr_in h1_def)
      ultimately show ?thesis using True by simp
    next
      case False
      then have "?R = 2048" "plain = []" using tl plain(2) by simp_all
      then show ?thesis using False by (simp add: h1_def)
    qed
    have sr: "slots_read h1 ?n = slots_read header ?n" using bc by (simp add: slots_read_def slots_len_def)
    have second: "map_option snd (cp_copy_keylots True h1 enc h1) = Some (overlay (copied h1) enc h1)" if "slots_read h1 ?n"
      using that l1 info bc by (intro cp_copy_keylots_read) (auto simp: slots_read_def)
    have g: "has_slots_flag h1 \<and>
        (1024 + of_nat (hd_slot_area_len h1) + of_nat (hd_key_slot_count h1) * of_nat (hd_slot_info_size h1) :: u32) \<le> u32_of_int ?n \<longleftrightarrow>
        slots_read header ?n"
      unfolding sr [symmetric] using l(3) by (intro slots_read_u32) simp_all
    have v: "DC_HDR_VERSION_2 \<le> hd_version header" "(?hl < int DC_AREA_SIZE \<or> DC_AREA_MAX_SIZE < ?hl) = False"
      using good by auto
    have tt: "((if ?n < ?hl then ?n else ?hl) - int DC_AREA_SIZE) div XTS_SECTOR * XTS_SECTOR = tail"
      by (simp add: tail_def)
    have "dc_decrypt_tail core enc ?n key header =
        Some (Inr (?hl, if slots_read header ?n then overlay (copied h1) enc h1 else h1))"
      using second sr by (simp only: dc_decrypt_tail_def Let_def v if_True if_False tt first bind.bind_lunit g split: if_split) auto
    then show ?thesis using good plain h1_def by simp
  qed
qed

theorem dc_decrypt_tail_reads_witness:
  "\<exists>key h'. dc_decrypt_tail id_core slots_header 2048 key slots_header = Some (Inr (2048, h')) \<and>
    h' = overlay (copied slots_header) slots_header slots_header"
proof -
  note f = slots_header_facts
  obtain key where key: "xts_set_key (replicate 192 0) 0 key_mem = Some (1, key)"
    using xts_set_key_aes [of "replicate 192 0" key_mem] by auto
  have l: "2048 \<le> length slots_header" "length slots_header < 2 ^ 31" "has_slots_flag slots_header \<Longrightarrow> 8 \<le> hd_slot_info_size slots_header"
    "int (length slots_header) = 2048" "\<not> hd_version slots_header < DC_HDR_VERSION_2"
    "\<not> (sint (hd_head_len slots_header) < 2048 \<or> DC_AREA_MAX_SIZE < sint (hd_head_len slots_header))"
    using f by (simp_all add: DC_HDR_VERSION_2_def DC_AREA_MAX_SIZE_def)
  have r: "read_end slots_header 2048 = 2048" "slots_read slots_header 2048" "sint (hd_head_len slots_header) = 2048"
    using f by (simp_all add: read_end_def slots_read_def slots_len_def)
  from dc_decrypt_tail_reads [OF key refl l(1-3), of id_core, unfolded l(4) r(1) r(3)] l(5,6) r f(1)
  have "dc_decrypt_tail id_core slots_header 2048 key slots_header =
      Some (Inr (2048, overlay (copied slots_header) slots_header slots_header))"
    by (simp add: DC_AREA_MAX_SIZE_def)
  then show ?thesis by blast
qed

text \<open>
  Without descriptors of eight bytes it is not so. A decrypted header of 2048 bytes that announces
  a slot area up to its end and descriptors of size zero passes the checks, and the flags of the first
  descriptor are read behind both buffers.
\<close>

theorem dc_decrypt_tail_past_end:
  assumes "length header = 2048" and "DC_HDR_VERSION_2 \<le> hd_version header" and "hd_head_len header = 2048"
    and "has_slots_flag header" and "hd_key_slot_count header \<noteq> 0" and "hd_slot_area_len header = 1024"
    and "hd_slot_info_size header = 0"
  shows "dc_decrypt_tail core enc 2048 key header = None"
proof -
  obtain c where c: "hd_key_slot_count header = Suc c" using assms(5) by (cases "hd_key_slot_count header") auto
  have "si_flags header (slot_info_off header 0) = None"
    using assms by (simp add: si_flags_def slot_info_off_def rd_u32_def rd_def)
  then have "cp_copy_keylots True header enc header = None"
    using assms(3-7) by (simp add: cp_copy_keylots_def c upt_conv_Cons del: upt_Suc)
  then show ?thesis
    using assms(1-4,6,7) by (simp add: dc_decrypt_tail_def DC_AREA_MAX_SIZE_def u32_of_int_def)
qed

end
