(* ===== verification/Imbox_Open.thy ===== *)
theory Imbox_Open
  imports Crypt_Device Imbox_Header
begin

unbundle bit_operations_syntax

text \<open>
  Reading the header of an image, \<^verbatim>\<open>ImBox/CryptoIO.cpp\<close>: how much to read, the two passes of
  \<^verbatim>\<open>ReadHeader\<close>, and what \<^verbatim>\<open>GetHeader\<close> reports of it. The object below is a \<^verbatim>\<open>CAbstractIO\<close> whose state
  is the environment of the host.
\<close>

section \<open>The object below\<close>

definition pIO_Init :: "'w abs_io \<Rightarrow> 'w world \<Rightarrow> (imbox_err \<times> 'w world) option" where
  "pIO_Init io w = map_option (\<lambda>(ret, e). (ret, w\<lparr>env := e\<rparr>)) (io_init io (env w))"

text \<open>A read into a buffer of the caller; the size is an \<^verbatim>\<open>int\<close> that is not negative.\<close>

definition pIO_DiskRead :: "'w abs_io \<Rightarrow> buf \<Rightarrow> int \<Rightarrow> 'w world \<Rightarrow> ((bool \<times> buf) \<times> 'w world) option" where
  "pIO_DiskRead io b n w = do {
     ((ret, bs), e) \<leftarrow> io_read io (nat n) 0 (env w);
     b \<leftarrow> wr b 0 bs;
     Some ((ret, b), w\<lparr>env := e\<rparr>) }"

definition pIO_DiskWrite :: "'w abs_io \<Rightarrow> buf \<Rightarrow> int \<Rightarrow> 'w world \<Rightarrow> (bool \<times> 'w world) option" where
  "pIO_DiskWrite io b n w = do {
     bs \<leftarrow> rdi b 0 n;
     (ret, e) \<leftarrow> io_write io bs 0 (env w);
     Some (ret, w\<lparr>env := e\<rparr>) }"

section \<open>Lengths\<close>

definition st_to_err :: "dc_status \<Rightarrow> imbox_err" where
  "st_to_err st =
     (case st of
        ST_OK \<Rightarrow> ERR_OK
      | ST_NOMEM \<Rightarrow> ERR_MALLOC_ERROR
      | ST_PASS_ERR \<Rightarrow> ERR_WRONG_PASSWORD
      | ST_RW_ERR \<Rightarrow> ERR_IO_FAILED
      | ST_IO_ERROR \<Rightarrow> ERR_IO_FAILED
      | ST_INCOMPATIBLE \<Rightarrow> ERR_INVALID_PARAM
      | ST_BAD_INDEX \<Rightarrow> ERR_INVALID_PARAM
      | ST_INVALID_PARAM \<Rightarrow> ERR_INVALID_PARAM
      | _ \<Rightarrow> ERR_INTERNAL)"

definition get_header_len :: "buf \<Rightarrow> imbox_err + int" where
  "get_header_len header =
     (let len = (if DC_HDR_VERSION_2 \<le> hd_version header then sint (hd_head_len header) else int DC_AREA_SIZE) in
      if len < int DC_AREA_SIZE \<or> DC_AREA_MAX_SIZE < len \<or> len mod XTS_SECTOR \<noteq> 0 then Inl ERR_INTERNAL
      else if DC_HDR_VERSION_2 \<le> hd_version header \<and> has_slots_flag header \<and>
              u32_of_int len < 1024 + of_nat (hd_slot_area_len header) +
                of_nat (hd_key_slot_count header) * of_nat (hd_slot_info_size header)
      then Inl ERR_INTERNAL
      else Inr len)"

definition get_read_len :: "u64 \<Rightarrow> dc_pass \<Rightarrow> int" where
  "get_read_len uSize password =
     (let len = dc_get_min_header_len password in
      if uSize < u64_of_int len then sint (ucast (uSize div 512 * 512) :: u32) else len)"

section \<open>Reading the header\<close>

text \<open>What the first pass found: the key of the header, and how the header was opened.\<close>

record read_key =
  rk_key :: xts_key
  rk_kdf :: int
  rk_slot :: nat

text \<open>
  One turn of the loop up to the header in the clear. A turn that ends the loop has released what it
  allocated itself; the key of an earlier turn is released by the caller.
\<close>

definition ReadHeader_turn ::
  "'w host \<Rightarrow> 'w abs_io \<Rightarrow> dc_pass \<Rightarrow> int \<Rightarrow> read_key option \<Rightarrow> 'w world \<Rightarrow>
   ((imbox_err + buf \<times> read_key) \<times> 'w world) option" where
  "ReadHeader_turn hs io password enc_len hdr_key w =
     (case dc_alloc hs (ulong_of_int enc_len) w of
        (None, w) \<Rightarrow> Some (Inl ERR_MALLOC_ERROR, w)
      | (Some enc_header, w) \<Rightarrow> do {
          ((ok, enc_header), w) \<leftarrow> pIO_DiskRead io enc_header enc_len w;
          if \<not> ok then Some (Inl ERR_IO_FAILED, dc_free hs w)
          else
            (case hdr_key of
               None \<Rightarrow> do {
                 (r, w) \<leftarrow> dc_decrypt_header hs enc_header enc_len password True w;
                 (case (dh_status r, dh_header r, dh_key r, dh_kdf r, dh_slot r) of
                    (ST_OK, Some header, Some key, Some kdf, Some slot) \<Rightarrow>
                      Some (Inr (header, \<lparr>rk_key = key, rk_kdf = kdf, rk_slot = slot\<rparr>), dc_free hs w)
                  | _ \<Rightarrow> Some (Inl ERR_WRONG_PASSWORD, dc_free hs w)) }
             | Some k \<Rightarrow>
                 (case dc_alloc hs (ulong_of_int enc_len) w of
                    (None, w) \<Rightarrow> Some (Inl ERR_MALLOC_ERROR, dc_free hs w)
                  | (Some header, w) \<Rightarrow> do {
                      (ok, header) \<leftarrow> cp_decrypt_header_with_key False (h_core hs) enc_header enc_len (Some (rk_key k)) header;
                      if \<not> ok then Some (Inl ERR_INTERNAL, dc_free hs (dc_free hs w))
                      else Some (Inr (header, k), dc_free hs w) })) })"

text \<open>
  The loop. Every turn after the first reads a longer header than the one before, and no header is
  longer than 32 MB.
\<close>

function ReadHeader_loop ::
  "'w host \<Rightarrow> 'w abs_io \<Rightarrow> dc_pass \<Rightarrow> int \<Rightarrow> read_key option \<Rightarrow> 'w world \<Rightarrow>
   (((imbox_err + buf \<times> int) \<times> read_key option) \<times> 'w world) option" where
  "ReadHeader_loop hs io password enc_len hdr_key w =
     (case ReadHeader_turn hs io password enc_len hdr_key w of
        None \<Rightarrow> None
      | Some (Inl ret, w) \<Rightarrow> Some ((Inl ret, hdr_key), dc_free_opt hs (hdr_key \<noteq> None) w)
      | Some (Inr (header, k), w) \<Rightarrow>
          (case get_header_len header of
             Inl ret \<Rightarrow> Some ((Inl ret, Some k), dc_free hs (dc_free hs w))
           | Inr head_len \<Rightarrow>
               if head_len \<le> enc_len then Some ((Inr (header, head_len), Some k), w)
               else if io_size io (env w) < u64_of_int head_len
               then Some ((Inl ERR_INTERNAL, Some k), dc_free hs (dc_free hs w))
               else ReadHeader_loop hs io password head_len (Some k) (dc_free hs w)))"
  by pat_completeness auto

lemma get_header_len_bounds:
  assumes "get_header_len header = Inr len"
  shows "2048 \<le> len" "len \<le> DC_AREA_MAX_SIZE" "512 dvd len"
    and "DC_HDR_VERSION_2 \<le> hd_version header \<Longrightarrow> len = sint (hd_head_len header)"
  using assms by (auto simp: get_header_len_def Let_def dvd_eq_mod_eq_0 split: if_splits)

termination ReadHeader_loop
proof (relation "measure (\<lambda>(_, _, _, enc_len, _, _). nat (DC_AREA_MAX_SIZE - enc_len))", goal_cases)
  case (2 hs io password enc_len hdr_key w r w1 b b1 header k head_len)
  then show ?case using get_header_len_bounds(2) by fastforce
qed simp

declare ReadHeader_loop.simps [simp del]

text \<open>
  \<^verbatim>\<open>ReadHeader\<close>: the header and its length, the key and how it was found, and the password, which
  names the derivation function that opened the header from the first turn on.
\<close>

definition ReadHeader ::
  "'w host \<Rightarrow> 'w abs_io \<Rightarrow> dc_pass \<Rightarrow> bool \<Rightarrow> 'w world \<Rightarrow>
   (((imbox_err + buf \<times> int) \<times> read_key option \<times> dc_pass) \<times> 'w world) option" where
  "ReadHeader hs io password want_key w = do {
     ((r, k), w) \<leftarrow> ReadHeader_loop hs io password (get_read_len (io_size io (env w)) password) None w;
     let password = (case k of None \<Rightarrow> password | Some k \<Rightarrow> password\<lparr>p_kdf := rk_kdf k\<rparr>);
     (case r of
        Inl ret \<Rightarrow> Some ((Inl ret, k, password), w)
      | Inr out \<Rightarrow> Some ((Inr out, k, password), dc_free_opt hs (\<not> want_key) w)) }"

section \<open>The loop ends, and what it returns is a header\<close>

lemma get_header_len_eq:
  "get_header_len header =
     (let len = (if DC_HDR_VERSION_2 \<le> hd_version header then sint (hd_head_len header) else 2048) in
      if len < 2048 \<or> DC_AREA_MAX_SIZE < len \<or> \<not> 512 dvd len then Inl ERR_INTERNAL
      else if DC_HDR_VERSION_2 \<le> hd_version header \<and> has_slots_flag header \<and> len < int (1024 + slots_len header)
      then Inl ERR_INTERNAL
      else Inr len)"
proof -
  let ?stop = "1024 + of_nat (hd_slot_area_len header) + of_nat (hd_key_slot_count header) * of_nat (hd_slot_info_size header) :: u32"
  have e: "u32_of_int len < ?stop \<longleftrightarrow> len < int (1024 + slots_len header)" if "0 \<le> len" "len < 2 ^ 31" for len
  proof -
    have u: "n < 2 ^ 31 \<Longrightarrow> unat (of_nat n :: u32) = n" for n by (simp only: unat_of_nat) (simp add: mod_less)
    have "u32_of_int len = of_nat (nat len)" "nat len < 2 ^ 31" using that by (simp_all add: u32_of_int_def)
    then have "unat (u32_of_int len) = nat len" using u by simp
    moreover have "unat ?stop = 1024 + slots_len header"
      unfolding slots_end_u32(1) by (rule u [OF slots_end_u32(2)])
    ultimately show ?thesis using that by (simp add: word_less_nat_alt nat_less_iff)
  qed
  define len where "len = (if DC_HDR_VERSION_2 \<le> hd_version header then sint (hd_head_len header) else 2048)"
  have m: "len mod 512 \<noteq> 0 \<longleftrightarrow> \<not> 512 dvd len" by (simp only: dvd_eq_mod_eq_0)
  show ?thesis
  proof (cases "len < 2048 \<or> DC_AREA_MAX_SIZE < len \<or> \<not> 512 dvd len")
    case True
    then show ?thesis unfolding get_header_len_def Let_def of_nat_numeral len_def [symmetric] m by simp
  next
    case False
    then have "0 \<le> len" "len < 2 ^ 31" by (simp_all add: DC_AREA_MAX_SIZE_def)
    show ?thesis
      unfolding get_header_len_def Let_def of_nat_numeral len_def [symmetric] m e [OF \<open>0 \<le> len\<close> \<open>len < 2 ^ 31\<close>] by (rule refl)
  qed
qed

lemma slots_end_len:
  assumes "get_header_len header = Inr len" and "DC_HDR_VERSION_2 \<le> hd_version header" and "has_slots_flag header"
  shows "int (1024 + slots_len header) \<le> len"
  using assms by (simp add: get_header_len_eq Let_def not_less split: if_splits)

lemma cp_decrypt_header_length:
  assumes hs: "host_ok hs" and c: "cp_decrypt_header hs key header hdr_len password w = Some ((found, key', header'), w')"
    and l: "2048 \<le> length header"
  shows "length header' = length header"
proof (cases found)
  case None
  with search_sound [OF hs c] show ?thesis by simp
next
  case (Some f)
  obtain kdf r where "f = (kdf, r)" by force
  with search_sound [OF hs c] Some
  obtain plain where "length plain = 2048" "header' = hd_salt header @ drop 64 plain @ drop 2048 header"
    by (auto simp: search_ok_def opens_def)
  then show ?thesis using l by (simp add: hd_salt_def)
qed

lemma cp_copy_keylots_length: "cp_copy_keylots same h inp out = Some (c, out') \<Longrightarrow> length out' = length out"
  by (auto simp: cp_copy_keylots_def Let_def split: if_split_asm elim!: bind_SomeE dest!: copy_slots_base)

lemma dc_decrypt_tail_length:
  assumes c: "dc_decrypt_tail core enc enc_len key header = Some (Inr (len, header'))"
  shows "length header' = length header"
proof (cases "DC_HDR_VERSION_2 \<le> hd_version header")
  case v: True
  have two: "x \<bind> (\<lambda>a. y a \<bind> (\<lambda>b. Some (Inr (n, b)))) = Some (Inr (len, header') :: dc_status + int \<times> buf) \<Longrightarrow>
      \<exists>a. x = Some a \<and> y a = Some header'" for x :: "buf option" and y n
    by (auto elim!: bind_SomeE)
  show ?thesis
  proof (cases "sint (hd_head_len header) < int DC_AREA_SIZE \<or> DC_AREA_MAX_SIZE < sint (hd_head_len header)")
    case False
    from two [OF c [unfolded dc_decrypt_tail_def Let_def if_P [OF v] if_not_P [OF False]]]
    show ?thesis by (fastforce split: if_split_asm elim!: bind_SomeE dest: length_wr cp_copy_keylots_length)
  qed (use c v in \<open>simp add: dc_decrypt_tail_def\<close>)
qed (use c in \<open>simp add: dc_decrypt_tail_def\<close>)

lemma dc_alloc_length: "host_ok hs \<Longrightarrow> dc_alloc hs n w = (Some b, w') \<Longrightarrow> length b = n"
  by (auto simp: host_ok_def dc_alloc_def split: prod.split_asm option.split_asm)

lemma dc_decrypt_header_length:
  assumes hs: "host_ok hs" and n: "0 \<le> enc_len" "enc_len < 2 ^ 32"
    and c: "dc_decrypt_header hs enc enc_len password want w = Some (r, w')" and h: "dh_header r = Some header"
  shows "int (length header) = enc_len"
proof -
  have l: "\<not> enc_len < int DC_AREA_SIZE" using c h by (auto simp: dc_decrypt_header_def dh_error_def)
  obtain b w1 where a: "dc_alloc hs (ulong_of_int enc_len) w = (Some b, w1)"
    using c h l by (cases "dc_alloc hs (ulong_of_int enc_len) w"; cases "fst (dc_alloc hs (ulong_of_int enc_len) w)")
      (auto simp: dc_decrypt_header_def dh_error_def)
  obtain k w2 where k: "dc_alloc hs (h_key_size hs) w1 = (Some k, w2)"
    using c h l a by (cases "dc_alloc hs (h_key_size hs) w1"; cases "fst (dc_alloc hs (h_key_size hs) w1)")
      (auto simp: dc_decrypt_header_def dh_error_def)
  from c [unfolded dc_decrypt_header_def if_not_P [OF l] a k prod.case option.case] obtain bytes h1 found key h2 w3 where
    b: "wr b 0 bytes = Some h1"
    and s: "cp_decrypt_header hs (h_key_mem hs) h1 enc_len password w2 = Some ((found, key, h2), w3)"
    and rest: "(case found of
                     None \<Rightarrow> Some (dh_error ST_PASS_ERR, dc_free hs (dc_free hs w3))
                   | Some (kdf, r) \<Rightarrow> do {
                       t \<leftarrow> dc_decrypt_tail (h_core hs) enc enc_len key h2;
                       (case t of
                          Inl st \<Rightarrow>
                            Some ((dh_error st)\<lparr>dh_kdf := Some kdf, dh_slot := Some (o_slot r)\<rparr>, dc_free hs (dc_free hs w3))
                        | Inr (head_len, header) \<Rightarrow>
                            Some (\<lparr>dh_status = ST_OK, dh_header = Some header,
                                   dh_key = (if want then Some key else None), dh_len = Some head_len,
                                   dh_kdf = Some kdf, dh_slot = Some (o_slot r)\<rparr>, dc_free_opt hs (\<not> want) w3)) }) = Some (r, w')"
    by (elim bind_SomeE) (auto split: prod.split_asm)
  from rest h obtain hl where t: "dc_decrypt_tail (h_core hs) enc enc_len key h2 = Some (Inr (hl, header))"
    by (auto simp: dh_error_def split: option.split_asm prod.split_asm sum.split_asm elim!: bind_SomeE)
  have "length h1 = nat enc_len"
    using dc_alloc_length [OF hs a] length_wr [OF b] n by (simp add: ulong_of_int_def)
  with cp_decrypt_header_length [OF hs s] dc_decrypt_tail_length [OF t] l show ?thesis by simp
qed

definition header_fits :: "buf \<Rightarrow> int \<Rightarrow> bool" where
  "header_fits header len \<longleftrightarrow>
     2048 \<le> len \<and> len \<le> DC_AREA_MAX_SIZE \<and> 512 dvd len \<and> len \<le> int (length header) \<and>
     (DC_HDR_VERSION_2 \<le> hd_version header \<longrightarrow>
        len = sint (hd_head_len header) \<and> (has_slots_flag header \<longrightarrow> int (1024 + slots_len header) \<le> len))"

lemma cp_decrypt_header_with_key_length:
  assumes c: "cp_decrypt_header_with_key al core blob len key out = Some (ok, out')"
  shows "length out' = length out"
proof (cases "len < 2048 \<or> key = None \<or> xk_decrypt (the key) = XTS_NONE \<or> len mod 512 \<noteq> 0")
  case True
  then show ?thesis using c by (auto simp: cp_decrypt_header_with_key_def split: option.split_asm if_split_asm)
next
  case False
  then obtain k where k: "key = Some k" "\<not> len < 2048" "xk_decrypt k \<noteq> XTS_NONE" "\<not> len mod 512 \<noteq> 0" by auto
  from c obtain plain o1 salt o2 okc where w: "wr out 0 plain = Some o1" "wr o1 0 salt = Some o2"
    and rest: "(if \<not> okc then Some (False, o2)
       else do {
         out \<leftarrow> (if 2048 < len then do {
             enc \<leftarrow> rdi (if al then o2 else blob) 2048 (len - 2048);
             tail \<leftarrow> xts_decrypt core enc (u64_of_int (len - 2048)) 2048 k;
             wr o2 2048 tail } else Some o2);
         out \<leftarrow> (if has_slots_flag out then map_option snd (cp_copy_keylots True out (if al then out else blob) out)
           else Some out);
         Some (True, out) }) = Some (ok, out')"
    unfolding cp_decrypt_header_with_key_def k(1) option.case if_not_P [OF k(2)] if_not_P [OF k(3)] if_not_P [OF k(4)]
    by (elim bind_SomeE) blast
  have l2: "length o2 = length out" using w by (auto dest!: length_wr)
  show ?thesis
  proof (cases okc)
    case True
    with rest obtain o3 where
      3: "(if 2048 < len then do {
             enc \<leftarrow> rdi (if al then o2 else blob) 2048 (len - 2048);
             tail \<leftarrow> xts_decrypt core enc (u64_of_int (len - 2048)) 2048 k;
             wr o2 2048 tail } else Some o2) = Some o3"
      and 4: "(if has_slots_flag o3 then map_option snd (cp_copy_keylots True o3 (if al then o3 else blob) o3)
           else Some o3) = Some out'"
      by (auto elim!: bind_SomeE)
    have "length o3 = length o2" using 3 by (auto split: if_split_asm elim!: bind_SomeE dest: length_wr)
    moreover have "length out' = length o3" using 4 by (auto split: if_split_asm dest: cp_copy_keylots_length)
    ultimately show ?thesis using l2 by simp
  qed (use rest l2 in simp)
qed

lemma ReadHeader_turn_length:
  assumes hs: "host_ok hs" and n: "0 \<le> enc_len" "enc_len < 2 ^ 32"
    and c: "ReadHeader_turn hs io password enc_len k w = Some (Inr (header, k'), w')"
  shows "int (length header) = enc_len"
proof -
  obtain a w1 where "dc_alloc hs (ulong_of_int enc_len) w = (a, w1)" by force
  then obtain enc where a: "dc_alloc hs (ulong_of_int enc_len) w = (Some enc, w1)"
    using c by (cases a) (auto simp: ReadHeader_turn_def)
  from c [unfolded ReadHeader_turn_def a prod.case option.case] obtain enc' w2 where
    r: "pIO_DiskRead io enc enc_len w1 = Some ((True, enc'), w2)"
    by (auto elim!: bind_SomeE split: if_split_asm)
  show ?thesis
  proof (cases k)
    case None
    with c a r obtain res w3 where
      "dc_decrypt_header hs enc' enc_len password True w2 = Some (res, w3)" "dh_header res = Some header"
      by (auto simp: ReadHeader_turn_def elim!: bind_SomeE split: prod.split_asm option.split_asm dc_status.split_asm)
    then show ?thesis by (rule dc_decrypt_header_length [OF hs n])
  next
    case (Some rk)
    obtain b w3 where "dc_alloc hs (ulong_of_int enc_len) w2 = (b, w3)" by force
    then obtain h where h: "dc_alloc hs (ulong_of_int enc_len) w2 = (Some h, w3)"
      using c a r Some by (cases b) (auto simp: ReadHeader_turn_def)
    with c a r Some have "cp_decrypt_header_with_key False (h_core hs) enc' enc_len (Some (rk_key rk)) h = Some (True, header)"
      by (auto simp: ReadHeader_turn_def elim!: bind_SomeE split: if_split_asm)
    from cp_decrypt_header_with_key_length [OF this] dc_alloc_length [OF hs h] n show ?thesis
      by (simp add: ulong_of_int_def)
  qed
qed

lemma ReadHeader_turn_error: "ReadHeader_turn hs io password enc_len k w = Some (Inl ret, w') \<Longrightarrow> ret \<noteq> ERR_OK"
  unfolding ReadHeader_turn_def
  by (auto split: prod.split_asm option.split_asm if_split_asm dc_status.split_asm elim!: bind_SomeE)

lemma ReadHeader_loop_ends:
  "host_ok hs \<Longrightarrow> 0 \<le> enc_len \<Longrightarrow> enc_len < 2 ^ 32 \<Longrightarrow>
    case ReadHeader_loop hs io password enc_len k w of
      None \<Rightarrow> \<exists>n k1 w1. ReadHeader_turn hs io password n k1 w1 = None
    | Some ((Inl ret, k'), w') \<Rightarrow> ret \<noteq> ERR_OK
    | Some ((Inr (header, len), k'), w') \<Rightarrow> header_fits header len \<and> k' \<noteq> None"
proof (induction hs io password enc_len k w rule: ReadHeader_loop.induct)
  case (1 hs io password enc_len k w)
  note eq = ReadHeader_loop.simps [of hs io password enc_len k w]
  consider (none) "ReadHeader_turn hs io password enc_len k w = None"
    | (err) ret w1 where "ReadHeader_turn hs io password enc_len k w = Some (Inl ret, w1)"
    | (ok) header k1 w1 where "ReadHeader_turn hs io password enc_len k w = Some (Inr (header, k1), w1)"
    by (metis old.prod.exhaust option.exhaust sum.exhaust)
  then show ?case
  proof cases
    case none
    then show ?thesis by (auto simp: eq)
  next
    case err
    then show ?thesis using ReadHeader_turn_error [OF err] by (simp add: eq)
  next
    case ok
    have l: "int (length header) = enc_len" using ReadHeader_turn_length [OF "1.prems" ok] .
    show ?thesis
    proof (cases "get_header_len header")
      case (Inl e)
      then have "e = ERR_INTERNAL" by (auto simp: get_header_len_eq Let_def split: if_split_asm)
      then show ?thesis using ok Inl by (simp add: eq)
    next
      case (Inr len)
      note b = get_header_len_bounds [OF Inr]
      consider (fits) "len \<le> enc_len" | (big) "\<not> len \<le> enc_len" "io_size io (env w1) < u64_of_int len"
        | (again) "\<not> len \<le> enc_len" "\<not> io_size io (env w1) < u64_of_int len" by blast
      then show ?thesis
      proof cases
        case fits
        then have "header_fits header len"
          using b l slots_end_len [OF Inr] by (simp add: header_fits_def)
        then show ?thesis using ok Inr fits by (simp add: eq)
      next
        case big
        then show ?thesis using ok Inr by (simp add: eq)
      next
        case again
        have "0 \<le> len" "len < 2 ^ 32" using b(1,2) by (simp_all add: DC_AREA_MAX_SIZE_def)
        from "1.IH" [OF ok refl refl refl Inr again "1.prems"(1) this] show ?thesis using ok Inr again by (simp add: eq)
      qed
    qed
  qed
qed

lemma dc_get_min_header_len_bounds:
  "2048 \<le> dc_get_min_header_len password" "dc_get_min_header_len password < 2 ^ 15"
proof -
  define len where "len = cp_get_min_header_len password"
  have l: "2048 \<le> len" "len \<le> 23424"
    by (auto simp: len_def cp_get_min_header_len_def cp_get_key_slot_size_def Let_def)
  have "2048 \<le> (len + 511) div 512 * 512" using l(1) by linarith
  moreover have "(len + 511) div 512 * 512 < 2 ^ 15" using l(2) by simp
  ultimately show "2048 \<le> dc_get_min_header_len password" "dc_get_min_header_len password < 2 ^ 15"
    by (simp_all add: dc_get_min_header_len_def len_def)
qed

lemma get_read_len_bounds: "0 \<le> get_read_len uSize password" "get_read_len uSize password < 2 ^ 32"
proof -
  note l = dc_get_min_header_len_bounds [of password]
  have "0 \<le> get_read_len uSize password \<and> get_read_len uSize password < 2 ^ 32"
  proof (cases "uSize < u64_of_int (dc_get_min_header_len password)")
    case True
    have "uint (u64_of_int (dc_get_min_header_len password)) = dc_get_min_header_len password"
      using l by (simp add: u64_of_int_def uint_word_of_int)
    then have "uint uSize < 2 ^ 15" using True l(2) by (simp add: word_less_def)
    moreover have "uSize div 512 * 512 \<le> uSize" by (rule word_div_mult_le)
    then have "uint (uSize div 512 * 512) \<le> uint uSize" by (simp only: word_le_def)
    ultimately have "uint (uSize div 512 * 512) < 2 ^ 15" by simp
    moreover have s: "0 \<le> k \<Longrightarrow> k < 2 ^ 15 \<Longrightarrow> sint (word_of_int k :: u32) = k" for k
      by (simp add: signed_of_int signed_take_bit_int_eq_self)
    moreover have "uint x < 2 ^ 15 \<Longrightarrow> sint (ucast x :: u32) = uint x" for x :: u64
      unfolding ucast_eq by (rule s [OF uint_ge_0])
    ultimately have "sint (ucast (uSize div 512 * 512) :: u32) = uint (uSize div 512 * 512)" by blast
    then show ?thesis using True \<open>uint (uSize div 512 * 512) < 2 ^ 15\<close> by (simp add: get_read_len_def Let_def)
  qed (use l in \<open>simp add: get_read_len_def Let_def\<close>)
  then show "0 \<le> get_read_len uSize password" "get_read_len uSize password < 2 ^ 32" by simp_all
qed


text \<open>An image of 4096 bytes whose header is \<open>slots_header\<close>.\<close>

definition header_io :: "buf \<Rightarrow> unit abs_io" where
  "header_io h = \<lparr>io_init = \<lambda>w. Some (ERR_OK, w), io_size = \<lambda>w. 4096, io_format = \<lambda>w. False,
     io_read = \<lambda>n off w. Some ((True, take n (drop off h)), w), io_write = \<lambda>b off w. Some (True, w),
     io_trim = \<lambda>r w. Some w\<rparr>"

lemma overlay_self [simp]: "overlay P a a = a"
  by (intro nth_equalityI) auto

lemma slots_header_tail: "dc_decrypt_tail core slots_header 2048 key slots_header = Some (Inr (2048, slots_header))"
proof -
  note f = slots_header_facts
  obtain a where "cp_copy_keylots True slots_header slots_header slots_header = Some (a, slots_header)"
    using cp_copy_keylots_read [of slots_header slots_header] f by (auto simp: slots_len_def)
  then show ?thesis
    using f by (simp add: dc_decrypt_tail_def DC_HDR_VERSION_2_def DC_AREA_MAX_SIZE_def)
qed

lemma slots_header_opens:
  "\<exists>k' w'. cp_decrypt_header host_ex key_mem slots_header 2048 raw_pass w =
    Some ((Some (-1, \<lparr>o_dk = replicate 192 0, o_slot = 0\<rparr>), k', slots_header), w')"
  using slots_header_facts by (intro host_ex_opens_header)


end
