(* ===== verification/Imbox_Crypto.thy ===== *)
theory Imbox_Crypto
  imports Imbox_Open Volume_Head
begin

unbundle bit_operations_syntax

text \<open>
  The operations on an encrypted image, \<^verbatim>\<open>ImBox/CryptoIO.cpp\<close>: creating and opening it, changing
  passwords and slots, saving and restoring the header, and the two halves of the header editor. The
  section shared with the caller and the files of a backup are explicit.
\<close>

section \<open>What the caller is told\<close>

record crypt_info =
  ci_cipher_id :: u8
  ci_version :: u16
  ci_head_len :: u32
  ci_slot_count :: int
  ci_head_kdf :: int
  ci_disk_id :: u32
  ci_used_slot :: int

text \<open>
  The shared section behind its first kilobyte: \<^verbatim>\<open>out.info\<close>, and the data area of 3 KiB without its two
  leading shorts. Behind it comes the header data of the editor.
\<close>

record section_mem =
  sec_info :: crypt_info
  sec_id :: u16
  sec_size :: u16
  sec_data :: buf

record header_data =
  shd_size :: u32
  shd_flags :: u32
  shd_head_len :: u32
  shd_reserved :: u32
  shd_data :: buf

record shared_mem =
  sh_section :: section_mem
  sh_header :: header_data

definition sizeof_SSection :: nat where "sizeof_SSection = 4096"
definition sizeof_SHeaderData :: nat where "sizeof_SHeaderData = 16"
definition sizeof_SSlotInfo :: nat where "sizeof_SSlotInfo = 27"
definition sizeof_dc_pass :: nat where "sizeof_dc_pass = 384"
definition sizeof_dc_slot_info :: nat where "sizeof_dc_slot_info = 32"

definition SECTION_PARAM_ID_SLOTS :: u16 where "SECTION_PARAM_ID_SLOTS = 2"
definition SECTION_PARAM_ID_HEADER :: u16 where "SECTION_PARAM_ID_HEADER = 3"

definition SECTION_SIZE_FOR_HEADER :: "u32 \<Rightarrow> nat" where
  "SECTION_SIZE_FOR_HEADER len = sizeof_SSection + sizeof_SHeaderData + unat len"

definition FillCryptInfo :: "crypt_info \<Rightarrow> buf \<Rightarrow> int \<Rightarrow> int \<Rightarrow> int \<Rightarrow> crypt_info" where
  "FillCryptInfo pInfo header head_len kdf slot =
     pInfo\<lparr>ci_cipher_id := word_of_int (hd_alg_1 header), ci_head_kdf := kdf, ci_version := hd_version header,
       ci_head_len := u32_of_int head_len,
       ci_slot_count := (if cp_has_key_slots header then int (hd_key_slot_count header) else 0),
       ci_disk_id := fld_u32 header 78, ci_used_slot := slot\<rparr>"

text \<open>One \<^verbatim>\<open>SSlotInfo\<close>: flags, type, derivation function and name of a descriptor.\<close>

definition report_slot :: "buf \<Rightarrow> nat \<Rightarrow> buf \<Rightarrow> buf option" where
  "report_slot header i data = do {
     (st, info) \<leftarrow> cp_get_slot_info header (int i) [];
     if st \<noteq> ST_OK then Some data
     else do {
       flags \<leftarrow> rd info 4 4;
       type \<leftarrow> rd info 8 2;
       kdf \<leftarrow> rd info 30 1;
       name \<leftarrow> rd info 10 20;
       wr data (sizeof_SSlotInfo * i) (flags @ type @ kdf @ name) } }"

fun report_slots :: "buf \<Rightarrow> nat list \<Rightarrow> buf \<Rightarrow> buf option" where
  "report_slots header [] data = Some data"
| "report_slots header (i # is) data = do {
     data \<leftarrow> report_slot header i data;
     report_slots header is data }"

definition ReportVolumeInfo :: "section_mem option \<Rightarrow> buf \<Rightarrow> int \<Rightarrow> int \<Rightarrow> int \<Rightarrow> section_mem option option" where
  "ReportVolumeInfo s header head_len kdf slot =
     (case s of
        None \<Rightarrow> Some None
      | Some s \<Rightarrow>
          (let s = s\<lparr>sec_info := FillCryptInfo (sec_info s) header head_len kdf slot\<rparr> in
           if \<not> cp_has_key_slots header then Some (Some s)
           else
             (let capacity = (3072 - 2 * 2) div sizeof_SSlotInfo;
                  count = min (hd_key_slot_count header) capacity in do {
                data \<leftarrow> wr (sec_data s) 0 (replicate (count * sizeof_SSlotInfo) 0);
                data \<leftarrow> report_slots header [0..<count] data;
                Some (Some (s\<lparr>sec_data := data, sec_id := SECTION_PARAM_ID_SLOTS,
                              sec_size := of_nat (count * sizeof_SSlotInfo)\<rparr>)) })))"

section \<open>The object\<close>

text \<open>
  \<^verbatim>\<open>SCryptoIO\<close>; a wide string is its UTF-16 units. The buffer of the password may have failed to be
  allocated.
\<close>

record crypto_obj =
  m_Cipher :: "u16 list"
  m_SlotCount :: int
  m_AllowFormat :: bool
  m_hdr_len :: int
  m_password :: "dc_pass option"
  m_benc_k :: xts_key
  m_section :: "section_mem option"

definition CRYPTO_SLOTS_DEFAULT :: int where "CRYPTO_SLOTS_DEFAULT = -1"

definition CCryptoIO_new :: "'w host \<Rightarrow> dc_pass \<Rightarrow> u16 list \<Rightarrow> int \<Rightarrow> 'w world \<Rightarrow> crypto_obj \<times> 'w world" where
  "CCryptoIO_new hs pass Cipher SlotCount w =
     (case dc_alloc hs sizeof_dc_pass w of (p, w) \<Rightarrow>
        (\<lparr>m_Cipher = Cipher, m_SlotCount = SlotCount, m_AllowFormat = False, m_hdr_len = int DC_AREA_SIZE,
          m_password = (if p = None then None else Some pass), m_benc_k = h_key_mem hs, m_section = None\<rparr>, w))"

definition CCryptoIO_delete :: "'w host \<Rightarrow> crypto_obj \<Rightarrow> 'w world \<Rightarrow> 'w world" where
  "CCryptoIO_delete hs m w = dc_free_opt hs (m_password m \<noteq> None) w"

definition SetDataSection :: "crypto_obj \<Rightarrow> section_mem option \<Rightarrow> crypto_obj" where
  "SetDataSection m s = m\<lparr>m_section := s\<rparr>"

section \<open>Writing the header\<close>

text \<open>The buffers of the caller hold the header; its new salt stays in it, and the callers drop it.\<close>

definition seal_and_write ::
  "'w host \<Rightarrow> 'w abs_io \<Rightarrow> buf \<Rightarrow> int \<Rightarrow> xts_key \<Rightarrow> 'w world \<Rightarrow> (imbox_err \<times> 'w world) option" where
  "seal_and_write hs io header len key w = do {
     ((st, enc), w) \<leftarrow> dc_encrypt_header hs header len key w;
     (case (st, enc) of
        (ST_OK, Some enc_header) \<Rightarrow> do {
          (ok, w) \<leftarrow> pIO_DiskWrite io enc_header len w;
          Some (if ok then ERR_OK else ERR_IO_FAILED, dc_free hs w) }
      | _ \<Rightarrow> Some (ERR_INTERNAL, w)) }"

text \<open>A fresh salt and the key the password derives over it.\<close>

definition fresh_key ::
  "'w host \<Rightarrow> buf \<Rightarrow> dc_pass \<Rightarrow> 'w world \<Rightarrow> ((xts_key option \<times> buf) \<times> 'w world) option" where
  "fresh_key hs header password w = do {
     (header, w) \<leftarrow> dc_rand_at hs header 0 HEADER_SALT_SIZE w;
     ((set, own_key), w) \<leftarrow> cp_set_header_key hs (h_key_mem hs) (hd_salt header) (hd_alg_1 header) password w;
     Some ((if set then Some own_key else None, header), w) }"

definition WriteHeader ::
  "'w host \<Rightarrow> 'w abs_io \<Rightarrow> crypto_obj \<Rightarrow> buf \<Rightarrow> xts_key option \<Rightarrow> 'w world \<Rightarrow> (imbox_err \<times> 'w world) option" where
  "WriteHeader hs io m header hdr_key w =
     (case hdr_key of
        Some key \<Rightarrow> seal_and_write hs io header (m_hdr_len m) key w
      | None \<Rightarrow>
          (case m_password m of
             None \<Rightarrow> Some (ERR_KEY_REQUIRED, w)
           | Some password \<Rightarrow>
               if p_size password = 0 then Some (ERR_KEY_REQUIRED, w)
               else do {
                 ((key, header), w) \<leftarrow> fresh_key hs header password w;
                 (case key of
                    None \<Rightarrow> Some (ERR_INTERNAL, w)
                  | Some key \<Rightarrow> seal_and_write hs io header (m_hdr_len m) key w) }))"

section \<open>Creating an image\<close>

definition towlower :: "u16 \<Rightarrow> u16" where "towlower c = (if 0x41 \<le> c \<and> c \<le> 0x5A then c + 0x20 else c)"
definition wcsicmp_eq :: "u16 list \<Rightarrow> string \<Rightarrow> bool" where
  "wcsicmp_eq s t \<longleftrightarrow> map towlower s = map (\<lambda>c. towlower (of_char c)) t"

definition cipher_of_name :: "u16 list \<Rightarrow> int option" where
  "cipher_of_name c =
     (if c = [] \<or> wcsicmp_eq c ''AES'' \<or> wcsicmp_eq c ''Rijndael'' then Some 0
      else if wcsicmp_eq c ''TWOFISH'' then Some 1
      else if wcsicmp_eq c ''SERPENT'' then Some 2
      else if wcsicmp_eq c ''AES-TWOFISH'' then Some 3
      else if wcsicmp_eq c ''TWOFISH-SERPENT'' then Some 4
      else if wcsicmp_eq c ''SERPENT-AES'' then Some 5
      else if wcsicmp_eq c ''AES-TWOFISH-SERPENT'' then Some 6
      else None)"

definition KEY_SLOT_COUNT :: int where "KEY_SLOT_COUNT = 4"
definition KEY_SLOT_MAX :: int where "KEY_SLOT_MAX = 100"
definition KDF_ARGON_DEFAULT :: int where "KDF_ARGON_DEFAULT = 5"
definition KDF_ARGON_MAX :: int where "KDF_ARGON_MAX = 10"
definition VF_NO_REDIR :: u32 where "VF_NO_REDIR = 8"

text \<open>A derivation function to create with: a search order becomes the default choice.\<close>

definition create_kdf :: "int \<Rightarrow> int option" where
  "create_kdf kdf =
     (if kdf < 0 then if kdf \<noteq> KDF_DEFAULT then None else Some KDF_ARGON_DEFAULT
      else if KDF_ARGON_MAX < kdf then None
      else Some kdf)"

definition wr_u16 :: "buf \<Rightarrow> nat \<Rightarrow> u16 \<Rightarrow> buf option" where
  "wr_u16 b off v = wr b off (le_bytes 2 (unat v))"

text \<open>The fields of the new header, in the order the code sets them.\<close>

definition new_header ::
  "'w host \<Rightarrow> int \<Rightarrow> int \<Rightarrow> int \<Rightarrow> int \<Rightarrow> buf \<Rightarrow> 'w world \<Rightarrow> (buf \<times> 'w world) option" where
  "new_header hs hdr_len cipher kdf slot_count header w =
     (let slot_size = int (cp_get_key_slot_size 0) in do {
      header \<leftarrow> wr header 0 (replicate (nat hdr_len) 0);
      (header, w) \<leftarrow> dc_rand_at hs header 78 4 w;
      (header, w) \<leftarrow> dc_rand_at hs header 86 256 w;
      header \<leftarrow> wr_u32 header 64 DC_VOLUME_SIGN;
      header \<leftarrow> wr_u16 header 72 DC_HDR_VERSION_2;
      header \<leftarrow> wr_u32 header 74 VF_NO_REDIR;
      header \<leftarrow> wr_u32 header 82 (u32_of_int cipher);
      header \<leftarrow> wr header 634 [word_of_int kdf];
      header \<leftarrow> wr header 602 (le_bytes 8 (nat hdr_len));
      header \<leftarrow> wr_u32 header 614 (u32_of_int hdr_len);
      if 0 < slot_count then do {
        header \<leftarrow> wr_u32 header 628 (hd_feature_flags header OR FF_KEY_SLOTS);
        header \<leftarrow> wr header 637 [word_of_int slot_count];
        header \<leftarrow> wr_u16 header 635 (word_of_int (slot_count * slot_size));
        header \<leftarrow> wr_u16 header 638 (of_nat sizeof_dc_slot_info);
        dc_rand_at hs header DC_BASE_SIZE (hd_slot_area_len header) w }
      else Some (header, w) })"

definition CreateHeader ::
  "'w host \<Rightarrow> 'w abs_io \<Rightarrow> crypto_obj \<Rightarrow> 'w world \<Rightarrow> ((imbox_err \<times> crypto_obj) \<times> 'w world) option" where
  "CreateHeader hs io m w =
     (let m = m\<lparr>m_hdr_len := 64 * 1024\<rparr> in
      case cipher_of_name (m_Cipher m) of
        None \<Rightarrow> Some ((ERR_UNKNOWN_CIPHER, m), w)
      | Some cipher \<Rightarrow> do {
          password \<leftarrow> m_password m;
          (case create_kdf (p_kdf password) of
             None \<Rightarrow> Some ((ERR_INVALID_PARAM, m), w)
           | Some kdf \<Rightarrow>
               (let m = m\<lparr>m_password := Some (password\<lparr>p_kdf := kdf\<rparr>)\<rparr>;
                    slot_count = (if m_SlotCount m = CRYPTO_SLOTS_DEFAULT then KEY_SLOT_COUNT else m_SlotCount m);
                    slot_size = int (cp_get_key_slot_size 0) in
                if slot_count < 0 \<or> KEY_SLOT_MAX < slot_count then Some ((ERR_INVALID_PARAM, m), w)
                else if m_hdr_len m < int DC_BASE_SIZE + slot_count * (slot_size + int sizeof_dc_slot_info)
                then Some ((ERR_INVALID_PARAM, m), w)
                else
                  (case dc_alloc hs (ulong_of_int (m_hdr_len m)) w of
                     (None, w) \<Rightarrow> Some ((ERR_MALLOC_ERROR, m), w)
                   | (Some header, w) \<Rightarrow> do {
                       (header, w) \<leftarrow> new_header hs (m_hdr_len m) cipher kdf slot_count header w;
                       (ret, w) \<leftarrow> WriteHeader hs io m header None w;
                       Some ((ret, m), dc_free hs w) }))) })"

section \<open>Opening an image\<close>

definition InitCrypto ::
  "'w host \<Rightarrow> 'w abs_io \<Rightarrow> crypto_obj \<Rightarrow> 'w world \<Rightarrow> ((imbox_err \<times> crypto_obj) \<times> 'w world) option" where
  "InitCrypto hs io m w =
     (case m_password m of
        None \<Rightarrow> Some ((ERR_KEY_REQUIRED, m), w)
      | Some _ \<Rightarrow> do {
          let m = m\<lparr>m_AllowFormat := io_format io (env w)\<rparr>;
          ((ret, m), w) \<leftarrow> (if m_AllowFormat m then CreateHeader hs io m w else Some ((ERR_OK, m), w));
          if ret \<noteq> ERR_OK then Some ((ret, m), w)
          else do {
            password \<leftarrow> m_password m;
            ((r, k, password), w) \<leftarrow> ReadHeader hs io password False w;
            let m = m\<lparr>m_password := Some password\<rparr>;
            (case (r, k) of
               (Inr (header, head_len), Some k) \<Rightarrow>
                 if io_size io (env w) \<le> u64_of_int head_len then Some ((ERR_INTERNAL, m), dc_free hs w)
                 else do {
                   key_1 \<leftarrow> rd header 86 256;
                   (_, benc_k) \<leftarrow> xts_set_key key_1 (hd_alg_1 header) (m_benc_k m);
                   section \<leftarrow> ReportVolumeInfo (m_section m) header head_len (rk_kdf k) (int (rk_slot k));
                   Some ((ERR_OK, m\<lparr>m_benc_k := benc_k, m_hdr_len := head_len, m_section := section\<rparr>), dc_free hs w) }
             | (Inl ret, _) \<Rightarrow>
                 Some ((if m_AllowFormat m \<and> ret = ERR_WRONG_PASSWORD then ERR_INTERNAL else ret, m), w)
             | _ \<Rightarrow> None) } })"

definition CCryptoIO_Init ::
  "'w host \<Rightarrow> 'w abs_io option \<Rightarrow> crypto_obj \<Rightarrow> 'w world \<Rightarrow> ((imbox_err \<times> crypto_obj) \<times> 'w world) option" where
  "CCryptoIO_Init hs pIO m w = do {
     (ret, w) \<leftarrow> (case pIO of None \<Rightarrow> Some (ERR_UNKNOWN_TYPE, w) | Some io \<Rightarrow> pIO_Init io w);
     ((ret, m), w) \<leftarrow>
       (case pIO of
          Some io \<Rightarrow> if ret = ERR_OK then InitCrypto hs io m w else Some ((ret, m), w)
        | None \<Rightarrow> Some ((ret, m), w));
     Some ((ret, m\<lparr>m_password := None\<rparr>), dc_free_opt hs (m_password m \<noteq> None) w) }"

section \<open>Passwords and key slots\<close>

text \<open>
  What \<^verbatim>\<open>ChangePassword\<close> does to the opened header: the status, the header, the object with the password
  \<open>WriteHeader\<close> may derive from, and the key to seal with. The last flag says whether that key was
  allocated here.
\<close>

definition change_slot ::
  "'w host \<Rightarrow> buf \<Rightarrow> dc_pass \<Rightarrow> dc_pass \<Rightarrow> 'w world \<Rightarrow> ((imbox_err \<times> buf) \<times> 'w world) option" where
  "change_slot hs header password new_password w =
     (if \<not> cp_has_key_slots header then Some ((ERR_INVALID_PARAM, header), w)
      else if p_slot new_password < 1 \<or> int (hd_key_slot_count header) < p_slot new_password
      then Some ((ERR_INVALID_PARAM, header), w)
      else do {
        ((st, header), w) \<leftarrow>
          (if p_size new_password = 0
           then cp_set_slot hs header (p_slot new_password - 1) CP_SLOT_CLEAR CP_SLOT_RANDOM 0 w
           else dc_change_slot_pass hs header password new_password w);
        Some ((st_to_err st, header), w) })"

definition change_header_pass ::
  "'w host \<Rightarrow> buf \<Rightarrow> dc_pass \<Rightarrow> dc_pass \<Rightarrow> 'w world \<Rightarrow>
   ((imbox_err \<times> buf \<times> xts_key option) \<times> 'w world) option" where
  "change_header_pass hs header password new_password w = do {
     ((st, header, new_key), w) \<leftarrow>
       (if cp_has_key_slots header then dc_update_key_slots hs header password new_password w
        else Some ((ST_OK, header, None), w));
     if st_to_err st \<noteq> ERR_OK then Some ((st_to_err st, header, new_key), w)
     else do {
       header \<leftarrow> (if DC_HDR_VERSION_2 \<le> hd_version header then wr header 634 [word_of_int (p_kdf new_password)] else Some header);
       Some ((ERR_OK, header, new_key), w) } }"

definition ChangePassword ::
  "'w host \<Rightarrow> 'w abs_io option \<Rightarrow> crypto_obj \<Rightarrow> dc_pass \<Rightarrow> 'w world \<Rightarrow>
   ((imbox_err \<times> crypto_obj) \<times> 'w world) option" where
  "ChangePassword hs pIO m new_pass w =
     (case pIO of
        None \<Rightarrow> Some ((ERR_UNKNOWN_TYPE, m), w)
      | Some io \<Rightarrow> do {
          (ret, w) \<leftarrow> pIO_Init io w;
          if ret \<noteq> ERR_OK then Some ((ret, m), w)
          else
            (case m_password m of
               None \<Rightarrow> Some ((ERR_KEY_REQUIRED, m), w)
             | Some password \<Rightarrow>
                 if p_size new_pass = 0 \<and> p_slot new_pass = 0 then Some ((ERR_INVALID_PARAM, m), w)
                 else if p_kdf new_pass < 0 \<or> KDF_ARGON_MAX < p_kdf new_pass then Some ((ERR_INVALID_PARAM, m), w)
                 else do {
                   ((r, k, password), w) \<leftarrow> ReadHeader hs io password True w;
                   let m = m\<lparr>m_password := Some password\<rparr>;
                   (case (r, k) of
                      (Inl ret, _) \<Rightarrow> Some ((ret, m), w)
                    | (Inr (header, head_len), Some k) \<Rightarrow>
                        (let m = m\<lparr>m_hdr_len := head_len\<rparr> in
                         case dc_alloc hs sizeof_dc_pass w of
                           (None, w) \<Rightarrow> Some ((ERR_MALLOC_ERROR, m), dc_free hs (dc_free hs w))
                         | (Some _, w) \<Rightarrow>
                             if rk_slot k \<noteq> 0
                             then Some ((ERR_INVALID_PARAM, m), dc_free hs (dc_free hs (dc_free hs w)))
                             else if p_slot new_pass \<noteq> 0 then do {
                               ((ret, header), w) \<leftarrow> change_slot hs header password new_pass w;
                               (ret, w) \<leftarrow>
                                 (if ret \<noteq> ERR_OK then Some (ret, w) else WriteHeader hs io m header (Some (rk_key k)) w);
                               Some ((ret, m), dc_free hs (dc_free hs (dc_free hs w))) }
                             else do {
                               ((ret, header, new_key), w) \<leftarrow> change_header_pass hs header password new_pass w;
                               if ret \<noteq> ERR_OK
                               then Some ((ret, m), dc_free hs (dc_free hs (dc_free hs (dc_free_opt hs (new_key \<noteq> None) w))))
                               else do {
                                 let m = m\<lparr>m_password := Some new_pass\<rparr>;
                                 (ret, w) \<leftarrow> WriteHeader hs io m header new_key w;
                                 Some ((ret, m), dc_free hs (dc_free hs (dc_free hs (dc_free_opt hs (new_key \<noteq> None) w)))) } })
                    | _ \<Rightarrow> None) }) })"

section \<open>Saving and restoring the header\<close>

text \<open>
  The calls to the system behind \<^verbatim>\<open>WriteHeaderFile\<close> and \<^verbatim>\<open>ReadHeaderFile\<close>: opening a file says whether
  there is a handle, a write how many bytes went out, a read returns the bytes that came in.
\<close>

record 'w file_api =
  CreateFile_write :: "u16 list \<Rightarrow> 'w \<Rightarrow> bool \<times> 'w"
  CreateFile_read :: "u16 list \<Rightarrow> 'w \<Rightarrow> bool \<times> 'w"
  WriteFile :: "buf \<Rightarrow> 'w \<Rightarrow> (bool \<times> nat) \<times> 'w"
  ReadFile :: "nat \<Rightarrow> 'w \<Rightarrow> (bool \<times> buf) \<times> 'w"
  GetFileSizeEx :: "'w \<Rightarrow> (bool \<times> int) \<times> 'w"
  CloseHandle :: "'w \<Rightarrow> 'w"

definition WriteHeaderFile ::
  "'w file_api \<Rightarrow> u16 list \<Rightarrow> buf \<Rightarrow> int \<Rightarrow> 'w world \<Rightarrow> (imbox_err \<times> 'w world) option" where
  "WriteHeaderFile api path data len w =
     (case CreateFile_write api path (env w) of (opened, e) \<Rightarrow>
        if \<not> opened then Some (ERR_FILE_NOT_OPENED, w\<lparr>env := e\<rparr>)
        else do {
          bs \<leftarrow> rdi data 0 len;
          (case WriteFile api bs e of ((ok, BytesWritten), e) \<Rightarrow>
             Some (if \<not> ok \<or> int BytesWritten \<noteq> len then ERR_FILE_NOT_OPENED else ERR_OK, w\<lparr>env := CloseHandle api e\<rparr>)) })"

definition ReadHeaderFile ::
  "'w host \<Rightarrow> 'w file_api \<Rightarrow> u16 list \<Rightarrow> 'w world \<Rightarrow> ((imbox_err + buf \<times> int) \<times> 'w world) option" where
  "ReadHeaderFile hs api path w =
     (case CreateFile_read api path (env w) of (opened, e) \<Rightarrow>
        if \<not> opened then Some (Inl ERR_FILE_NOT_OPENED, w\<lparr>env := e\<rparr>)
        else
          (case GetFileSizeEx api e of ((ok, sz), e) \<Rightarrow>
             if \<not> ok \<or> sz < int DC_AREA_SIZE \<or> DC_AREA_MAX_SIZE < sz \<or> sz mod XTS_SECTOR \<noteq> 0
             then Some (Inl ERR_FILE_NOT_OPENED, w\<lparr>env := CloseHandle api e\<rparr>)
             else
               (case dc_alloc hs (ulong_of_int sz) (w\<lparr>env := e\<rparr>) of
                  (None, w) \<Rightarrow> Some (Inl ERR_MALLOC_ERROR, w\<lparr>env := CloseHandle api (env w)\<rparr>)
                | (Some data, w) \<Rightarrow>
                    (case ReadFile api (nat sz) (env w) of ((ok, bs), e) \<Rightarrow>
                       if \<not> ok \<or> int (length bs) \<noteq> sz
                       then (let w = dc_free hs (w\<lparr>env := e\<rparr>) in Some (Inl ERR_FILE_NOT_OPENED, w\<lparr>env := CloseHandle api (env w)\<rparr>))
                       else do {
                         data \<leftarrow> wr data 0 bs;
                         Some (Inr (data, sz), w\<lparr>env := CloseHandle api e\<rparr>) }))))"

definition BackupHeader ::
  "'w host \<Rightarrow> 'w file_api \<Rightarrow> 'w abs_io \<Rightarrow> u16 list \<Rightarrow> dc_pass \<Rightarrow> 'w world \<Rightarrow> (imbox_err \<times> 'w world) option" where
  "BackupHeader hs api io path pass w = do {
     (ret, w) \<leftarrow> pIO_Init io w;
     if ret \<noteq> ERR_OK then Some (ret, w)
     else
       (case dc_alloc hs sizeof_dc_pass w of
          (None, w) \<Rightarrow> Some (ERR_MALLOC_ERROR, w)
        | (Some _, w) \<Rightarrow> do {
            ((r, k, password), w) \<leftarrow> ReadHeader hs io pass True w;
            (case (r, k) of
               (Inl ret, _) \<Rightarrow> Some (ret, dc_free hs w)
             | (Inr (header, head_len), Some k) \<Rightarrow> do {
                 ((ret, bak_key, own, header), w) \<leftarrow>
                   (if cp_has_key_slots header then Some ((ERR_OK, Some (rk_key k), False, header), w)
                    else if rk_slot k \<noteq> 0 then Some ((ERR_INVALID_PARAM, None, False, header), w)
                    else
                      (case dc_alloc hs (h_key_size hs) w of
                         (None, w) \<Rightarrow> Some ((ERR_MALLOC_ERROR, None, False, header), w)
                       | (Some _, w) \<Rightarrow> do {
                           ((key, header), w) \<leftarrow> fresh_key hs header password w;
                           Some ((if key = None then ERR_INTERNAL else ERR_OK, key, True, header), w) }));
                 (ret, w) \<leftarrow>
                   (case (ret, bak_key) of
                      (ERR_OK, Some key) \<Rightarrow> do {
                        ((st, enc), w) \<leftarrow> dc_encrypt_header hs header head_len key w;
                        (case (st, enc) of
                           (ST_OK, Some enc) \<Rightarrow> do {
                             (ret, w) \<leftarrow> WriteHeaderFile api path enc head_len w;
                             Some (ret, dc_free hs w) }
                         | _ \<Rightarrow> Some (ERR_INTERNAL, w)) }
                    | _ \<Rightarrow> Some (ret, w));
                 Some (ret, dc_free_opt hs own (dc_free hs (dc_free hs (dc_free hs w)))) }
             | _ \<Rightarrow> None) }) }"

definition RestoreHeader ::
  "'w host \<Rightarrow> 'w file_api \<Rightarrow> 'w abs_io \<Rightarrow> u16 list \<Rightarrow> dc_pass \<Rightarrow> 'w world \<Rightarrow> (imbox_err \<times> 'w world) option" where
  "RestoreHeader hs api io path pass w = do {
     (ret, w) \<leftarrow> pIO_Init io w;
     if ret \<noteq> ERR_OK then Some (ret, w)
     else
       (case dc_alloc hs sizeof_dc_pass w of
          (None, w) \<Rightarrow> Some (ERR_MALLOC_ERROR, w)
        | (Some _, w) \<Rightarrow> do {
            (f, w) \<leftarrow> ReadHeaderFile hs api path w;
            (case f of
               Inl ret \<Rightarrow> Some (ret, dc_free hs w)
             | Inr (enc_header, enc_len) \<Rightarrow> do {
                 (r, w) \<leftarrow> dc_decrypt_header hs enc_header enc_len pass True w;
                 (case (dh_status r, dh_header r, dh_key r, dh_kdf r, dh_slot r) of
                    (ST_OK, Some header, Some bak_key, Some kdf, Some slot) \<Rightarrow> do {
                      let password = pass\<lparr>p_kdf := kdf\<rparr>;
                      (ret, w) \<leftarrow>
                        (case get_header_len header of
                           Inl ret \<Rightarrow> Some (ret, w)
                         | Inr head_len \<Rightarrow>
                             if enc_len < head_len then Some (ERR_INTERNAL, w)
                             else if io_size io (env w) \<le> u64_of_int head_len then Some (ERR_INTERNAL, w)
                             else if cp_has_key_slots header then seal_and_write hs io header head_len bak_key w
                             else if slot \<noteq> 0 then Some (ERR_INVALID_PARAM, w)
                             else do {
                               ((key, header), w) \<leftarrow> fresh_key hs header password w;
                               (case key of
                                  None \<Rightarrow> Some (ERR_INTERNAL, w)
                                | Some key \<Rightarrow> seal_and_write hs io header head_len key w) });
                      Some (ret, dc_free hs (dc_free hs (dc_free hs (dc_free hs w)))) }
                  | _ \<Rightarrow> Some (ERR_WRONG_PASSWORD, dc_free hs (dc_free hs w))) }) }) }"

section \<open>The header editor\<close>

definition GetHeader ::
  "'w host \<Rightarrow> 'w abs_io \<Rightarrow> shared_mem option \<Rightarrow> nat \<Rightarrow> dc_pass \<Rightarrow> 'w world \<Rightarrow>
   ((imbox_err \<times> shared_mem option) \<times> 'w world) option" where
  "GetHeader hs io pSection uSecSize pass w =
     (case pSection of
        None \<Rightarrow> Some ((ERR_INVALID_PARAM, pSection), w)
      | Some sh \<Rightarrow>
          if uSecSize < sizeof_SSection + sizeof_SHeaderData then Some ((ERR_INVALID_PARAM, pSection), w)
          else do {
            (ret, w) \<leftarrow> pIO_Init io w;
            if ret \<noteq> ERR_OK then Some ((ret, pSection), w)
            else
              (case dc_alloc hs sizeof_dc_pass w of
                 (None, w) \<Rightarrow> Some ((ERR_MALLOC_ERROR, pSection), w)
               | (Some _, w) \<Rightarrow> do {
                   ((r, k, password), w) \<leftarrow> ReadHeader hs io pass False w;
                   (case (r, k) of
                      (Inl ret, _) \<Rightarrow> Some ((ret, pSection), dc_free hs w)
                    | (Inr (header, head_len), Some k) \<Rightarrow>
                        (let sh = sh\<lparr>sh_header := (sh_header sh)\<lparr>shd_size := 0, shd_head_len := u32_of_int head_len,
                                     shd_flags := 0, shd_reserved := 0\<rparr>,
                                   sh_section := (sh_section sh)\<lparr>sec_info :=
                                     FillCryptInfo (sec_info (sh_section sh)) header head_len (rk_kdf k) (int (rk_slot k))\<rparr>\<rparr> in
                         if uSecSize < SECTION_SIZE_FOR_HEADER (u32_of_int head_len)
                         then Some ((ERR_BUFFER_TO_SMALL, Some sh), dc_free hs (dc_free hs w))
                         else do {
                           bs \<leftarrow> rdi header 0 head_len;
                           data \<leftarrow> wr (shd_data (sh_header sh)) 0 bs;
                           Some ((ERR_OK, Some (sh\<lparr>sh_header := (sh_header sh)\<lparr>shd_data := data, shd_size := u32_of_int head_len\<rparr>,
                                    sh_section := (sh_section sh)\<lparr>sec_id := SECTION_PARAM_ID_HEADER, sec_size := 0\<rparr>\<rparr>)),
                                 dc_free hs (dc_free hs w)) })
                    | _ \<Rightarrow> None) }) })"

text \<open>The flags of an update: clearing the slots writes them, and nothing named is everything.\<close>

definition update_flags :: "u32 \<Rightarrow> u32" where
  "update_flags flags =
     (let flags = flags AND (HF_UPDATE_ALL OR HF_CLEAR_SLOTS);
          flags = (if flag flags HF_CLEAR_SLOTS then flags OR HF_UPDATE_SLOTS else flags) in
      if flags AND HF_UPDATE_ALL = 0 then flags OR HF_UPDATE_ALL else flags)"

text \<open>The base of the update in the clear, with the salt of the volume.\<close>

definition open_update :: "aes_core \<Rightarrow> xts_key \<Rightarrow> buf \<Rightarrow> buf \<Rightarrow> buf \<Rightarrow> buf option" where
  "open_update core hdr_key header blob upd = do {
     area \<leftarrow> rd blob 0 DC_AREA_SIZE;
     upd \<leftarrow> wr upd 0 area;
     plain \<leftarrow> xts_decrypt core upd 2048 0 hdr_key;
     upd \<leftarrow> wr upd 0 plain;
     salt \<leftarrow> rd header 0 HEADER_SALT_SIZE;
     wr upd 0 salt }"

text \<open>What may not change; the result is the error, if any.\<close>

definition refuse_update :: "buf \<Rightarrow> buf \<Rightarrow> int \<Rightarrow> imbox_err option option" where
  "refuse_update header upd head_len = do {
     ok \<leftarrow> is_volume_header_correct upd;
     if \<not> ok then Some (Some ERR_INTERNAL)
     else if head_len \<noteq> (if DC_HDR_VERSION_2 \<le> hd_version upd then sint (hd_head_len upd) else int DC_AREA_SIZE)
     then Some (Some ERR_INVALID_PARAM)
     else do {
       k1 \<leftarrow> rd upd 86 256;
       k2 \<leftarrow> rd header 86 256;
       if hd_alg_1 upd \<noteq> hd_alg_1 header \<or> k1 \<noteq> k2 then Some (Some ERR_INVALID_PARAM)
       else do {
         t1 \<leftarrow> rd_u64 upd 618;
         t2 \<leftarrow> rd_u64 header 618;
         Some (if t1 \<noteq> t2 then Some ERR_INVALID_PARAM else None) } } }"

text \<open>A change of the version replaces the header.\<close>

definition switch_version :: "buf \<Rightarrow> buf \<Rightarrow> int \<Rightarrow> (imbox_err + buf) option" where
  "switch_version header upd head_len =
     (if hd_version upd < DC_HDR_VERSION_2 \<and> head_len \<noteq> int DC_AREA_SIZE then Some (Inl ERR_INVALID_PARAM)
      else do {
        let n = (if DC_HDR_VERSION_2 \<le> hd_version upd then u32_of_int head_len else 0);
        upd \<leftarrow> wr_u32 upd 614 n;
        upd \<leftarrow> wr_u32 upd 610 n;
        crc \<leftarrow> calculate_header_crc upd;
        upd \<leftarrow> set_hdr_crc upd crc;
        bs \<leftarrow> rdi upd 0 head_len;
        header \<leftarrow> wr header 0 bs;
        Some (Inr header) })"

text \<open>The rest of the update: the sectors behind the base, and the slots as they came.\<close>

definition open_update_tail :: "aes_core \<Rightarrow> xts_key \<Rightarrow> buf \<Rightarrow> buf \<Rightarrow> int \<Rightarrow> buf option" where
  "open_update_tail core hdr_key blob upd head_len = do {
     upd \<leftarrow>
       (if int DC_AREA_SIZE < head_len then do {
          tail \<leftarrow> xts_decrypt core (drop DC_AREA_SIZE blob) (u64_of_int (head_len - int DC_AREA_SIZE)) 2048 hdr_key;
          wr upd DC_AREA_SIZE tail }
        else Some upd);
     if has_slots_flag upd then map_option snd (cp_copy_keylots True upd blob upd) else Some upd }"

definition copy_field :: "buf \<Rightarrow> nat \<Rightarrow> nat \<Rightarrow> buf \<Rightarrow> buf option" where
  "copy_field upd off n header = do {
     x \<leftarrow> rd upd off n;
     wr header off x }"

definition slots_len_u32 :: "buf \<Rightarrow> u32" where
  "slots_len_u32 h = of_nat (hd_slot_area_len h) + of_nat (hd_key_slot_count h) * of_nat (hd_slot_info_size h)"

definition merge_base ::
  "'w host \<Rightarrow> buf \<Rightarrow> bool \<Rightarrow> int \<Rightarrow> buf \<Rightarrow> u32 \<Rightarrow> 'w world \<Rightarrow> ((buf \<times> u32) \<times> 'w world) option" where
  "merge_base hs upd ext head_len header flags w = do {
     header \<leftarrow> copy_field upd 628 4 header;
     ((header, flags), w) \<leftarrow>
       (if hd_slot_area_len header \<noteq> hd_slot_area_len upd \<or> hd_key_slot_count header \<noteq> hd_key_slot_count upd \<or>
           hd_slot_info_size header \<noteq> hd_slot_info_size upd
        then do {
          (header, w) \<leftarrow>
            (if 1024 + slots_len_u32 header \<le> u32_of_int head_len
             then dc_rand_at hs header DC_BASE_SIZE (unat (slots_len_u32 header)) w
             else Some (header, w));
          header \<leftarrow> copy_field upd 635 2 header;
          header \<leftarrow> copy_field upd 637 1 header;
          header \<leftarrow> copy_field upd 638 2 header;
          Some ((header, flags OR HF_UPDATE_SLOTS), w) }
        else Some ((header, flags), w));
     header \<leftarrow> copy_field upd 632 2 header;
     let flags = (if ext then flags OR HF_UPDATE_EXT else flags);
     header \<leftarrow> copy_field upd 74 4 header;
     header \<leftarrow> copy_field upd 78 4 header;
     header \<leftarrow> copy_field upd 627 1 header;
     Some ((header, flags), w) }"

definition merge_slots ::
  "'w host \<Rightarrow> buf \<Rightarrow> buf \<Rightarrow> u32 \<Rightarrow> 'w world \<Rightarrow> (buf \<times> 'w world) option" where
  "merge_slots hs upd header flags w =
     (if flag flags HF_UPDATE_SLOTS \<and> has_slots_flag header then
        if flag flags HF_CLEAR_SLOTS then do {
          (header, w) \<leftarrow> dc_rand_at hs header DC_BASE_SIZE (hd_slot_area_len header) w;
          header \<leftarrow> wr header (DC_BASE_SIZE + hd_slot_area_len header) (replicate (hd_key_slot_count header * hd_slot_info_size header) 0);
          Some (header, w) }
        else do {
          header \<leftarrow> copy_field upd DC_BASE_SIZE (slots_len header) header;
          Some (header, w) }
      else Some (header, w))"

definition merge_ext :: "buf \<Rightarrow> nat option \<Rightarrow> buf \<Rightarrow> u32 \<Rightarrow> buf option" where
  "merge_ext upd ext header flags =
     (case ext of
        None \<Rightarrow> Some header
      | Some off \<Rightarrow>
          if flag flags HF_UPDATE_EXT \<and> hd_ext_hdr_off header \<noteq> 0 then do {
            sz \<leftarrow> rd_u32 upd (off + 4);
            bs \<leftarrow> rd upd off (unat sz);
            wr header (hd_ext_hdr_off header) bs }
          else Some header)"

definition merge_fields ::
  "'w host \<Rightarrow> buf \<Rightarrow> nat option \<Rightarrow> int \<Rightarrow> buf \<Rightarrow> u32 \<Rightarrow> 'w world \<Rightarrow> (buf \<times> 'w world) option" where
  "merge_fields hs upd ext head_len header flags w = do {
     ((header, flags), w) \<leftarrow>
       (if flag flags HF_UPDATE_BASE then merge_base hs upd (ext \<noteq> None) head_len header flags w
        else Some ((header, flags), w));
     (header, w) \<leftarrow> merge_slots hs upd header flags w;
     header \<leftarrow> merge_ext upd ext header flags;
     crc \<leftarrow> calculate_header_crc header;
     header \<leftarrow> set_hdr_crc header crc;
     Some (header, w) }"

definition merge_header ::
  "'w host \<Rightarrow> xts_key \<Rightarrow> buf \<Rightarrow> buf \<Rightarrow> int \<Rightarrow> buf \<Rightarrow> u32 \<Rightarrow> 'w world \<Rightarrow> ((imbox_err + buf) \<times> 'w world) option" where
  "merge_header hs hdr_key blob upd head_len header flags w = do {
     upd \<leftarrow> open_update_tail (h_core hs) hdr_key blob upd head_len;
     let offset = 1024 + (if has_slots_flag upd then slots_len_u32 upd else 0);
     if u32_of_int head_len < offset then Some (Inl ERR_INVALID_PARAM, w)
     else do {
       ext \<leftarrow> (if hd_ext_hdr_off upd \<noteq> 0 then map_option (map_sum id Some) (get_ext_header upd) else Some (Inr None));
       (case ext of
          Inl _ \<Rightarrow> Some (Inl ERR_INVALID_PARAM, w)
        | Inr ext \<Rightarrow> do {
            (header, w) \<leftarrow> merge_fields hs upd ext head_len header flags w;
            Some (Inr header, w) }) } }"

text \<open>From the update as it came to the header that is written back.\<close>

definition SetHeader_merge ::
  "'w host \<Rightarrow> xts_key \<Rightarrow> buf \<Rightarrow> buf \<Rightarrow> int \<Rightarrow> buf \<Rightarrow> u32 \<Rightarrow> 'w world \<Rightarrow> ((imbox_err + buf) \<times> 'w world) option" where
  "SetHeader_merge hs hdr_key blob upd head_len header flags w = do {
     upd \<leftarrow> open_update (h_core hs) hdr_key header blob upd;
     refused \<leftarrow> refuse_update header upd head_len;
     (case refused of
        Some ret \<Rightarrow> Some (Inl ret, w)
      | None \<Rightarrow>
          if hd_version upd \<noteq> hd_version header then do {
            r \<leftarrow> switch_version header upd head_len;
            Some (r, w) }
          else if DC_HDR_VERSION_2 \<le> hd_version upd then merge_header hs hdr_key blob upd head_len header flags w
          else Some (Inr header, w)) }"

definition SetHeader ::
  "'w host \<Rightarrow> 'w abs_io \<Rightarrow> shared_mem option \<Rightarrow> nat \<Rightarrow> dc_pass \<Rightarrow> 'w world \<Rightarrow> (imbox_err \<times> 'w world) option" where
  "SetHeader hs io pSection uSecSize pass w =
     (case pSection of
        None \<Rightarrow> Some (ERR_INVALID_PARAM, w)
      | Some sh \<Rightarrow>
          if uSecSize < sizeof_SSection + sizeof_SHeaderData then Some (ERR_INVALID_PARAM, w)
          else do {
            let pData = sh_header sh;
            let flags = update_flags (shd_flags pData);
            (ret, w) \<leftarrow> pIO_Init io w;
            if ret \<noteq> ERR_OK then Some (ret, w)
            else
              (case dc_alloc hs sizeof_dc_pass w of
                 (None, w) \<Rightarrow> Some (ERR_MALLOC_ERROR, w)
               | (Some _, w) \<Rightarrow> do {
                   ((r, k, password), w) \<leftarrow> ReadHeader hs io pass True w;
                   (case (r, k) of
                      (Inl ret, _) \<Rightarrow> Some (ret, dc_free hs w)
                    | (Inr (header, head_len), Some k) \<Rightarrow> do {
                        (ret, w) \<leftarrow>
                          (if rk_slot k \<noteq> 0 then Some (ERR_INVALID_PARAM, w)
                           else if shd_size pData < u32_of_int head_len \<or> uSecSize < SECTION_SIZE_FOR_HEADER (u32_of_int head_len)
                           then Some (ERR_INVALID_PARAM, w)
                           else
                             (case dc_alloc hs (ulong_of_int head_len) w of
                                (None, w) \<Rightarrow> Some (ERR_MALLOC_ERROR, w)
                              | (Some upd, w) \<Rightarrow> do {
                                  (m, w) \<leftarrow> SetHeader_merge hs (rk_key k) (shd_data pData) upd head_len header flags w;
                                  (case m of
                                     Inl ret \<Rightarrow> Some (ret, dc_free hs w)
                                   | Inr header \<Rightarrow> do {
                                       (ret, w) \<leftarrow> seal_and_write hs io header head_len (rk_key k) w;
                                       Some (ret, dc_free hs w) }) }));
                        Some (ret, dc_free hs (dc_free hs (dc_free hs w))) }
                    | _ \<Rightarrow> None) }) })"

end
