(* ===== verification/Imbox_Edit.thy ===== *)
theory Imbox_Edit
  imports Imbox_Crypto
begin

unbundle bit_operations_syntax

text \<open>
  What the operations of \<^verbatim>\<open>CryptoIO.cpp\<close> may not do to a header: an edit keeps what every byte of the
  volume depends on, and a new header is one that the readers accept.
\<close>

section \<open>The fields an edit leaves alone\<close>

text \<open>Regions of a header, each an offset and a length; an access that stays clear of them keeps them.\<close>

definition keeps :: "(nat \<times> nat) set \<Rightarrow> buf \<Rightarrow> buf \<Rightarrow> bool" where
  "keeps K h h' \<longleftrightarrow> length h' = length h \<and> (\<forall>(off, n) \<in> K. take n (drop off h') = take n (drop off h))"

definition clear_of :: "(nat \<times> nat) set \<Rightarrow> nat \<Rightarrow> nat \<Rightarrow> bool" where
  "clear_of K off n \<longleftrightarrow> (\<forall>(p, m) \<in> K. p + m \<le> off \<or> off + n \<le> p)"

lemma keeps_refl [simp]: "keeps K h h" by (simp add: keeps_def)

lemma keeps_trans [trans]: "keeps K h h' \<Longrightarrow> keeps K h' h'' \<Longrightarrow> keeps K h h''"
  unfolding keeps_def by fastforce

lemma keeps_sub:
  assumes "keeps K h h'" and "(off, n) \<in> K" and "off \<le> p" and "p + m \<le> off + n"
  shows "take m (drop p h') = take m (drop p h)"
proof -
  have "take m (drop p x) = take m (drop (p - off) (take n (drop off x)))" for x :: buf
    using assms(3,4) by (simp add: drop_take min_def)
  then show ?thesis using assms(1,2) by (fastforce simp: keeps_def)
qed

lemma wr_outside: "wr b off xs = Some b' \<Longrightarrow> p + m \<le> off \<or> off + length xs \<le> p \<Longrightarrow> take m (drop p b') = take m (drop p b)"
  by (erule disjE) (simp_all add: take_drop_wr_below drop_wr_above)

lemma wr_keeps: "wr b off xs = Some b' \<Longrightarrow> clear_of K off (length xs) \<Longrightarrow> keeps K b b'"
  unfolding keeps_def clear_of_def using length_wr wr_outside by blast

lemma copy_field_keeps: "copy_field upd off n h = Some h' \<Longrightarrow> clear_of K off n \<Longrightarrow> keeps K h h'"
  by (auto simp: copy_field_def elim!: bind_SomeE intro: wr_keeps dest: length_rd)

lemma dc_rand_at_keeps:
  assumes "host_ok hs" and "dc_rand_at hs h off n w = Some (h', w')" and "clear_of K off n"
  shows "keeps K h h'"
proof -
  obtain r e where r: "h_rand hs n (env w) = (r, e)" by force
  moreover have "length r = n" using assms(1) r by (metis fst_conv host_ok_def)
  ultimately show ?thesis using assms(2,3) by (auto simp: dc_rand_at_def dc_rand_def intro: wr_keeps)
qed

lemma wr_u32_keeps: "wr_u32 h off c = Some h' \<Longrightarrow> clear_of K off 4 \<Longrightarrow> keeps K h h'"
  by (auto simp: wr_u32_def intro: wr_keeps)

text \<open>
  The salt, the version, the cipher with the master key, and the length of the header with the
  re-encryption position; and the offset of the extended header.
\<close>

definition kept :: "(nat \<times> nat) set" where "kept = {(0, 64), (72, 2), (82, 260), (614, 12)}"
definition kept_ext :: "(nat \<times> nat) set" where "kept_ext = {(632, 2)}"

lemma keeps_fields:
  assumes k: "keeps kept h h'"
  shows "length h' = length h" "hd_salt h' = hd_salt h" "hd_alg_1 h' = hd_alg_1 h" "rd h' 86 256 = rd h 86 256"
    "hd_head_len h' = hd_head_len h" "rd_u64 h' 618 = rd_u64 h 618" "hd_version h' = hd_version h"
proof -
  show l: "length h' = length h" using k by (simp add: keeps_def)
  show "hd_salt h' = hd_salt h" using keeps_sub [OF k, of 0 64 0 64] by (simp add: kept_def hd_salt_def)
  show "hd_alg_1 h' = hd_alg_1 h" using keeps_sub [OF k, of 82 260 82 4] by (simp add: kept_def hd_alg_1_def fld_u32_def)
  show "rd h' 86 256 = rd h 86 256" using keeps_sub [OF k, of 82 260 86 256] l by (simp add: kept_def rd_def)
  show "hd_head_len h' = hd_head_len h" using keeps_sub [OF k, of 614 12 614 4] by (simp add: kept_def hd_head_len_def fld_u32_def)
  show "rd_u64 h' 618 = rd_u64 h 618" using keeps_sub [OF k, of 614 12 618 8] l by (simp add: kept_def rd_u64_def rd_def)
  show "hd_version h' = hd_version h" using keeps_sub [OF k, of 72 2 72 2] by (simp add: kept_def hd_version_def fld_u16_def)
qed

lemma keeps_ext_off: "keeps kept_ext h h' \<Longrightarrow> hd_ext_hdr_off h' = hd_ext_hdr_off h"
  using keeps_sub [of kept_ext h h' 632 2 632 2] by (simp add: kept_ext_def hd_ext_hdr_off_def fld_u16_def)

lemma copy_ext_off: "copy_field upd 632 2 h = Some h' \<Longrightarrow> hd_ext_hdr_off h' = hd_ext_hdr_off upd"
  by (auto simp: copy_field_def hd_ext_hdr_off_def fld_u16_def rd_def wr_def min_def split: if_split_asm elim!: bind_SomeE)

lemma clear_of_fields [simp]:
  "clear_of kept 628 4" "clear_of kept 635 2" "clear_of kept 637 1" "clear_of kept 638 2" "clear_of kept 632 2"
  "clear_of kept 74 4" "clear_of kept 78 4" "clear_of kept 627 1" "clear_of kept 68 4" "626 \<le> off \<Longrightarrow> clear_of kept off n"
  "clear_of kept_ext 628 4" "clear_of kept_ext 635 2" "clear_of kept_ext 637 1" "clear_of kept_ext 638 2"
  "clear_of kept_ext 74 4" "clear_of kept_ext 78 4" "clear_of kept_ext 627 1" "clear_of kept_ext 68 4"
  "634 \<le> off \<Longrightarrow> clear_of kept_ext off n"
  by (simp_all add: clear_of_def kept_def kept_ext_def)

lemma merge_base_keeps:
  assumes hs: "host_ok hs" and c: "merge_base hs upd ext len h flags w = Some ((h', flags'), w')"
  shows "keeps kept h h'" and "hd_ext_hdr_off h' = hd_ext_hdr_off upd"
proof -
  note cf = copy_field_keeps and tr = keeps_trans
  from c obtain h1 h2 f2 w2 h3 h4 h5 where 1: "copy_field upd 628 4 h = Some h1" and
    2: "(if hd_slot_area_len h1 \<noteq> hd_slot_area_len upd \<or> hd_key_slot_count h1 \<noteq> hd_key_slot_count upd \<or>
           hd_slot_info_size h1 \<noteq> hd_slot_info_size upd
        then do {
          (header, w) \<leftarrow>
            (if 1024 + slots_len_u32 h1 \<le> u32_of_int len
             then dc_rand_at hs h1 DC_BASE_SIZE (unat (slots_len_u32 h1)) w
             else Some (h1, w));
          header \<leftarrow> copy_field upd 635 2 header;
          header \<leftarrow> copy_field upd 637 1 header;
          header \<leftarrow> copy_field upd 638 2 header;
          Some ((header, flags OR HF_UPDATE_SLOTS), w) }
        else Some ((h1, flags), w)) = Some ((h2, f2), w2)"
    and 3: "copy_field upd 632 2 h2 = Some h3" "copy_field upd 74 4 h3 = Some h4" "copy_field upd 78 4 h4 = Some h5"
      "copy_field upd 627 1 h5 = Some h'"
    unfolding merge_base_def Let_def by (elim bind_SomeE) (auto elim!: bind_SomeE split: prod.split_asm)
  have "keeps kept h1 h2"
  proof (cases "hd_slot_area_len h1 \<noteq> hd_slot_area_len upd \<or> hd_key_slot_count h1 \<noteq> hd_key_slot_count upd \<or>
      hd_slot_info_size h1 \<noteq> hd_slot_info_size upd")
    case True
    from 2 [unfolded if_P [OF True]] obtain a w1 b c where
      a: "(if 1024 + slots_len_u32 h1 \<le> u32_of_int len
           then dc_rand_at hs h1 DC_BASE_SIZE (unat (slots_len_u32 h1)) w else Some (h1, w)) = Some (a, w1)"
      and "copy_field upd 635 2 a = Some b" "copy_field upd 637 1 b = Some c" "copy_field upd 638 2 c = Some h2"
      by (elim bind_SomeE) (auto elim!: bind_SomeE split: prod.split_asm)
    moreover have "keeps kept h1 a" using a dc_rand_at_keeps [OF hs] by (auto split: if_split_asm)
    ultimately show ?thesis using cf tr by (meson clear_of_fields)
  qed (use 2 in auto)
  with 1 3 show "keeps kept h h'" using cf tr by (meson clear_of_fields)
  have "keeps kept_ext h3 h'" using 3 cf tr by (meson clear_of_fields)
  then show "hd_ext_hdr_off h' = hd_ext_hdr_off upd" using keeps_ext_off copy_ext_off [OF 3(1)] by simp
qed

lemma merge_slots_keeps:
  assumes hs: "host_ok hs" and c: "merge_slots hs upd h flags w = Some (h', w')"
  shows "keeps kept h h'" and "hd_ext_hdr_off h' = hd_ext_hdr_off h"
proof -
  have "keeps K h h'" if "\<And>off n. 1024 \<le> off \<Longrightarrow> clear_of K off n" for K
    using c that unfolding merge_slots_def
    by (auto split: if_split_asm elim!: bind_SomeE
        intro: keeps_trans [OF dc_rand_at_keeps [OF hs] wr_keeps] copy_field_keeps)
  then show "keeps kept h h'" "hd_ext_hdr_off h' = hd_ext_hdr_off h" using keeps_ext_off by simp_all
qed

lemma merge_ext_keeps:
  assumes "merge_ext upd ext h flags = Some h'" and "ext = None \<or> hd_ext_hdr_off h = 0 \<or> 626 \<le> hd_ext_hdr_off h"
  shows "keeps kept h h'"
  using assms unfolding merge_ext_def
  by (auto split: option.split_asm if_split_asm elim!: bind_SomeE intro!: wr_keeps)

text \<open>An extended header that is accepted lies behind the base.\<close>

lemma get_ext_header_off: "get_ext_header h = Some (Inr off) \<Longrightarrow> off = hd_ext_hdr_off h \<and> 1024 \<le> off"
  by (auto simp: get_ext_header_def Let_def split: if_split_asm elim!: bind_SomeE)

lemma map_sum_Inr: "map_sum f g x = Inr y \<longleftrightarrow> (\<exists>z. x = Inr z \<and> g z = y)"
  by (cases x) auto

lemma merge_fields_keeps:
  assumes hs: "host_ok hs" and c: "merge_fields hs upd ext len h flags w = Some (h', w')"
    and x: "ext = None \<or> 1024 \<le> hd_ext_hdr_off upd"
    and e: "flag flags HF_UPDATE_BASE \<or> hd_ext_hdr_off h = 0 \<or> 626 \<le> hd_ext_hdr_off h"
  shows "keeps kept h h'"
proof -
  from c obtain h1 flags1 w1 h2 w2 h3 crc where
    1: "(if flag flags HF_UPDATE_BASE then merge_base hs upd (ext \<noteq> None) len h flags w
               else Some ((h, flags), w)) = Some ((h1, flags1), w1)"
    and 2: "merge_slots hs upd h1 flags1 w1 = Some (h2, w2)" and 3: "merge_ext upd ext h2 flags1 = Some h3"
    and 4: "set_hdr_crc h3 crc = Some h'"
    unfolding merge_fields_def by (elim bind_SomeE) (auto elim!: bind_SomeE split: prod.split_asm)
  have k1: "keeps kept h h1" "ext = None \<or> hd_ext_hdr_off h1 = 0 \<or> 626 \<le> hd_ext_hdr_off h1"
    using 1 e x merge_base_keeps [OF hs] by (auto split: if_split_asm)
  note s = merge_slots_keeps [OF hs 2]
  have "keeps kept h2 h3" using k1(2) s(2) by (intro merge_ext_keeps [OF 3]) simp
  moreover have "keeps kept h3 h'" using 4 by (auto simp: set_hdr_crc_def intro: wr_u32_keeps)
  ultimately show ?thesis using k1(1) s(1) keeps_trans by blast
qed

lemma merge_header_keeps:
  assumes hs: "host_ok hs" and c: "merge_header hs key blob upd len h flags w = Some (Inr h', w')"
    and e: "flag flags HF_UPDATE_BASE \<or> hd_ext_hdr_off h = 0 \<or> 626 \<le> hd_ext_hdr_off h"
  shows "keeps kept h h'"
proof -
  from c obtain upd2 ext where m: "merge_fields hs upd2 ext len h flags w = Some (h', w')"
    and x: "ext = None \<or> (\<exists>off. get_ext_header upd2 = Some (Inr off))"
    by (auto simp: merge_header_def Let_def split: if_split_asm sum.split_asm elim!: bind_SomeE simp: map_sum_Inr)
  show ?thesis using x get_ext_header_off by (intro merge_fields_keeps [OF hs m _ e]) blast
qed

lemma open_update_salt:
  assumes "open_update core key header blob upd = Some upd'" and "64 \<le> length header"
  shows "hd_salt upd' = hd_salt header" and "length upd' = length upd"
proof -
  from assms(1) obtain a u1 plain u2 salt where w: "wr upd 0 a = Some u1" "wr u1 0 plain = Some u2" "rd header 0 64 = Some salt"
    "wr u2 0 salt = Some upd'"
    unfolding open_update_def by (elim bind_SomeE)
  then show "length upd' = length upd" by (auto dest!: length_wr)
  show "hd_salt upd' = hd_salt header"
    using w(3,4) assms(2) by (auto simp: wr_def rd_def hd_salt_def split: if_split_asm)
qed

text \<open>After a change of the version the header is the update, with the length put right.\<close>

definition kept_switch :: "(nat \<times> nat) set" where "kept_switch = {(0, 64), (72, 2), (82, 260), (618, 8)}"

lemma clear_of_switch: "clear_of kept_switch 614 4" "clear_of kept_switch 610 4" "clear_of kept_switch 68 4"
  by (simp_all add: clear_of_def kept_switch_def)

lemma wr_u32_fld: "wr_u32 b off v = Some b' \<Longrightarrow> fld_u32 b' off = v"
proof -
  assume w: "wr_u32 b off v = Some b'"
  have "unat v < 256 ^ 4" using unsigned_less [of v] by simp
  with w show "fld_u32 b' off = v"
    by (auto simp: wr_u32_def wr_def fld_u32_def le_val_le_bytes split: if_split_asm)
qed

lemma switch_version_fields:
  assumes c: "switch_version header upd len = Some (Inr h')" and l: "2048 \<le> len" "len < 2 ^ 31" "len \<le> int (length header)"
  shows "length h' = length header" "hd_salt h' = hd_salt upd" "hd_alg_1 h' = hd_alg_1 upd"
    "rd h' 86 256 = rd upd 86 256" "rd_u64 h' 618 = rd_u64 upd 618" "hd_version h' = hd_version upd"
    "DC_HDR_VERSION_2 \<le> hd_version upd \<Longrightarrow> sint (hd_head_len h') = len" "\<not> DC_HDR_VERSION_2 \<le> hd_version upd \<Longrightarrow> len = 2048"
proof -
  let ?n = "if DC_HDR_VERSION_2 \<le> hd_version upd then u32_of_int len else 0"
  from c have v: "\<not> DC_HDR_VERSION_2 \<le> hd_version upd \<Longrightarrow> len = 2048"
    by (auto simp: switch_version_def split: if_split_asm)
  show "\<not> DC_HDR_VERSION_2 \<le> hd_version upd \<Longrightarrow> len = 2048" by (rule v)
  from c obtain u1 u2 crc u3 bs where w: "wr_u32 upd 614 ?n = Some u1" "wr_u32 u1 610 ?n = Some u2"
    "set_hdr_crc u2 crc = Some u3" and bs: "rdi u3 0 len = Some bs" "wr header 0 bs = Some h'"
    by (auto simp: switch_version_def Let_def split: if_split_asm elim!: bind_SomeE)
  have k: "keeps kept_switch upd u3"
    using w keeps_trans wr_u32_keeps unfolding set_hdr_crc_def
    by (metis (no_types, lifting) clear_of_switch)
  have lb: "length bs = nat len" "bs = take (nat len) u3" "nat len \<le> length u3"
    using bs(1) l by (auto simp: rdi_def rd_def split: if_split_asm)
  have h': "h' = bs @ drop (nat len) header" using bs(2) lb by (simp add: wr_def split: if_split_asm)
  show lh: "length h' = length header" using bs(2) by (rule length_wr)
  have f: "take m (drop p h') = take m (drop p u3)" if "p + m \<le> 2048" for p m
  proof -
    have "2048 \<le> nat len" using l(1) by simp
    then have "take 2048 h' = take 2048 u3" using lb by (simp add: h' min_def)
    moreover have "take m (drop p x) = take m (drop p (take 2048 x))" for x :: buf
      using that by (simp add: drop_take min_def)
    ultimately show ?thesis by metis
  qed
  have g: "take m (drop p h') = take m (drop p upd)" if "(off, n) \<in> kept_switch" "off \<le> p" "p + m \<le> off + n" for off n p m
    using keeps_sub [OF k that] f [of p m] that by (auto simp: kept_switch_def)
  have lu: "2048 \<le> length upd" "2048 \<le> length h'" using k lb(3) l lh by (simp_all add: keeps_def)
  show "hd_salt h' = hd_salt upd" using g [of 0 64 0 64] by (simp add: kept_switch_def hd_salt_def)
  show "hd_alg_1 h' = hd_alg_1 upd" using g [of 82 260 82 4] by (simp add: kept_switch_def hd_alg_1_def fld_u32_def)
  show "rd h' 86 256 = rd upd 86 256" using g [of 82 260 86 256] lu by (simp add: kept_switch_def rd_def)
  show "rd_u64 h' 618 = rd_u64 upd 618" using g [of 618 8 618 8] lu by (simp add: kept_switch_def rd_u64_def rd_def)
  show "hd_version h' = hd_version upd" using g [of 72 2 72 2] by (simp add: kept_switch_def hd_version_def fld_u16_def)
  assume v2: "DC_HDR_VERSION_2 \<le> hd_version upd"
  have "keeps {(614, 4)} u1 u3"
  proof (rule keeps_trans)
    show "keeps {(614, 4)} u1 u2" using w(2) by (rule wr_u32_keeps) (simp add: clear_of_def)
    show "keeps {(614, 4)} u2 u3" using w(3) unfolding set_hdr_crc_def by (rule wr_u32_keeps) (simp add: clear_of_def)
  qed
  then have "take 4 (drop 614 u3) = take 4 (drop 614 u1)"
    by (rule keeps_sub [where off = 614 and n = 4]) simp_all
  then have "hd_head_len h' = fld_u32 u1 614" using f [of 614 4] by (simp add: hd_head_len_def fld_u32_def)
  also have "\<dots> = u32_of_int len" using wr_u32_fld [OF w(1)] v2 by simp
  finally show "sint (hd_head_len h') = len"
    using l by (simp add: u32_of_int_def signed_of_int signed_take_bit_int_eq_self)
qed

text \<open>
  C24: what an edited header may not change. Whatever the update holds, when \<^verbatim>\<open>SetHeader\<close> goes on to
  write, the header it writes has the salt, the cipher, the master key, the re-encryption position and
  the length of the header on the volume, also when the update switches the version; an update to
  the first version is written only where the data starts behind 2048 bytes anyway. For an update of
  the extended header alone the volume's own offset for it must not point into the base.
\<close>

theorem SetHeader_keeps:
  assumes hs: "host_ok hs" and fits: "header_fits header len" "\<not> DC_HDR_VERSION_2 \<le> hd_version header \<Longrightarrow> len = 2048"
    and c: "SetHeader_merge hs key blob upd len header flags w = Some (Inr h', w')"
    and e: "flag flags HF_UPDATE_BASE \<or> hd_ext_hdr_off header = 0 \<or> 626 \<le> hd_ext_hdr_off header"
  shows "length h' = length header \<and> hd_salt h' = hd_salt header \<and> hd_alg_1 h' = hd_alg_1 header \<and>
    rd h' 86 256 = rd header 86 256 \<and> rd_u64 h' 618 = rd_u64 header 618 \<and>
    (if DC_HDR_VERSION_2 \<le> hd_version h' then sint (hd_head_len h') = len else len = 2048)"
proof -
  have l: "2048 \<le> len" "len < 2 ^ 31" "len \<le> int (length header)" using fits(1) by (simp_all add: header_fits_def DC_AREA_MAX_SIZE_def)
  from c obtain u where u: "open_update (h_core hs) key header blob upd = Some u"
    and r: "refuse_update header u len = Some None"
    and m: "(if hd_version u \<noteq> hd_version header then do {
            r \<leftarrow> switch_version header u len;
            Some (r, w) }
          else if DC_HDR_VERSION_2 \<le> hd_version u then merge_header hs key blob u len header flags w
          else Some (Inr header, w)) = Some (Inr h', w')"
    unfolding SetHeader_merge_def by (elim bind_SomeE) (auto split: option.split_asm)
  have s: "hd_salt u = hd_salt header" using open_update_salt(1) [OF u] l by simp
  have same: "hd_alg_1 u = hd_alg_1 header" "rd u 86 256 = rd header 86 256" "rd_u64 u 618 = rd_u64 header 618"
    using r by (auto simp: refuse_update_def split: if_split_asm elim!: bind_SomeE)
  show ?thesis
  proof (cases "hd_version u = hd_version header")
    case False
    with m have "switch_version header u len = Some (Inr h')" by (auto elim!: bind_SomeE)
    note sw = switch_version_fields [OF this l]
    show ?thesis using sw s same by simp
  next
    case True
    show ?thesis
    proof (cases "DC_HDR_VERSION_2 \<le> hd_version u")
      case v2: True
      with True m have "merge_header hs key blob u len header flags w = Some (Inr h', w')" by simp
      from keeps_fields [OF merge_header_keeps [OF hs this e]] fits(1) True v2 show ?thesis
        by (simp add: header_fits_def)
    next
      case False
      with True m have "h' = header" by simp
      with fits(2) False True fits(1) show ?thesis by (simp add: header_fits_def)
    qed
  qed
qed

text \<open>Copying a header onto itself.\<close>

lemma copy_field_self: "off + n \<le> length h \<Longrightarrow> copy_field h off n h = Some h"
proof -
  assume l: "off + n \<le> length h"
  have "take off h @ take n (drop off h) @ drop (off + n) h = h"
    by (metis append_take_drop_id drop_drop add.commute)
  then show ?thesis using l by (simp add: copy_field_def rd_def wr_def)
qed

lemma set_hdr_crc_self: "72 \<le> length h \<Longrightarrow> set_hdr_crc h (hd_crc h) = Some h"
proof -
  assume l: "72 \<le> length h"
  let ?x = "take 4 (drop 68 h)"
  have "length ?x = 4" using l by simp
  then have "le_val ?x < 256 ^ 4" using le_val_bound [of ?x] by metis
  then have "unat (hd_crc h) = le_val ?x" by (simp add: hd_crc_def fld_u32_def unat_of_nat)
  then have "le_bytes 4 (unat (hd_crc h)) = ?x" using l le_bytes_le_val [of ?x 4] by simp
  moreover have "wr h 68 ?x = Some h" using copy_field_self [of 68 4 h] l by (simp add: copy_field_def rd_def)
  ultimately show ?thesis by (simp add: set_hdr_crc_def wr_u32_def)
qed

theorem SetHeader_keeps_witness:
  "\<exists>key. SetHeader_merge host_ex key slots_header (replicate 2048 0) 2048 slots_header HF_UPDATE_ALL world_ex =
      Some (Inr slots_header, world_ex) \<and> sint (hd_head_len slots_header) = 2048"
proof -
  note f = slots_header_facts
  obtain key where key: "xts_set_key (replicate 192 0) 0 key_mem = Some (1, key)" "xk_decrypt key = XTS_AES_DEC"
    using xts_set_key_aes [of "replicate 192 0" key_mem] by auto
  have h: "h_core host_ex = id_core" by (simp add: host_ex_def)
  have d: "xts_decrypt id_core slots_header 2048 0 key = Some slots_header"
    unfolding xts_decrypt_def key(2) using f(1) by (intro xts_call_id) (simp_all add: xts_len_ok_def)
  have x: "hd_ext_hdr_off slots_header = 0"
    by (simp add: slots_header_def make_header_def Let_def hd_ext_hdr_off_def fld_u16_def nth_append)
  have rd: "rd slots_header off n = Some (take n (drop off slots_header))" if "off + n \<le> 2048" for off n
    using f(1) that by (simp add: rd_def)
  have w0: "wr (replicate 2048 0) 0 slots_header = Some slots_header" "wr slots_header 0 slots_header = Some slots_header"
    using f(1) by (simp_all add: wr_def)
  have cf: "off + n \<le> 2048 \<Longrightarrow> copy_field slots_header off n slots_header = Some slots_header" for off n
    using copy_field_self f(1) by simp
  have u: "open_update id_core key slots_header slots_header (replicate 2048 0) = Some slots_header"
    using cf [of 0 64] f(1) by (simp add: open_update_def rd w0 d copy_field_def)
  have r: "refuse_update slots_header slots_header 2048 = Some None"
    using f by (simp add: refuse_update_def rd rd_u64_def DC_HDR_VERSION_2_def)
  obtain a where a: "cp_copy_keylots True slots_header slots_header slots_header = Some (a, slots_header)"
    using cp_copy_keylots_read [of slots_header slots_header] f by (auto simp: slots_len_def)
  have c: "calculate_header_crc slots_header = Some (hd_crc slots_header)"
    using f(2) by (auto simp: is_volume_header_correct_def split: if_split_asm elim!: bind_SomeE)
  have fl: "flag HF_UPDATE_ALL HF_UPDATE_BASE" "flag HF_UPDATE_ALL HF_UPDATE_SLOTS" "\<not> flag HF_UPDATE_ALL HF_CLEAR_SLOTS"
    by (simp_all add: flag_def HF_UPDATE_ALL_def HF_UPDATE_BASE_def HF_UPDATE_SLOTS_def HF_UPDATE_EXT_def HF_CLEAR_SLOTS_def)
  have m: "merge_header host_ex key slots_header slots_header 2048 slots_header HF_UPDATE_ALL world_ex =
      Some (Inr slots_header, world_ex)"
    using f a fl cf set_hdr_crc_self [of slots_header] c
    by (simp add: merge_header_def open_update_tail_def x merge_fields_def merge_base_def merge_slots_def merge_ext_def
        slots_len_u32_def slots_len_def u32_of_int_def)
  have "SetHeader_merge host_ex key slots_header (replicate 2048 0) 2048 slots_header HF_UPDATE_ALL world_ex =
      Some (Inr slots_header, world_ex)"
    using f by (simp add: SetHeader_merge_def h u r m DC_HDR_VERSION_2_def)
  moreover have "header_fits slots_header 2048"
    using f by (simp add: header_fits_def DC_AREA_MAX_SIZE_def slots_len_def)
  ultimately show ?thesis
    using SetHeader_keeps [OF host_ex_ok _ _ _ disjI1 [OF fl(1)], of slots_header 2048 key slots_header "replicate 2048 0" world_ex slots_header world_ex] f
    by (simp add: DC_HDR_VERSION_2_def) blast
qed

text \<open>
  An update of the extended header alone is checked where the update has it, and written where the
  volume has it: when it is longer than the room behind that place, the copy leaves the buffer.
\<close>

theorem merge_ext_past_end:
  assumes "get_ext_header upd = Some (Inr off)" and "rd_u32 upd (off + 4) = Some sz" and "hd_ext_hdr_off header \<noteq> 0"
    and "length header < hd_ext_hdr_off header + unat sz"
  shows "merge_fields hs upd (Some off) len header (update_flags HF_UPDATE_EXT) w = None"
proof -
  have f: "update_flags HF_UPDATE_EXT = HF_UPDATE_EXT" "\<not> flag HF_UPDATE_EXT HF_UPDATE_BASE"
    "\<not> flag HF_UPDATE_EXT HF_UPDATE_SLOTS" "flag HF_UPDATE_EXT HF_UPDATE_EXT"
    by (simp_all add: update_flags_def flag_def HF_UPDATE_ALL_def HF_UPDATE_BASE_def HF_UPDATE_SLOTS_def
        HF_UPDATE_EXT_def HF_CLEAR_SLOTS_def)
  have "rd upd off (unat sz) \<bind> wr header (hd_ext_hdr_off header) = None"
  proof (cases "rd upd off (unat sz)")
    case (Some bs)
    then have "length bs = unat sz" by (rule length_rd)
    then show ?thesis using assms(4) Some by (simp add: wr_def)
  qed (simp add: rd_def)
  then have "merge_ext upd (Some off) header HF_UPDATE_EXT = None" using assms f(4) by (simp add: merge_ext_def)
  then show ?thesis using f by (simp add: merge_fields_def merge_slots_def)
qed

section \<open>A new header\<close>

lemma wr_at: "wr b off xs = Some b' \<Longrightarrow> take (length xs) (drop off b') = xs"
  by (auto simp: wr_def split: if_split_asm)

lemma wr_ok: "off + length xs \<le> length b \<Longrightarrow> \<exists>b'. wr b off xs = Some b' \<and> length b' = length b"
  by (simp add: wr_def)

lemma dc_rand_at_ok:
  assumes "host_ok hs" and "off + n \<le> length h"
  shows "\<exists>r h' w'. dc_rand_at hs h off n w = Some (h', w') \<and> wr h off r = Some h' \<and> length r = n \<and> length h' = length h"
proof -
  obtain r e where r: "h_rand hs n (env w) = (r, e)" by force
  moreover have "length r = n" using assms(1) r by (metis fst_conv host_ok_def)
  moreover have "\<exists>h'. wr h off r = Some h' \<and> length h' = length h" using assms(2) calculation(2) by (intro wr_ok) simp
  ultimately show ?thesis by (auto simp: dc_rand_at_def dc_rand_def)
qed

text \<open>The first part, without slots: what lies where.\<close>

lemma new_header_base:
  assumes hs: "host_ok hs" and l: "length h0 = 65536"
  obtains h w1 where
    "new_header hs 65536 cipher kdf 0 h0 w = Some (h, w1)" "length h = 65536"
    "\<And>sc. 0 < sc \<Longrightarrow> new_header hs 65536 cipher kdf sc h0 w = do {
        header \<leftarrow> wr_u32 h 628 (hd_feature_flags h OR FF_KEY_SLOTS);
        header \<leftarrow> wr header 637 [word_of_int sc];
        header \<leftarrow> wr_u16 header 635 (word_of_int (sc * 192));
        header \<leftarrow> wr_u16 header 638 32;
        dc_rand_at hs header 1024 (hd_slot_area_len header) w1 }"
    "take 4 (drop 64 h) = le_bytes 4 0x50524344" "take 2 (drop 72 h) = [3, 0]"
    "take 4 (drop 82 h) = le_bytes 4 (unat (u32_of_int cipher))" "take 4 (drop 614 h) = le_bytes 4 65536"
    "take 1 (drop 627 h) = [0]" "take 4 (drop 628 h) = replicate 4 0" "take 2 (drop 632 h) = [0, 0]"
    "take 1 (drop 634 h) = [word_of_int kdf]" "take 5 (drop 635 h) = replicate 5 0"
    "drop 1024 h = replicate 64512 0"
proof -
  have z: "wr h0 0 (replicate 65536 0) = Some (replicate 65536 0)" using l by (simp add: wr_def)
  obtain r1 a w1 where a: "dc_rand_at hs (replicate 65536 0) 78 4 w = Some (a, w1)" "wr (replicate 65536 0) 78 r1 = Some a"
    "length r1 = 4" "length a = 65536"
    using dc_rand_at_ok [OF hs, of 78 4 "replicate 65536 0" w] by auto
  obtain r2 b w2 where b: "dc_rand_at hs a 86 256 w1 = Some (b, w2)" "wr a 86 r2 = Some b" "length r2 = 256" "length b = 65536"
    using dc_rand_at_ok [OF hs, of 86 256 a w1] a(4) by auto
  obtain c where c: "wr b 64 (le_bytes 4 0x50524344) = Some c" "length c = 65536" using wr_ok [of 64 "le_bytes 4 0x50524344" b] b(4) by auto
  obtain d where d: "wr c 72 (le_bytes 2 3) = Some d" "length d = 65536" using wr_ok [of 72 "le_bytes 2 3" c] c(2) by auto
  obtain e where e: "wr d 74 (le_bytes 4 8) = Some e" "length e = 65536" using wr_ok [of 74 "le_bytes 4 8" d] d(2) by auto
  obtain f where f: "wr e 82 (le_bytes 4 (unat (u32_of_int cipher))) = Some f" "length f = 65536"
    using wr_ok [of 82 "le_bytes 4 (unat (u32_of_int cipher))" e] e(2) by auto
  obtain g where g: "wr f 634 [word_of_int kdf] = Some g" "length g = 65536" using wr_ok [of 634 "[word_of_int kdf]" f] f(2) by auto
  obtain i where i: "wr g 602 (le_bytes 8 65536) = Some i" "length i = 65536" using wr_ok [of 602 "le_bytes 8 65536" g] g(2) by auto
  obtain h where h: "wr i 614 (le_bytes 4 65536) = Some h" "length h = 65536" using wr_ok [of 614 "le_bytes 4 65536" i] i(2) by auto
  have "unat (u32_of_int 65536) = 65536" by (simp add: u32_of_int_def)
  then have all: "new_header hs 65536 cipher kdf sc h0 w =
      (if 0 < sc then do {
         header \<leftarrow> wr_u32 h 628 (hd_feature_flags h OR FF_KEY_SLOTS);
         header \<leftarrow> wr header 637 [word_of_int sc];
         header \<leftarrow> wr_u16 header 635 (word_of_int (sc * 192));
         header \<leftarrow> wr_u16 header 638 32;
         dc_rand_at hs header 1024 (hd_slot_area_len header) w2 }
       else Some (h, w2))" for sc
    using z a(1) b(1) c(1) d(1) e(1) f(1) g(1) i(1) h(1)
    by (simp add: new_header_def Let_def wr_u32_def wr_u16_def DC_VOLUME_SIGN_def DC_HDR_VERSION_2_def VF_NO_REDIR_def
        cp_get_key_slot_size_def sizeof_dc_slot_info_def)
  note out = wr_outside [OF a(2)] wr_outside [OF b(2)] wr_outside [OF c(1)] wr_outside [OF d(1)] wr_outside [OF e(1)]
    wr_outside [OF f(1)] wr_outside [OF g(1)] wr_outside [OF i(1)] wr_outside [OF h(1)]
  note at = wr_at [OF c(1)] wr_at [OF d(1)] wr_at [OF f(1)] wr_at [OF g(1)] wr_at [OF h(1)]
  show ?thesis
  proof (rule that)
    show "new_header hs 65536 cipher kdf 0 h0 w = Some (h, w2)" using all by simp
    show "length h = 65536" by (rule h(2))
    show "new_header hs 65536 cipher kdf sc h0 w = do {
        header \<leftarrow> wr_u32 h 628 (hd_feature_flags h OR FF_KEY_SLOTS);
        header \<leftarrow> wr header 637 [word_of_int sc];
        header \<leftarrow> wr_u16 header 635 (word_of_int (sc * 192));
        header \<leftarrow> wr_u16 header 638 32;
        dc_rand_at hs header 1024 (hd_slot_area_len header) w2 }" if "0 < sc" for sc using all that by simp
    show "take 4 (drop 64 h) = le_bytes 4 0x50524344" "take 2 (drop 72 h) = [3, 0]"
      "take 4 (drop 82 h) = le_bytes 4 (unat (u32_of_int cipher))" "take 4 (drop 614 h) = le_bytes 4 65536"
      "take 1 (drop 634 h) = [word_of_int kdf]"
      using at by (simp_all add: out a(3) b(3) numeral_2_eq_2)
    show "take 1 (drop 627 h) = [0]" "take 4 (drop 628 h) = replicate 4 0" "take 2 (drop 632 h) = [0, 0]"
      "take 5 (drop 635 h) = replicate 5 0"
      by (simp_all add: out a(3) b(3)) (simp_all add: numeral_eq_Suc)
    have "take 64512 (drop 1024 h) = replicate 64512 0"
      by (simp add: out a(3) b(3))
    then show "drop 1024 h = replicate 64512 0" using h(2) by (simp)
  qed
qed

lemma take_nth: "take (Suc 0) (drop i h) = [x] \<Longrightarrow> h ! i = x"
  by (cases "i < length h") (simp_all add: take_Suc_conv_app_nth)

text \<open>What a header of 64 KiB with \<open>n\<close> slots of 192 bytes and descriptors of zeros amounts to.\<close>

definition fresh_layout :: "nat \<Rightarrow> buf \<Rightarrow> bool" where
  "fresh_layout n h \<longleftrightarrow>
     length h = 65536 \<and> take 4 (drop 64 h) = le_bytes 4 0x50524344 \<and> take 2 (drop 72 h) = [3, 0] \<and>
     take 4 (drop 614 h) = le_bytes 4 65536 \<and> take 1 (drop 627 h) = [0] \<and>
     take 4 (drop 628 h) = le_bytes 4 (if 0 < n then 1 else 0) \<and> take 2 (drop 632 h) = [0, 0] \<and>
     take 2 (drop 635 h) = le_bytes 2 (192 * n) \<and> take 1 (drop 637 h) = [of_nat n] \<and>
     take 2 (drop 638 h) = le_bytes 2 (if 0 < n then 32 else 0) \<and>
     drop (1024 + 192 * n) h = replicate (64512 - 192 * n) 0"

lemma fresh_layout_fields:
  assumes f: "fresh_layout n h" and n: "n \<le> 100"
  shows "hd_sign h = DC_VOLUME_SIGN" "hd_version h = DC_HDR_VERSION_2" "hd_head_len h = 65536" "hd_footer_cnt h = 0"
    "has_slots_flag h \<longleftrightarrow> 0 < n" "hd_ext_hdr_off h = 0" "hd_slot_area_len h = 192 * n" "hd_key_slot_count h = n"
    "hd_slot_info_size h = (if 0 < n then 32 else 0)"
proof -
  note f' = f [unfolded fresh_layout_def]
  show "hd_sign h = DC_VOLUME_SIGN" using f' by (simp add: hd_sign_def fld_u32_def DC_VOLUME_SIGN_def le_val_le_bytes)
  show "hd_version h = DC_HDR_VERSION_2" using f' by (simp add: hd_version_def fld_u16_def DC_HDR_VERSION_2_def)
  show "hd_head_len h = 65536" using f' by (simp add: hd_head_len_def fld_u32_def le_val_le_bytes)
  show "hd_footer_cnt h = 0" using f' take_nth [of 627 h 0] by (simp add: hd_footer_cnt_def)
  show "has_slots_flag h \<longleftrightarrow> 0 < n"
    using f' by (simp add: has_slots_flag_def hd_feature_flags_def fld_u32_def FF_KEY_SLOTS_def le_val_le_bytes)
  show "hd_ext_hdr_off h = 0" using f' by (simp add: hd_ext_hdr_off_def fld_u16_def)
  have "192 * n < 2 ^ 16" "n < 2 ^ 8" using n by simp_all
  then have "unat (of_nat (192 * n) :: u16) = 192 * n" "unat (of_nat n :: u8) = n"
    by (simp_all only: unat_of_nat) (simp_all add: mod_less)
  then show "hd_slot_area_len h = 192 * n" "hd_key_slot_count h = n"
    using f' take_nth [of 637 h "of_nat n"] n
    by (simp_all add: hd_slot_area_len_def hd_key_slot_count_def fld_u16_def le_val_le_bytes)
  show "hd_slot_info_size h = (if 0 < n then 32 else 0)"
    using f' by (simp add: hd_slot_info_size_def fld_u16_def le_val_le_bytes)
qed

lemma new_header_layout:
  assumes hs: "host_ok hs" and l: "length h0 = 65536" and n: "n \<le> 100"
  shows "\<exists>h w'. new_header hs 65536 cipher kdf (int n) h0 w = Some (h, w') \<and> fresh_layout n h \<and>
    take 4 (drop 82 h) = le_bytes 4 (unat (u32_of_int cipher)) \<and> take 1 (drop 634 h) = [word_of_int kdf]"
proof -
  obtain b w1 where b0: "new_header hs 65536 cipher kdf 0 h0 w = Some (b, w1)" and lb: "length b = 65536"
    and bs: "\<And>sc. 0 < sc \<Longrightarrow> new_header hs 65536 cipher kdf sc h0 w = do {
        header \<leftarrow> wr_u32 b 628 (hd_feature_flags b OR FF_KEY_SLOTS);
        header \<leftarrow> wr header 637 [word_of_int sc];
        header \<leftarrow> wr_u16 header 635 (word_of_int (sc * 192));
        header \<leftarrow> wr_u16 header 638 32;
        dc_rand_at hs header 1024 (hd_slot_area_len header) w1 }"
    and t: "take 4 (drop 64 b) = le_bytes 4 0x50524344" "take 2 (drop 72 b) = [3, 0]"
    "take 4 (drop 82 b) = le_bytes 4 (unat (u32_of_int cipher))" "take 4 (drop 614 b) = le_bytes 4 65536"
    "take 1 (drop 627 b) = [0]" "take 4 (drop 628 b) = replicate 4 0" "take 2 (drop 632 b) = [0, 0]"
    "take 1 (drop 634 b) = [word_of_int kdf]" "take 5 (drop 635 b) = replicate 5 0"
    "drop 1024 b = replicate 64512 0"
    by (rule new_header_base [OF hs l, of cipher kdf w]) blast
  show ?thesis
  proof (cases "n = 0")
    case True
    have "take m (drop (635 + i) b) = replicate m 0" if "i + m \<le> 5" for i m
    proof -
      have "take m (drop (635 + i) b) = take m (drop i (take 5 (drop 635 b)))"
        using that by (simp add: drop_take min_def add.commute)
      then show ?thesis using that t(9) by simp
    qed
    from this [of 0 2] this [of 2 1] this [of 3 2]
    have "fresh_layout 0 b" using t lb by (simp add: fresh_layout_def le_bytes_zero)
    then show ?thesis using b0 t(3,8) True by simp
  next
    case False
    have ff: "hd_feature_flags b OR FF_KEY_SLOTS = 1" using t(6) by (simp add: hd_feature_flags_def fld_u32_def FF_KEY_SLOTS_def numeral_eq_Suc)
    have a: "unat (word_of_int (int n * 192) :: u16) = 192 * n" "unat (32 :: u16) = 32"
    proof -
      have "192 * n < 2 ^ 16" using n by simp
      moreover have "(word_of_int (int n * 192) :: u16) = of_nat (192 * n)" by (simp add: mult.commute)
      ultimately show "unat (word_of_int (int n * 192) :: u16) = 192 * n" by (simp only: unat_of_nat) (simp add: mod_less)
    qed simp
    obtain c where c: "wr b 628 (le_bytes 4 1) = Some c" "length c = 65536" using wr_ok [of 628 "le_bytes 4 1" b] lb by auto
    obtain d where d: "wr c 637 [of_nat n] = Some d" "length d = 65536" using wr_ok [of 637 "[of_nat n]" c] c(2) by auto
    obtain e where e: "wr d 635 (le_bytes 2 (192 * n)) = Some e" "length e = 65536"
      using wr_ok [of 635 "le_bytes 2 (192 * n)" d] d(2) by auto
    obtain f where f: "wr e 638 (le_bytes 2 32) = Some f" "length f = 65536" using wr_ok [of 638 "le_bytes 2 32" e] e(2) by auto
    note out1 = wr_outside [OF c(1)] wr_outside [OF d(1)] wr_outside [OF e(1)] wr_outside [OF f(1)]
    have area: "hd_slot_area_len f = 192 * n"
      using wr_at [OF e(1)] n a(1) by (simp add: out1 hd_slot_area_len_def fld_u16_def le_val_le_bytes mult.commute)
    obtain r h w2 where h: "dc_rand_at hs f 1024 (192 * n) w1 = Some (h, w2)" "wr f 1024 r = Some h" "length r = 192 * n"
      "length h = 65536"
      using dc_rand_at_ok [OF hs, of 1024 "192 * n" f w1] f(2) n by auto
    have new: "new_header hs 65536 cipher kdf (int n) h0 w = Some (h, w2)"
      using False c(1) d(1) e(1) f(1) h(1) a area by (simp add: bs ff wr_u32_def wr_u16_def)
    note out = out1 wr_outside [OF h(2)] and at = wr_at [OF c(1)] wr_at [OF d(1)] wr_at [OF e(1)] wr_at [OF f(1)]
    have "take (64512 - 192 * n) (drop (1024 + 192 * n) h) = take (64512 - 192 * n) (drop (192 * n) (drop 1024 b))"
      by (simp add: out h(3) add.commute)
    then have "drop (1024 + 192 * n) h = replicate (64512 - 192 * n) 0" using h(4) n t(10) by simp
    then have "fresh_layout n h" using False at t h(4) by (simp add: fresh_layout_def out h(3))
    moreover have "take 4 (drop 82 h) = le_bytes 4 (unat (u32_of_int cipher)) \<and> take 1 (drop 634 h) = [word_of_int kdf]"
      using t by (simp add: out)
    ultimately show ?thesis using new by blast
  qed
qed

text \<open>
  C25: a new header is one the rest of the program accepts. For every number of slots \<^verbatim>\<open>CreateHeader\<close>
  admits, every cipher and derivation function, and whatever the memory and the random bytes hold: the
  fields are set without leaving the buffer, \<^verbatim>\<open>get_header_len\<close> accepts the 64 KB, the layout is the one
  sealing and opening rely on, the slots are 192 bytes each and none is active.
\<close>

theorem new_header_accepted:
  assumes hs: "host_ok hs" and l: "length h0 = 65536" and sc: "0 \<le> sc" "sc \<le> 100" and ci: "0 \<le> cipher" "cipher \<le> 6"
  shows "\<exists>h w'. new_header hs 65536 cipher kdf sc h0 w = Some (h, w') \<and> length h = 65536 \<and>
    get_header_len h = Inr 65536 \<and> layout_ok h \<and> hd_footer_cnt h = 0 \<and> hd_sign h = DC_VOLUME_SIGN \<and>
    hd_alg_1 h = cipher \<and> h ! 634 = word_of_int kdf \<and> int (hd_key_slot_count h) = sc \<and>
    (cp_has_key_slots h \<longleftrightarrow> 0 < sc) \<and> (0 < sc \<longrightarrow> slot_size h = 192) \<and>
    (\<forall>i < hd_key_slot_count h. si_flags h (slot_info_off h i) = Some 0)"
proof -
  define n where "n = nat sc"
  have n: "sc = int n" "n \<le> 100" using sc by (simp_all add: n_def)
  from new_header_layout [OF hs l n(2), of cipher kdf w] obtain h w' where
    h: "new_header hs 65536 cipher kdf sc h0 w = Some (h, w')" "fresh_layout n h"
    "take 4 (drop 82 h) = le_bytes 4 (unat (u32_of_int cipher))" "take 1 (drop 634 h) = [word_of_int kdf]"
    unfolding n(1) by blast
  note f = fresh_layout_fields [OF h(2) n(2)]
  have lh: "length h = 65536" and z: "drop (1024 + 192 * n) h = replicate (64512 - 192 * n) 0"
    using h(2) by (simp_all add: fresh_layout_def)
  have "fld_u32 h 82 = u32_of_int cipher"
  proof -
    have "unat (u32_of_int cipher) < 256 ^ 4" using unsigned_less [of "u32_of_int cipher"] by simp
    then show ?thesis using h(3) by (simp add: fld_u32_def le_val_le_bytes)
  qed
  then have "hd_alg_1 h = cipher"
    using ci by (simp add: hd_alg_1_def u32_of_int_def signed_of_int signed_take_bit_int_eq_self)
  moreover have "get_header_len h = Inr 65536"
    using n(2) by (simp add: get_header_len_eq f slots_len_def DC_AREA_MAX_SIZE_def)
  moreover have "layout_ok h" using n(2) lh by (simp add: layout_ok_def f)
  moreover have "si_flags h (slot_info_off h i) = Some 0" if "i < n" for i
  proof -
    have "take 4 (drop (1024 + 192 * n + (32 * i + 4)) h) = replicate 4 0"
      unfolding drop_drop [symmetric] add.commute [of "1024 + 192 * n"] using z that n(2) by simp
    moreover have "le_val (replicate 4 0) = 0" using le_val_le_bytes [of 0 4] by (simp add: le_bytes_zero)
    ultimately show ?thesis using that n(2) lh
      by (simp add: si_flags_def rd_u32_def rd_def slot_info_off_def f add.assoc)
  qed
  moreover have "cp_has_key_slots h \<longleftrightarrow> 0 < sc" "0 < sc \<longrightarrow> slot_size h = 192" "int (hd_key_slot_count h) = sc"
    using n(1) by (auto simp: cp_has_key_slots_def slot_size_def f)
  moreover have "h ! 634 = word_of_int kdf" using h(4) take_nth [of 634 h] by simp
  ultimately show ?thesis using h(1) lh f by (intro exI [of _ h] exI [of _ w']) simp
qed

theorem new_header_accepted_witness:
  "\<exists>h w'. new_header host_ex 65536 2 5 4 (replicate 65536 0) world_ex = Some (h, w') \<and>
    get_header_len h = Inr 65536 \<and> hd_alg_1 h = 2 \<and> int (hd_key_slot_count h) = 4 \<and> cp_has_key_slots h"
  using new_header_accepted [OF host_ex_ok, of "replicate 65536 0" 4 2 5 world_ex] by auto

end
