(* ===== verification/Spec2Isabelle.thy ===== *)
theory Spec2Isabelle
  imports Prelude Crc32 Digest_Stream Sha512 Hmac Drbg Block Twofish Serpent Aes_Key
    Xts_Mode Xts_Twofish Xts_Fast Xts_Sectors Dc_Types Keyfile_Mix
    Dc_Host Vol_Header Crypto_Head Header_Io Head_Util Header_Seal Key_Slots Header_Write Volume_Head Dc_Buffer SVariant Variant_Read Variant_Containers
    Zero_Search Sector_Device Ram_Disk Crypt_Device Imbox_Header Imbox_Open Imbox_Crypto Imbox_Edit
begin

text \<open>
  MajorPrivacy is a privacy tool for Windows: a kernel driver and a service that enforce rules, a
  desktop application, and encrypted volumes in container files. This development models the part
  that decides whether an encrypted volume is safe and can be opened again: the cryptographic
  library \<^verbatim>\<open>ImBox/dc/crypto_lib\<close> and, on top of it, the volume library
  \<^verbatim>\<open>ImBox/dc/volume_lib\<close>, which derives keys from passwords and keyfiles, searches a volume header
  for the cipher, key-derivation function and key slot that open it, and maintains the header; and
  above both the image box (\<^verbatim>\<open>ImBox\<close>), whose encrypted device reads and writes the sectors of a
  volume over the device that holds the image.

  Conventions (theory \<open>Prelude\<close>). C integers are words of their width (\<open>u8\<close>, \<open>u32\<close>, \<open>u64\<close>), so
  arithmetic wraps as it does in C; signed \<^verbatim>\<open>int\<close> arguments are \<open>int\<close>. A memory buffer is the list of
  its bytes, and \<open>rd\<close> and \<open>wr\<close> are its only accesses: one that leaves the buffer is \<open>None\<close>. Every
  operation returns an option, and \<open>None\<close> is the undefined behaviour of the C code (a read or a write
  outside of a buffer, a division by zero, an unsigned length that underflowed), never a status of
  its own; that an operation returns \<open>Some\<close> is therefore memory safety. Statuses (\<open>dc_status\<close>, the
  \<^verbatim>\<open>ST_*\<close> codes) and booleans are values. Loops are recursive functions that terminate: over the list
  of slot numbers, ciphers or functions that the C loop counts through, or with a measure; the two
  loops that need not end (the multiplication modulo the CRC polynomial and the squaring beside it,
  \<^verbatim>\<open>crc32.c\<close>) are partial functions, and the first property of \<open>Crc32\<close> shows that they return.

  The theories and the code.

  \<^item> \<open>Crc32\<close>: \<^verbatim>\<open>crypto_lib/crc32.c\<close>. Polynomials over GF(2) as words; the combined checksum is the
    checksum of the concatenation, for every length below \<open>2 ^ 32\<close>.
  \<^item> \<open>Digest_Stream\<close>, \<open>Sha512\<close>, \<open>Hmac\<close>, \<open>Drbg\<close>: \<^verbatim>\<open>sha512.c\<close>, \<^verbatim>\<open>sha512_hmac.c\<close>, \<^verbatim>\<open>sha512_pkcs5_2.c\<close>,
    \<^verbatim>\<open>sha512_hmac_drbg.c\<close>. The locale \<open>digest_stream\<close> is what each layer asks of the one below: a context
    that absorbs pieces and a final step that digests their concatenation. SHA-512 provides it against
    a definition of FIPS 180-4, HMAC-SHA-512 consumes and provides it, PBKDF2 and the generator
    consume it; the results are stated against RFC 2104, RFC 8018 and SP 800-90A.
  \<^item> \<open>Block\<close>, \<open>Twofish\<close>, \<open>Serpent\<close>, \<open>Aes_Key\<close>: the block ciphers. \<open>Block\<close> has the locale of a
    cipher with its inverse, which the first two provide. Twofish is compared with the cipher of its
    specification (h function, MDS and RS matrices, Feistel rounds), Serpent's gate sequences with
    the S-box tables.
  \<^item> \<open>Xts_Mode\<close>, \<open>Xts_Twofish\<close>, \<open>Xts_Fast\<close>, \<open>Xts_Sectors\<close>: \<^verbatim>\<open>xts_fast.c\<close>, \<^verbatim>\<open>xts_twofish.c\<close>. The macro
    \<^verbatim>\<open>DEF_XTS_PROC\<close> against IEEE 1619, the interleaved Twofish core against the macro, the seven
    ciphers and cascades that \<^verbatim>\<open>xts_set_key\<close> selects. The AES block transform is machine code or
    intrinsics and is a parameter \<open>aes_core\<close>, with the hypothesis that decryption inverts encryption
    for the schedules of one key.
  \<^item> \<open>Dc_Types\<close>, \<open>Dc_Host\<close>, \<open>Dc_Buffer\<close>: \<^verbatim>\<open>dc_status.h\<close>, \<^verbatim>\<open>dc_dev.h\<close>, \<^verbatim>\<open>dc_host.c\<close>, \<^verbatim>\<open>dc_buffer.c\<close>.
    The host that the caller installs (allocator, random generator, logging) and the device of
    callbacks. A \<open>world\<close> carries the number of live allocations, the environment of the host and the
    contents of the device; \<open>host_ok\<close> states what the code relies on (the generator fills the
    requested length, Argon2 returns as many bytes as it is asked for).
  \<^item> \<open>Keyfile_Mix\<close>: \<^verbatim>\<open>keyfile_mix.c\<close>. The growing array of keyfile hashes, its sort and compaction,
    the canonical and the additive mixing scheme.
  \<^item> \<open>Vol_Header\<close>: \<^verbatim>\<open>volume_header.h\<close> and the validity checks of \<^verbatim>\<open>header_io.c\<close>. A header is its
    bytes; each field is a read at its packed offset.
  \<^item> \<open>Crypto_Head\<close>: \<^verbatim>\<open>crypto_head.c\<close>. Key derivation, the search over key-derivation functions, slots
    and ciphers, and slot wrapping.
  \<^item> \<open>Head_Util\<close>, \<open>Header_Seal\<close>, \<open>Key_Slots\<close>: \<^verbatim>\<open>head_util.c\<close> with its lemmas: sealing and unsealing in
    memory, the accessors of single key slots.
  \<^item> \<open>Header_Io\<close>: \<^verbatim>\<open>header_io.c\<close>. Reading a header from a device, the rest of it once its length is
    known, writing the whole of it or parts, the extended header.
  \<^item> \<open>Volume_Head\<close>: \<^verbatim>\<open>volume_head.c\<close>. Changing passwords of the header and of slots, the backup header.

  \<^item> \<open>Sector_Device\<close>, \<open>Zero_Search\<close>, \<open>Ram_Disk\<close>, \<open>Crypt_Device\<close>: \<^verbatim>\<open>ImBox/AbstractIO.h\<close>, the searches for
    zeros of \<^verbatim>\<open>ImDiskIO.cpp\<close>, \<^verbatim>\<open>VirtualMemoryIO.cpp\<close>, and the sector operations of \<^verbatim>\<open>CryptoIO.cpp\<close>. An
    object is the record \<open>abs_io\<close> of its virtual methods. The locale \<open>sector_device\<close> is the contract
    of a device; the RAM disk provides it, abstracted to the sequence of its bytes, and the locale
    \<open>crypt_device\<close> extends it by a cipher on sectors and provides it again (\<open>sublocale\<close>), with an
    interpretation for a Serpent volume on a RAM disk. The requests are whole sectors of at most
    \<open>2 ^ 30\<close> bytes, so that the \<^verbatim>\<open>int\<close> arithmetic of the loops does not overflow; what happens past the
    end of the disk is a theorem of its own.
  \<^item> \<open>Imbox_Header\<close>, \<open>Imbox_Open\<close>, \<open>Imbox_Crypto\<close>, \<open>Imbox_Edit\<close>: \<^verbatim>\<open>ImBox/dc/dc_header.c\<close> and the rest of
    \<^verbatim>\<open>CryptoIO.cpp\<close>. Opening a header from a read that may be too short, the loop of \<^verbatim>\<open>ReadHeader\<close>,
    which ends because every turn reads a longer header and none is longer than 32 MB; creating,
    passwords and slots, backup and restore, and the two halves of the header editor with the shared
    section. \<open>Imbox_Edit\<close> has what the edit keeps and what a new header is.

  \<^item> \<open>SVariant\<close>, \<open>Variant_Read\<close>, \<open>Variant_Containers\<close>: \<^verbatim>\<open>Framework/Common/SVariant.c\<close> and its headers,
    the self-describing values that the parts of the program exchange. Pointers are offsets into one
    memory. The readers are shown to stay inside whatever the bytes are; maps and indices are
    interpretations of the locale \<open>keyed_container\<close>, whose contract gives that a container that was
    filled is read back. Sizes are natural numbers, the 32-bit fields words.

  What the lemmas show. The ciphers, the hash, the derivations and the CRC are what their standards
  say, for every input the code admits. A header search that succeeds has opened the header with a
  function, slot and cipher it was allowed to try; one that fails has changed nothing. Key slots wrap
  header keys, a changed password unlocks what the old one unlocked, and a header that is sealed opens
  again. The encrypted device over a RAM disk returns what was written, for every order of requests
  inside the disk. Two theorems state where the code and its comments part: the aliasing of
  \<^verbatim>\<open>cp_decrypt_header_with_key\<close> and the partial filling of \<^verbatim>\<open>CP_SLOT_RANDOM\<close>. Others state when the code
  leaves its buffers or leaks memory: the area of the header's checksum, the extended header and its
  update (\<open>merge_ext_past_end\<close>), descriptors of size zero (\<open>dc_decrypt_tail_past_end\<close>), a RAM disk
  request past the end (\<open>ram_write_beyond\<close>), and a derivation that fails.

  Not modelled. The SIMD and assembly cores and their selection by processor features
  (\<^verbatim>\<open>xts_aes_ni.c\<close>, \<^verbatim>\<open>xts_serpent_avx.c\<close>, \<^verbatim>\<open>cl_cpu.c\<close> and others), which the C semantics here does
  not reach; Argon2 (vendored, a parameter); wiping of stack and heap memory, which has no effect on
  results; logging. Of the image box, the command line and the process (\<^verbatim>\<open>ImBox.cpp\<close>), the proxy thread
  of the ImDisk driver (\<^verbatim>\<open>ImDiskIO.cpp\<close>), images in files and in memory of the driver
  (\<^verbatim>\<open>ImageFileIO.cpp\<close>, \<^verbatim>\<open>PhysicalMemoryIO.cpp\<close>) and the loading of \<^verbatim>\<open>dcvolume.dll\<close>, which are calls of
  Windows around what is modelled. Of the rest of the repository, the service, the driver interface,
  the desktop application and the libraries around Windows interfaces are input and output over calls of the
  operating system, and \<^verbatim>\<open>quickjspp\<close>, \<^verbatim>\<open>phnt\<close>, \<^verbatim>\<open>Library/PHlib\<close>, Detours and miniz are third-party code.
\<close>

end
